(* ===== verification/Kumo_Prelude.thy ===== *)
theory Kumo_Prelude
  imports Main "HOL-Library.Word" "HOL-Library.Monad_Syntax" "HOL-Library.Sublist"
begin

text \<open>
  What every component of the development shares: the result type of fallible operations, Rust's
  string routines on byte strings (\<^verbatim>\<open>split_once\<close>, \<^verbatim>\<open>rsplit_once\<close>, \<^verbatim>\<open>split\<close>,
  \<^verbatim>\<open>strip_prefix\<close>, \<^verbatim>\<open>trim\<close>, \<^verbatim>\<open>to_ascii_lowercase\<close>, decimal printing and parsing of unsigned
  integers), saturating arithmetic on machine words, and the interfaces several components
  implement: a printer with its parser (\<open>codec\<close>), and a state machine with an
  invariant (\<open>invariant_system\<close>).

  A Rust \<^verbatim>\<open>str\<close> is a \<^typ>\<open>string\<close>, a list of bytes.  The routines below look for and change
  ASCII characters only, and UTF-8 never uses an ASCII byte inside a longer character, so on valid
  UTF-8 they act on the bytes as the Rust routines act on the characters.
\<close>

section \<open>Collections of simplification rules\<close>

named_theorems str_simps \<open>rewrite rules on the string routines\<close>
named_theorems sat_simps \<open>the value of saturating word arithmetic\<close>

section \<open>Results\<close>

text \<open>\<^verbatim>\<open>Result<A, E>\<close>: \<open>Inl\<close> is the error.\<close>

type_synonym ('e, 'a) result = "'e + 'a"

definition rbind :: "('e, 'a) result \<Rightarrow> ('a \<Rightarrow> ('e, 'b) result) \<Rightarrow> ('e, 'b) result" where
  "rbind r f = (case r of Inl e \<Rightarrow> Inl e | Inr a \<Rightarrow> f a)"

definition is_ok :: "('e, 'a) result \<Rightarrow> bool" where
  "is_ok r = (case r of Inl _ \<Rightarrow> False | Inr _ \<Rightarrow> True)"

definition ok_or :: "'a option \<Rightarrow> 'e \<Rightarrow> ('e, 'a) result" where
  "ok_or x e = (case x of None \<Rightarrow> Inl e | Some a \<Rightarrow> Inr a)"

fun collect_results :: "('e, 'a) result list \<Rightarrow> ('e, 'a list) result" where
  "collect_results [] = Inr []"
| "collect_results (r # rs) = rbind r (\<lambda>a. rbind (collect_results rs) (\<lambda>as. Inr (a # as)))"

section \<open>String routines\<close>

text \<open>\<^verbatim>\<open>str::split_once(char)\<close>: cut at the first occurrence.\<close>

fun split_once :: "char \<Rightarrow> string \<Rightarrow> (string \<times> string) option" where
  "split_once c [] = None"
| "split_once c (x # xs) =
     (if x = c then Some ([], xs)
      else map_option (\<lambda>(a, b). (x # a, b)) (split_once c xs))"

fun strip_prefix :: "string \<Rightarrow> string \<Rightarrow> string option" where
  "strip_prefix [] s = Some s"
| "strip_prefix (p # ps) [] = None"
| "strip_prefix (p # ps) (x # xs) = (if p = x then strip_prefix ps xs else None)"

text \<open>\<^verbatim>\<open>str::split_once(&str)\<close>: cut at the first occurrence of a string.\<close>

fun split_once_str :: "string \<Rightarrow> string \<Rightarrow> (string \<times> string) option" where
  "split_once_str p [] = (if p = [] then Some ([], []) else None)"
| "split_once_str p (x # xs) =
     (case strip_prefix p (x # xs) of
        Some r \<Rightarrow> Some ([], r)
      | None \<Rightarrow> map_option (\<lambda>(a, b). (x # a, b)) (split_once_str p xs))"

text \<open>\<^verbatim>\<open>str::rsplit_once(char)\<close>: cut at the last occurrence.\<close>

definition rsplit_once :: "char \<Rightarrow> string \<Rightarrow> (string \<times> string) option" where
  "rsplit_once c s = map_option (\<lambda>(a, b). (rev b, rev a)) (split_once c (rev s))"

text \<open>\<^verbatim>\<open>str::split(pred)\<close>: the fields between the separators, the empty ones included.\<close>

fun split_pred :: "(char \<Rightarrow> bool) \<Rightarrow> string \<Rightarrow> string list" where
  "split_pred p [] = [[]]"
| "split_pred p (x # xs) =
     (if p x then [] # split_pred p xs
      else (case split_pred p xs of [] \<Rightarrow> [[x]] | y # ys \<Rightarrow> (x # y) # ys))"

abbreviation split_on :: "char \<Rightarrow> string \<Rightarrow> string list" where
  "split_on c \<equiv> split_pred (\<lambda>x. x = c)"

fun join :: "string \<Rightarrow> string list \<Rightarrow> string" where
  "join sep [] = []"
| "join sep [x] = x"
| "join sep (x # y # ys) = x @ sep @ join sep (y # ys)"

definition strip_suffix :: "string \<Rightarrow> string \<Rightarrow> string option" where
  "strip_suffix p s = map_option rev (strip_prefix (rev p) (rev s))"

definition starts_with :: "string \<Rightarrow> string \<Rightarrow> bool" where
  "starts_with p s = (strip_prefix p s \<noteq> None)"

definition ends_with :: "string \<Rightarrow> string \<Rightarrow> bool" where
  "ends_with p s = (strip_suffix p s \<noteq> None)"

abbreviation chr_code :: "char \<Rightarrow> nat" where
  "chr_code c \<equiv> of_char c"

text \<open>\<^verbatim>\<open>u8::is_ascii_whitespace\<close> is space, tab, LF, FF and CR; \<^verbatim>\<open>char::is_whitespace\<close> has VT too.\<close>

definition is_ascii_whitespace :: "char \<Rightarrow> bool" where
  "is_ascii_whitespace c = (chr_code c \<in> {9, 10, 12, 13, 32})"

definition is_whitespace :: "char \<Rightarrow> bool" where
  "is_whitespace c = (chr_code c \<in> {9, 10, 11, 12, 13, 32})"

definition trim_start :: "string \<Rightarrow> string" where
  "trim_start s = dropWhile is_whitespace s"

definition trim_end :: "string \<Rightarrow> string" where
  "trim_end s = rev (dropWhile is_whitespace (rev s))"

definition trim :: "string \<Rightarrow> string" where
  "trim s = trim_end (trim_start s)"

definition is_ascii_digit :: "char \<Rightarrow> bool" where
  "is_ascii_digit c = (48 \<le> chr_code c \<and> chr_code c \<le> 57)"

definition is_ascii_alpha :: "char \<Rightarrow> bool" where
  "is_ascii_alpha c =
     (65 \<le> chr_code c \<and> chr_code c \<le> 90 \<or> 97 \<le> chr_code c \<and> chr_code c \<le> 122)"

abbreviation is_ascii_alphanumeric :: "char \<Rightarrow> bool" where
  "is_ascii_alphanumeric c \<equiv> is_ascii_alpha c \<or> is_ascii_digit c"

definition lower_char :: "char \<Rightarrow> char" where
  "lower_char c = (if 65 \<le> chr_code c \<and> chr_code c \<le> 90 then char_of (chr_code c + 32) else c)"

definition to_ascii_lowercase :: "string \<Rightarrow> string" where
  "to_ascii_lowercase s = map lower_char s"

definition eq_ignore_ascii_case :: "string \<Rightarrow> string \<Rightarrow> bool" where
  "eq_ignore_ascii_case a b = (to_ascii_lowercase a = to_ascii_lowercase b)"

text \<open>Text in single quotes, for messages.\<close>

definition quoted :: "string \<Rightarrow> string" where
  "quoted s = CHR 0x27 # s @ [CHR 0x27]"

definition split_whitespace :: "string \<Rightarrow> string list" where
  "split_whitespace s = filter (\<lambda>t. t \<noteq> []) (split_pred is_whitespace s)"

text \<open>Decimal numbers: \<^verbatim>\<open>Display\<close> of an unsigned integer, and \<^verbatim>\<open>str::parse\<close>, which takes an
  optional plus sign, at least one digit, and refuses what exceeds the type's maximum.\<close>

definition digit_char :: "nat \<Rightarrow> char" where
  "digit_char d = char_of (d + 48)"

definition digit_val :: "char \<Rightarrow> nat" where
  "digit_val c = chr_code c - 48"

fun show_nat :: "nat \<Rightarrow> string" where
  "show_nat n = (if n < 10 then [digit_char n] else show_nat (n div 10) @ [digit_char (n mod 10)])"

declare show_nat.simps [simp del]

definition digits_val :: "string \<Rightarrow> nat" where
  "digits_val s = foldl (\<lambda>n c. n * 10 + digit_val c) 0 s"

definition parse_digits :: "nat \<Rightarrow> string \<Rightarrow> nat option" where
  "parse_digits mx s =
     (if s \<noteq> [] \<and> list_all is_ascii_digit s \<and> digits_val s \<le> mx then Some (digits_val s) else None)"

definition parse_uint :: "nat \<Rightarrow> string \<Rightarrow> nat option" where
  "parse_uint mx s =
     (case s of [] \<Rightarrow> None
      | x # xs \<Rightarrow> if x = CHR ''+'' then parse_digits mx xs else parse_digits mx s)"

abbreviation u8_max :: nat where "u8_max \<equiv> 2 ^ 8 - 1"
abbreviation u16_max :: nat where "u16_max \<equiv> 2 ^ 16 - 1"
abbreviation u32_max :: nat where "u32_max \<equiv> 2 ^ 32 - 1"
abbreviation u64_max :: nat where "u64_max \<equiv> 2 ^ 64 - 1"

section \<open>Saturating arithmetic on words\<close>

definition saturating_add :: "'a::len word \<Rightarrow> 'a word \<Rightarrow> 'a word" where
  "saturating_add a b = (if unat a + unat b < 2 ^ LENGTH('a) then a + b else - 1)"

definition saturating_sub :: "'a::len word \<Rightarrow> 'a word \<Rightarrow> 'a word" where
  "saturating_sub a b = (if b \<le> a then a - b else 0)"

definition saturating_mul :: "'a::len word \<Rightarrow> 'a word \<Rightarrow> 'a word" where
  "saturating_mul a b = (if unat a * unat b < 2 ^ LENGTH('a) then a * b else - 1)"

text \<open>\<^verbatim>\<open>2u64.saturating_pow(n)\<close>.\<close>

definition saturating_pow2 :: "nat \<Rightarrow> 'a::len word" where
  "saturating_pow2 n = (if n < LENGTH('a) then 2 ^ n else - 1)"

section \<open>Lemmas on results\<close>

lemma rbind_simps [simp]:
  "rbind (Inl e) f = Inl e"
  "rbind (Inr a) f = f a"
  by (simp_all add: rbind_def)

lemma rbind_Inr_iff: "rbind r f = Inr b \<longleftrightarrow> (\<exists>a. r = Inr a \<and> f a = Inr b)"
  by (cases r) simp_all

lemma rbind_Inl_iff: "rbind r f = Inl e \<longleftrightarrow> r = Inl e \<or> (\<exists>a. r = Inr a \<and> f a = Inl e)"
  by (cases r) simp_all

lemma is_ok_simps [simp]: "\<not> is_ok (Inl e)" "is_ok (Inr a)"
  by (simp_all add: is_ok_def)

lemma ok_or_simps [simp]: "ok_or None e = Inl e" "ok_or (Some a) e = Inr a"
  by (simp_all add: ok_or_def)

lemma ok_or_Inr_iff [simp]: "ok_or x e = Inr a \<longleftrightarrow> x = Some a"
  by (cases x) simp_all

lemma collect_results_Inr:
  "collect_results (map f xs) = Inr ys \<longleftrightarrow> list_all2 (\<lambda>x y. f x = Inr y) xs ys"
proof (induction xs arbitrary: ys)
  case (Cons x xs)
  show ?case
    by (cases "f x"; cases ys; auto simp: rbind_Inr_iff Cons.IH)
qed auto

section \<open>Lemmas on the string routines\<close>

lemma split_once_None_iff [str_simps]: "split_once c s = None \<longleftrightarrow> c \<notin> set s"
  by (induction s) auto

lemma split_once_append [str_simps]: "c \<notin> set a \<Longrightarrow> split_once c (a @ c # b) = Some (a, b)"
  by (induction a) auto

lemma split_once_Some_iff:
  "split_once c s = Some (a, b) \<longleftrightarrow> c \<notin> set a \<and> s = a @ c # b"
proof
  show "split_once c s = Some (a, b) \<Longrightarrow> c \<notin> set a \<and> s = a @ c # b"
    by (induction s arbitrary: a) (auto split: if_splits)
qed (simp add: str_simps)

lemma rsplit_once_None_iff [str_simps]: "rsplit_once c s = None \<longleftrightarrow> c \<notin> set s"
  by (simp add: rsplit_once_def str_simps)

lemma rsplit_once_Some_iff:
  "rsplit_once c s = Some (a, b) \<longleftrightarrow> c \<notin> set b \<and> s = a @ c # b"
proof -
  have "rsplit_once c s = Some (a, b) \<longleftrightarrow> split_once c (rev s) = Some (rev b, rev a)"
    by (auto simp: rsplit_once_def)
  also have "\<dots> \<longleftrightarrow> c \<notin> set b \<and> rev s = rev b @ c # rev a"
    by (simp add: split_once_Some_iff)
  also have "rev s = rev b @ c # rev a \<longleftrightarrow> s = a @ c # b"
    by (metis append.assoc append_Cons append_Nil rev.simps(2) rev_append rev_rev_ident)
  finally show ?thesis .
qed

lemma split_pred_not_Nil [simp]: "split_pred p s \<noteq> []"
  by (induction s) (auto split: list.splits)

lemma split_pred_field: "(\<forall>x \<in> set a. \<not> p x) \<Longrightarrow> split_pred p a = [a]"
  by (induction a) auto

lemma split_pred_append:
  "\<forall>x \<in> set a. \<not> p x \<Longrightarrow> p c \<Longrightarrow> split_pred p (a @ c # b) = a # split_pred p b"
  by (induction a) auto

lemma split_pred_join:
  assumes "xs \<noteq> []" "\<forall>x \<in> set xs. c \<notin> set x"
  shows "split_on c (join [c] xs) = xs"
  using assms
proof (induction "[c]" xs rule: join.induct)
  case (3 x y ys)
  then have "\<forall>z \<in> set x. z \<noteq> c" by auto
  with 3 show ?case by (simp add: split_pred_append)
qed (auto intro: split_pred_field)

lemma join_split_pred: "join [c] (split_on c s) = s"
proof (induction s)
  case (Cons x xs)
  obtain y ys where "split_on c xs = y # ys"
    using split_pred_not_Nil by (metis neq_Nil_conv)
  with Cons show ?case by (cases ys) auto
qed simp

lemma split_pred_fields: "f \<in> set (split_pred p s) \<Longrightarrow> \<forall>x \<in> set f. \<not> p x"
proof (induction s arbitrary: f)
  case (Cons a s)
  then show ?case
    by (cases "split_pred p s") (force split: if_splits)+
qed simp

lemma strip_prefix_Some_iff: "strip_prefix p s = Some r \<longleftrightarrow> s = p @ r"
  by (induction p s rule: strip_prefix.induct) auto

lemma strip_prefix_append [str_simps]: "strip_prefix p (p @ r) = Some r"
  by (simp add: strip_prefix_Some_iff)

lemma strip_prefix_None_iff: "strip_prefix p s = None \<longleftrightarrow> \<not> prefix p s"
  by (metis not_None_eq prefix_def strip_prefix_Some_iff)

lemma split_once_str_append [str_simps]:
  "c \<notin> set a \<Longrightarrow> split_once_str (c # p) (a @ c # p @ b) = Some (a, b)"
proof (induction a)
  case (Cons x a)
  then show ?case by simp
qed (simp add: strip_prefix_append)

lemma split_once_str_None [str_simps]: "c \<notin> set s \<Longrightarrow> split_once_str (c # p) s = None"
  by (induction s) auto

lemma starts_with_iff [str_simps]: "starts_with p s \<longleftrightarrow> prefix p s"
  by (simp add: starts_with_def strip_prefix_None_iff)

lemma strip_suffix_Some_iff: "strip_suffix p s = Some r \<longleftrightarrow> s = r @ p"
proof -
  have "strip_suffix p s = Some r \<longleftrightarrow> strip_prefix (rev p) (rev s) = Some (rev r)"
    by (auto simp: strip_suffix_def)
  also have "\<dots> \<longleftrightarrow> s = r @ p"
    by (metis rev_append rev_rev_ident strip_prefix_Some_iff)
  finally show ?thesis .
qed

lemma ends_with_iff [str_simps]: "ends_with p s \<longleftrightarrow> suffix p s"
  by (metis ends_with_def not_None_eq strip_suffix_Some_iff suffix_def)

lemma to_ascii_lowercase_simps [simp]:
  "to_ascii_lowercase [] = []"
  "to_ascii_lowercase (x # xs) = lower_char x # to_ascii_lowercase xs"
  "to_ascii_lowercase (xs @ ys) = to_ascii_lowercase xs @ to_ascii_lowercase ys"
  "length (to_ascii_lowercase xs) = length xs"
  by (simp_all add: to_ascii_lowercase_def)

lemma lower_char_idem [simp]: "lower_char (lower_char c) = lower_char c"
proof (cases "65 \<le> chr_code c \<and> chr_code c \<le> 90")
  case True
  then have "(of_char (char_of (chr_code c + 32)) :: nat) = chr_code c + 32"
    by simp
  then show ?thesis using True by (simp add: lower_char_def)
qed (auto simp: lower_char_def)

lemma to_ascii_lowercase_idem [simp]:
  "to_ascii_lowercase (to_ascii_lowercase s) = to_ascii_lowercase s"
  by (simp add: to_ascii_lowercase_def)

lemma eq_ignore_ascii_case_refl [simp]: "eq_ignore_ascii_case s s"
  by (simp add: eq_ignore_ascii_case_def)

subsection \<open>Decimal numbers\<close>

lemma digit_char_props:
  assumes "d < 10"
  shows "is_ascii_digit (digit_char d)" "digit_val (digit_char d) = d"
  using assms by (simp_all add: is_ascii_digit_def digit_char_def digit_val_def)

lemma digits_val_snoc: "digits_val (s @ [c]) = digits_val s * 10 + digit_val c"
  by (simp add: digits_val_def)

lemma show_nat_not_Nil [simp]: "show_nat n \<noteq> []"
  by (subst show_nat.simps) simp

lemma show_nat_digits [simp]: "list_all is_ascii_digit (show_nat n)"
proof (induction n rule: show_nat.induct)
  case (1 n)
  then show ?case
    by (subst show_nat.simps) (simp add: digit_char_props)
qed

lemma digits_val_show_nat [simp]: "digits_val (show_nat n) = n"
proof (induction n rule: show_nat.induct)
  case (1 n)
  show ?case
  proof (cases "n < 10")
    case True
    then show ?thesis
      by (subst show_nat.simps) (simp add: digits_val_def digit_char_props)
  next
    case False
    then show ?thesis
      using 1 by (subst show_nat.simps) (simp add: digits_val_snoc digit_char_props)
  qed
qed

lemma digit_not_plus: "is_ascii_digit c \<Longrightarrow> c \<noteq> CHR ''+''"
  by (auto simp: is_ascii_digit_def)

lemma show_nat_chars: "x \<in> set (show_nat n) \<Longrightarrow> is_ascii_digit x"
  using show_nat_digits[of n] by (simp add: list_all_iff)

lemma show_nat_no: "\<not> is_ascii_digit c \<Longrightarrow> c \<notin> set (show_nat n)"
  using show_nat_chars by blast

lemma parse_uint_show_nat [simp]: "parse_uint mx (show_nat n) = (if n \<le> mx then Some n else None)"
proof (cases "show_nat n")
  case (Cons x xs)
  then have "x \<noteq> CHR ''+''"
    using show_nat_digits[of n] digit_not_plus by (metis list.pred_inject(2))
  moreover have "parse_digits mx (show_nat n) = (if n \<le> mx then Some n else None)"
    by (simp add: parse_digits_def)
  ultimately show ?thesis
    using Cons by (simp add: parse_uint_def)
qed (simp add: parse_uint_def)

lemma parse_uint_bound: "parse_uint mx s = Some n \<Longrightarrow> n \<le> mx"
  by (auto simp: parse_uint_def parse_digits_def split: list.splits if_splits)

lemma show_nat_inj: "show_nat m = show_nat n \<longleftrightarrow> m = n"
  by (metis digits_val_show_nat)

section \<open>Lemmas on saturating arithmetic\<close>

lemma unat_word_max [simp]: "unat (- 1 :: 'a::len word) = 2 ^ LENGTH('a) - 1"
  by (simp add: unsigned_minus_1_eq_mask mask_eq_exp_minus_1)

lemma unat_add_no_overflow:
  fixes a b :: "'a::len word"
  shows "unat a + unat b < 2 ^ LENGTH('a) \<Longrightarrow> unat (a + b) = unat a + unat b"
  by (metis unat_add_lem)

lemma unat_mult_no_overflow:
  fixes a b :: "'a::len word"
  shows "unat a * unat b < 2 ^ LENGTH('a) \<Longrightarrow> unat (a * b) = unat a * unat b"
  by (metis unat_mult_lem)

lemma unat_two_power:
  assumes "n < LENGTH('a)"
  shows "unat (2 ^ n :: 'a::len word) = 2 ^ n"
proof -
  have "unat (of_nat (2 ^ n) :: 'a word) = 2 ^ n"
    unfolding unsigned_of_nat using assms by (simp add: take_bit_nat_eq_self)
  then show ?thesis by simp
qed

lemma unat_saturating_add [sat_simps]:
  fixes a b :: "'a::len word"
  shows "unat (saturating_add a b) = min (unat a + unat b) (2 ^ LENGTH('a) - 1)"
  by (auto simp: saturating_add_def unat_add_no_overflow unat_mult_no_overflow)

lemma unat_saturating_sub [sat_simps]:
  "unat (saturating_sub a b) = unat a - unat b"
  by (auto simp: saturating_sub_def unat_sub word_le_nat_alt)

lemma unat_saturating_mul [sat_simps]:
  fixes a b :: "'a::len word"
  shows "unat (saturating_mul a b) = min (unat a * unat b) (2 ^ LENGTH('a) - 1)"
  by (auto simp: saturating_mul_def unat_add_no_overflow unat_mult_no_overflow)

lemma unat_saturating_pow2 [sat_simps]:
  "unat (saturating_pow2 n :: 'a::len word) = min (2 ^ n) (2 ^ LENGTH('a) - 1)"
proof (cases "n < LENGTH('a)")
  case True
  then have "(2::nat) ^ n < 2 ^ LENGTH('a)"
    by simp
  then have "(2::nat) ^ n \<le> 2 ^ LENGTH('a) - 1"
    by linarith
  with True show ?thesis
    by (simp add: saturating_pow2_def unat_two_power)
next
  case False
  then have "(2::nat) ^ LENGTH('a) \<le> 2 ^ n"
    by simp
  then have "(2::nat) ^ LENGTH('a) - 1 \<le> 2 ^ n"
    by linarith
  with False show ?thesis
    by (simp add: saturating_pow2_def)
qed

section \<open>Interfaces\<close>

text \<open>A printer whose output its parser reads back, on the values \<open>ok\<close> admits.\<close>

locale codec =
  fixes prnt :: "'a \<Rightarrow> string"
    and prs :: "string \<Rightarrow> 'b"
    and ret :: "'a \<Rightarrow> 'b"
    and ok :: "'a \<Rightarrow> bool"
  assumes round_trip: "ok x \<Longrightarrow> prs (prnt x) = ret x"
    and ret_inj: "ret x = ret y \<Longrightarrow> x = y"
begin

lemma print_inj:
  assumes "ok x" "ok y" "prnt x = prnt y"
  shows "x = y"
  using assms round_trip ret_inj by metis

lemma print_iff: "ok x \<Longrightarrow> ok y \<Longrightarrow> prnt x = prnt y \<longleftrightarrow> x = y"
  using print_inj by blast

end

text \<open>Operations on a state that each keep an invariant: every sequence of them keeps it.\<close>

locale invariant_system =
  fixes step :: "'op \<Rightarrow> 's \<Rightarrow> 's"
    and inv :: "'s \<Rightarrow> bool"
  assumes step_inv: "inv s \<Longrightarrow> inv (step opn s)"
begin

lemma run_inv: "inv s \<Longrightarrow> inv (fold step opns s)"
  by (induction opns arbitrary: s) (auto intro: step_inv)

end

end
