(* ===== verification/Throttle_Spec.thy ===== *)
theory Throttle_Spec
  imports Kumo_Prelude
begin

text \<open>
  The throttle and limit specifications of \<^verbatim>\<open>crates/throttle/src/lib.rs\<close>: what an operator writes as
  \<^verbatim>\<open>local:1,000/10m,max_burst=5\<close>, its parser (\<^verbatim>\<open>TryFrom<&str>\<close>) and its printer (\<^verbatim>\<open>as_string\<close>).
  A \<^verbatim>\<open>u64\<close> is a natural number at most \<open>u64_max\<close>; the one unchecked product of the parser is
  reduced modulo \<^term>\<open>2 ^ 64\<close>, as the release build does.
\<close>

section \<open>Model\<close>

record throttle_spec =
  ts_limit :: nat
  ts_period :: nat
  ts_max_burst :: "nat option"
  ts_force_local :: bool

datatype throttle_parse_error =
    NumberTooBig
  | InvalidPeriodQuantity string
  | InvalidLimit string
  | ExpectedLimitPeriod string
  | UnknownPeriod string
  | ZeroLimit string

definition burst :: "throttle_spec \<Rightarrow> nat" where
  "burst t = (case ts_max_burst t of None \<Rightarrow> ts_limit t | Some b \<Rightarrow> b)"

definition as_local :: "throttle_spec \<Rightarrow> throttle_spec" where
  "as_local t = t\<lparr>ts_force_local := True\<rparr>"

definition as_string :: "throttle_spec \<Rightarrow> string" where
  "as_string t =
     (let (scale, period) =
        (if ts_period t = 86400 then ([], ''d'')
         else if ts_period t = 3600 then ([], ''h'')
         else if ts_period t = 60 then ([], ''m'')
         else if ts_period t = 1 then ([], ''s'')
         else (show_nat (ts_period t), ''s''));
        brst = (case ts_max_burst t of Some b \<Rightarrow> '',max_burst='' @ show_nat b | None \<Rightarrow> [])
      in (if ts_force_local t then ''local:'' else []) @ show_nat (ts_limit t) @ ''/'' @ scale @ period @ brst)"

text \<open>The loop of \<^verbatim>\<open>opt_digit_prefix\<close>, with the number read so far; the digit tests that cannot
  fail after \<^verbatim>\<open>is_ascii_digit\<close> are left out.\<close>

fun opt_digit_prefix_loop :: "nat option \<Rightarrow> string \<Rightarrow> string \<Rightarrow> (throttle_parse_error, nat \<times> string) result" where
  "opt_digit_prefix_loop n whole [] = Inl (InvalidPeriodQuantity whole)"
| "opt_digit_prefix_loop n whole (c # cs) =
     (if \<not> is_ascii_digit c then Inr (case n of None \<Rightarrow> 1 | Some k \<Rightarrow> k, c # cs)
      else let m = (case n of None \<Rightarrow> 0 | Some k \<Rightarrow> k) * 10 + digit_val c
           in if m \<le> u64_max then opt_digit_prefix_loop (Some m) whole cs else Inl NumberTooBig)"

definition opt_digit_prefix :: "string \<Rightarrow> (throttle_parse_error, nat \<times> string) result" where
  "opt_digit_prefix s = opt_digit_prefix_loop None s s"

definition drop_separators :: "string \<Rightarrow> string" where
  "drop_separators s = filter (\<lambda>c. c \<noteq> CHR ''_'' \<and> c \<noteq> CHR '','') s"

definition parse_separated_number :: "string \<Rightarrow> (throttle_parse_error, nat) result" where
  "parse_separated_number s = ok_or (parse_uint u64_max (drop_separators s)) (InvalidLimit s)"

definition period_seconds :: "string \<Rightarrow> nat option" where
  "period_seconds p =
     (if p \<in> {''h'', ''hr'', ''hour''} then Some 3600
      else if p \<in> {''m'', ''min'', ''minute''} then Some 60
      else if p \<in> {''s'', ''sec'', ''second''} then Some 1
      else if p \<in> {''d'', ''day''} then Some 86400
      else None)"

definition strip_local :: "string \<Rightarrow> bool \<times> string" where
  "strip_local s = (case strip_prefix ''local:'' s of Some r \<Rightarrow> (True, r) | None \<Rightarrow> (False, s))"

definition throttle_try_from :: "string \<Rightarrow> (throttle_parse_error, throttle_spec) result" where
  "throttle_try_from s0 =
     (let (force_local, s1) = strip_local s0 in
      rbind (case split_once_str '',max_burst='' s1 of
               Some (s, spec) \<Rightarrow> rbind (parse_separated_number spec) (\<lambda>b. Inr (s, Some b))
             | None \<Rightarrow> Inr (s1, None)) (\<lambda>(s, max_burst).
      rbind (ok_or (split_once CHR ''/'' s) (ExpectedLimitPeriod s)) (\<lambda>(limit, period).
      rbind (opt_digit_prefix period) (\<lambda>(scale, period).
      rbind (ok_or (period_seconds period) (UnknownPeriod period)) (\<lambda>unit.
      rbind (parse_separated_number limit) (\<lambda>limit.
        if limit = 0 then Inl (ZeroLimit s)
        else Inr \<lparr>ts_limit = limit, ts_period = unit * scale mod 2 ^ 64,
                  ts_max_burst = max_burst, ts_force_local = force_local\<rparr>))))))"

record limit_spec =
  ls_limit :: nat
  ls_force_local :: bool

definition limit_spec_new :: "nat \<Rightarrow> limit_spec" where
  "limit_spec_new n = \<lparr>ls_limit = n, ls_force_local = False\<rparr>"

definition limit_to_string :: "limit_spec \<Rightarrow> string" where
  "limit_to_string l = (if ls_force_local l then ''local:'' @ show_nat (ls_limit l) else show_nat (ls_limit l))"

definition limit_try_from :: "string \<Rightarrow> (throttle_parse_error, limit_spec) result" where
  "limit_try_from s0 =
     (let (force_local, s) = strip_local s0 in
      rbind (parse_separated_number s) (\<lambda>limit.
        if limit = 0 then Inl (ZeroLimit s)
        else Inr \<lparr>ls_limit = limit, ls_force_local = force_local\<rparr>))"

text \<open>The values the parsers produce: positive \<^verbatim>\<open>u64\<close> limits, \<^verbatim>\<open>u64\<close> periods and bursts.\<close>

definition throttle_wf :: "throttle_spec \<Rightarrow> bool" where
  "throttle_wf t \<longleftrightarrow> 0 < ts_limit t \<and> ts_limit t \<le> u64_max \<and> ts_period t \<le> u64_max
     \<and> (case ts_max_burst t of None \<Rightarrow> True | Some b \<Rightarrow> b \<le> u64_max)"

definition limit_wf :: "limit_spec \<Rightarrow> bool" where
  "limit_wf l \<longleftrightarrow> 0 < ls_limit l \<and> ls_limit l \<le> u64_max"

section \<open>Helper lemmas\<close>

lemma show_nat_avoids:
  "CHR '','' \<notin> set (show_nat n)" "CHR ''_'' \<notin> set (show_nat n)" "CHR ''/'' \<notin> set (show_nat n)"
  "CHR ''l'' \<notin> set (show_nat n)"
  by (simp_all add: show_nat_no is_ascii_digit_def)

lemma drop_separators_show_nat [simp]: "drop_separators (show_nat n) = show_nat n"
  using show_nat_avoids[of n] by (auto simp: drop_separators_def filter_id_conv)

lemma parse_separated_show_nat [simp]:
  "n \<le> u64_max \<Longrightarrow> parse_separated_number (show_nat n) = Inr n"
  by (simp add: parse_separated_number_def)

lemma parse_separated_bound: "parse_separated_number s = Inr n \<Longrightarrow> n \<le> u64_max"
  unfolding parse_separated_number_def ok_or_Inr_iff by (rule parse_uint_bound)

lemma strip_local_printed [simp]:
  "strip_local ((if b then ''local:'' else []) @ show_nat n @ r) = (b, show_nat n @ r)"
proof -
  obtain x xs where n: "show_nat n = x # xs"
    by (cases "show_nat n") auto
  then have "x \<noteq> CHR ''l''"
    using show_nat_avoids(4)[of n] by auto
  with n show ?thesis
    by (cases b) (auto simp: strip_local_def)
qed

text \<open>Reading the digits of a number that fits gives the number, whatever follows them.\<close>

lemma digits_val_mono: "digits_val a \<le> digits_val (a @ b)"
proof (induction b rule: rev_induct)
  case (snoc x b)
  then show ?case
    using digits_val_snoc[of "a @ b" x] by simp
qed simp

lemma opt_digit_prefix_loop_digits:
  assumes "list_all is_ascii_digit ds" "digits_val (pre @ ds) \<le> u64_max"
    and "\<not> is_ascii_digit c"
    and "n = (if pre = [] then None else Some (digits_val pre))"
  shows "opt_digit_prefix_loop n w (ds @ c # r)
    = Inr (if pre @ ds = [] then 1 else digits_val (pre @ ds), c # r)"
  using assms
proof (induction ds arbitrary: pre n)
  case (Cons d ds)
  have "(case n of None \<Rightarrow> 0 | Some k \<Rightarrow> k) * 10 + digit_val d = digits_val (pre @ [d])"
    using Cons.prems(4) by (simp add: digits_val_snoc) (simp add: digits_val_def)
  moreover have "digits_val (pre @ [d]) \<le> u64_max"
    using digits_val_mono[of "pre @ [d]" ds] Cons.prems(2) by simp
  ultimately show ?case
    using Cons.IH[of "pre @ [d]"] Cons.prems by simp
qed simp

lemma opt_digit_prefix_show_nat:
  "n \<le> u64_max \<Longrightarrow> \<not> is_ascii_digit c \<Longrightarrow> opt_digit_prefix (show_nat n @ c # r) = Inr (n, c # r)"
  using opt_digit_prefix_loop_digits[of "show_nat n" "[]" c None "show_nat n @ c # r" r]
  by (simp add: opt_digit_prefix_def)

lemma opt_digit_prefix_no_digits: "\<not> is_ascii_digit c \<Longrightarrow> opt_digit_prefix (c # r) = Inr (1, c # r)"
  by (simp add: opt_digit_prefix_def)

definition period_text :: "nat \<Rightarrow> string" where
  "period_text p = (if p = 86400 then ''d'' else if p = 3600 then ''h'' else if p = 60 then ''m''
     else if p = 1 then ''s'' else show_nat p @ ''s'')"

lemma as_string_eq:
  "as_string t = (if ts_force_local t then ''local:'' else []) @ show_nat (ts_limit t) @ CHR ''/'' #
     period_text (ts_period t) @
     (case ts_max_burst t of Some b \<Rightarrow> '',max_burst='' @ show_nat b | None \<Rightarrow> [])"
  by (simp add: as_string_def period_text_def split: option.splits)

lemma period_text_parses:
  assumes "p \<le> u64_max"
  obtains scale unit name where "opt_digit_prefix (period_text p) = Inr (scale, name)"
    "period_seconds name = Some unit" "unit * scale mod 2 ^ 64 = p"
proof -
  have nd: "\<not> is_ascii_digit c" if "c \<in> {CHR ''d'', CHR ''h'', CHR ''m'', CHR ''s''}" for c
    using that by (auto simp: is_ascii_digit_def)
  have "\<exists>scale name unit. opt_digit_prefix (period_text p) = Inr (scale, name)
      \<and> period_seconds name = Some unit \<and> unit * scale mod 2 ^ 64 = p"
    using assms
    by (auto simp: period_text_def opt_digit_prefix_no_digits opt_digit_prefix_show_nat nd period_seconds_def)
  then show thesis using that by blast
qed

lemma period_text_no_comma: "CHR '','' \<notin> set (period_text p)"
  using show_nat_avoids by (auto simp: period_text_def)

lemma throttle_print_parse:
  assumes wf: "throttle_wf t"
  shows "throttle_try_from (as_string t) = Inr t"
proof -
  let ?p = "period_text (ts_period t)"
  let ?rest = "show_nat (ts_limit t) @ CHR ''/'' # ?p"
  from wf have "ts_period t \<le> u64_max" by (simp add: throttle_wf_def)
  then obtain scale unit name where p: "opt_digit_prefix ?p = Inr (scale, name)"
      "period_seconds name = Some unit" "unit * scale mod 2 ^ 64 = ts_period t"
    by (rule period_text_parses)
  have nc: "CHR '','' \<notin> set ?rest"
    using show_nat_avoids period_text_no_comma by simp
  have sl: "split_once CHR ''/'' ?rest = Some (show_nat (ts_limit t), ?p)"
    using show_nat_avoids(3) by (rule split_once_append)
  have burst: "split_once_str '',max_burst='' (?rest @ '',max_burst='' @ show_nat b)
      = Some (?rest, show_nat b)" for b
    using split_once_str_append[OF nc, of "''max_burst=''" "show_nat b"] by simp
  have noburst: "split_once_str '',max_burst='' ?rest = None"
    using split_once_str_None[OF nc] .
  show ?thesis
    using wf p sl burst noburst unfolding throttle_try_from_def as_string_eq throttle_wf_def
    by (cases "ts_max_burst t") (simp_all add: Let_def)
qed

lemma throttle_parse_wf:
  assumes "throttle_try_from s = Inr t"
  shows "throttle_wf t"
proof -
  obtain fl r where sl: "strip_local s = (fl, r)"
    by (cases "strip_local s") auto
  then show ?thesis
    using assms parse_separated_bound
    by (auto simp: throttle_try_from_def throttle_wf_def rbind_Inr_iff Let_def
        split: prod.splits option.splits if_splits)
qed

lemma limit_print_parse: "limit_wf l \<Longrightarrow> limit_try_from (limit_to_string l) = Inr l"
  using strip_local_printed[of "ls_force_local l" "ls_limit l" "[]"]
  by (auto simp: limit_try_from_def limit_to_string_def limit_wf_def split: if_splits)

interpretation throttle_codec: codec as_string throttle_try_from Inr throttle_wf
  by unfold_locales (simp_all add: throttle_print_parse)

interpretation limit_codec: codec limit_to_string limit_try_from Inr limit_wf
  by unfold_locales (simp_all add: limit_print_parse)

lemmas throttle_eval = throttle_try_from_def strip_local_def parse_separated_number_def
  drop_separators_def opt_digit_prefix_def period_seconds_def parse_uint_def parse_digits_def
  digits_val_def digit_val_def is_ascii_digit_def

section \<open>Properties\<close>

text \<open>C15. Every throttle specification with a positive limit and \<^verbatim>\<open>u64\<close> fields is read back by
  \<^verbatim>\<open>TryFrom<&str>\<close> from what \<^verbatim>\<open>as_string\<close> prints, and no two of them print alike, so the printed form
  is a faithful serialization.\<close>

theorem throttle_round_trip:
  assumes "throttle_wf t"
  shows "throttle_try_from (as_string t) = Inr t \<and> (throttle_wf u \<longrightarrow> (as_string u = as_string t \<longleftrightarrow> u = t))"
  using assms throttle_codec.print_iff[of u t] throttle_codec.round_trip[OF assms] by blast

theorem throttle_round_trip_witness:
  "throttle_try_from (as_string \<lparr>ts_limit = 1000, ts_period = 600, ts_max_burst = Some 5, ts_force_local = True\<rparr>)
     = Inr \<lparr>ts_limit = 1000, ts_period = 600, ts_max_burst = Some 5, ts_force_local = True\<rparr>"
  using throttle_round_trip[of "\<lparr>ts_limit = 1000, ts_period = 600, ts_max_burst = Some 5, ts_force_local = True\<rparr>"]
  by (simp add: throttle_wf_def)

text \<open>Whatever text the parser accepts denotes a specification with a positive limit and
  \<^verbatim>\<open>u64\<close> fields, and printing it gives a text with the same meaning.\<close>

theorem throttle_parse_sound:
  assumes "throttle_try_from s = Inr t"
  shows "throttle_wf t \<and> throttle_try_from (as_string t) = Inr t"
  using throttle_parse_wf[OF assms] throttle_print_parse by blast

theorem throttle_parse_sound_witness:
  "throttle_wf \<lparr>ts_limit = 1000, ts_period = 86400, ts_max_burst = None, ts_force_local = False\<rparr>"
proof -
  have "throttle_try_from ''1,000/day''
      = Inr \<lparr>ts_limit = 1000, ts_period = 86400, ts_max_burst = None, ts_force_local = False\<rparr>"
    by (simp add: throttle_eval)
  from throttle_parse_sound[OF this] show ?thesis by simp
qed

text \<open>The period's multiplier is checked against overflow while its digits are read, but its
  product with the unit is not: in the release build a multiplier of 213503982334602 days wraps
  around to a period of 61184 seconds.\<close>

theorem throttle_period_wraps:
  "throttle_try_from ''1/213503982334602d''
     = Inr \<lparr>ts_limit = 1, ts_period = 61184, ts_max_burst = None, ts_force_local = False\<rparr>"
  by (simp add: throttle_eval)

end
