(* ===== verification/Gcra.thy ===== *)
theory Gcra
  imports Complex_Main Throttle_Spec
begin

text \<open>
  Rate limiting, \<^verbatim>\<open>crates/throttle/src/throttle.rs\<close> and \<^verbatim>\<open>ThrottleSpec::throttle_quantity\<close>: the
  generic cell rate algorithm as the redis script \<^verbatim>\<open>GCRA_SCRIPT\<close> has it, the three backends behind
  \<^verbatim>\<open>throttle\<close>, and the key under which a specification's state is kept.

  Lua's numbers are doubles; the model computes with exact rationals, so it speaks of the algorithm
  and not of rounding.  The redis server's clock is in milliseconds: \<^verbatim>\<open>TIME\<close> gives its whole seconds,
  and a key set with \<^verbatim>\<open>EX n\<close> is gone \<open>1000 * n\<close> milliseconds later.  The script divides by the
  limit and by the interval, so it is meant for positive limits and periods.  The
  \<^verbatim>\<open>redis_cell_impl\<close> crate and the redis-cell module are arguments.
\<close>

section \<open>The GCRA script\<close>

type_synonym gcra_entry = "(rat \<times> nat) option"

definition gcra_get :: "nat \<Rightarrow> gcra_entry \<Rightarrow> rat option" where
  "gcra_get clock e = (case e of Some (tat, expires) \<Rightarrow> if clock < expires then Some tat else None | None \<Rightarrow> None)"

definition now_secs :: "nat \<Rightarrow> rat" where
  "now_secs clock = of_nat (clock div 1000)"

record gcra_reply =
  gr_throttled :: bool
  gr_remaining :: int
  gr_reset_after :: int
  gr_retry_after :: int

text \<open>The theoretical arrival time the script starts from: \<^verbatim>\<open>math.max(tat, now)\<close>.\<close>

definition gcra_tat :: "nat \<Rightarrow> gcra_entry \<Rightarrow> rat" where
  "gcra_tat clock e = max (case gcra_get clock e of None \<Rightarrow> now_secs clock | Some t \<Rightarrow> t) (now_secs clock)"

text \<open>\<open>Inl\<close> is the error redis raises for an expiry that is not positive.\<close>

definition gcra_script ::
  "nat \<Rightarrow> nat \<Rightarrow> nat \<Rightarrow> nat \<Rightarrow> nat \<Rightarrow> gcra_entry \<Rightarrow> (string, gcra_reply \<times> gcra_entry) result" where
  "gcra_script limit period max_burst quantity clock e =
     (let interval = of_nat period / of_nat limit :: rat;
          increment = interval * of_nat quantity;
          burst_offset = interval * of_nat max_burst;
          now = now_secs clock;
          tat = gcra_tat clock e;
          new_tat = tat + increment;
          allow_at = new_tat - burst_offset;
          diff = now - allow_at;
          remaining = floor (diff / interval)
      in if remaining < 0 then
           Inr (\<lparr>gr_throttled = True, gr_remaining = floor ((now - (tat - burst_offset)) / interval),
                 gr_reset_after = ceiling (tat - now), gr_retry_after = ceiling (diff * - 1)\<rparr>, e)
         else if remaining = 0 \<and> increment \<le> 0 then
           Inr (\<lparr>gr_throttled = True, gr_remaining = 0,
                 gr_reset_after = ceiling (tat - now), gr_retry_after = 0\<rparr>, e)
         else let reset_after = ceiling (new_tat - now)
           in if reset_after \<le> 0 then Inl ''ERR invalid expire time in SET''
              else Inr (\<lparr>gr_throttled = False, gr_remaining = remaining,
                         gr_reset_after = reset_after, gr_retry_after = 0\<rparr>,
                        Some (new_tat, clock + 1000 * nat reset_after)))"

section \<open>The backends\<close>

record throttle_result =
  tr_throttled :: bool
  tr_limit :: nat
  tr_remaining :: nat
  tr_reset_after :: nat
  tr_retry_after :: "nat option"

definition as_u64 :: "int \<Rightarrow> nat" where
  "as_u64 n = nat (n mod 2 ^ 64)"

definition redis_script_throttle ::
  "nat \<Rightarrow> nat \<Rightarrow> nat \<Rightarrow> nat option \<Rightarrow> nat \<Rightarrow> gcra_entry \<Rightarrow> (string, throttle_result) result \<times> gcra_entry" where
  "redis_script_throttle limit period max_burst quantity clock e =
     (case gcra_script limit period max_burst (case quantity of None \<Rightarrow> 1 | Some q \<Rightarrow> q) clock e of
        Inl err \<Rightarrow> (Inl err, e)
      | Inr (r, e') \<Rightarrow>
          (if gr_remaining r < 0 \<or> gr_reset_after r < 0 \<or> gr_retry_after r < 0
           then Inl ''response was of incompatible type''
           else Inr \<lparr>tr_throttled = gr_throttled r, tr_limit = (max_burst + 1) mod 2 ^ 64,
                     tr_remaining = nat (gr_remaining r), tr_reset_after = nat (gr_reset_after r),
                     tr_retry_after = (if gr_retry_after r = 0 then None else Some (nat (gr_retry_after r)))\<rparr>, e'))"

text \<open>\<^verbatim>\<open>CL.THROTTLE key max_burst limit period quantity\<close> answers with five integers.\<close>

definition redis_cell_throttle ::
  "(string \<Rightarrow> nat \<Rightarrow> nat \<Rightarrow> nat \<Rightarrow> nat \<Rightarrow> (string, int \<times> int \<times> int \<times> int \<times> int) result) \<Rightarrow>
     string \<Rightarrow> nat \<Rightarrow> nat \<Rightarrow> nat \<Rightarrow> nat option \<Rightarrow> (string, throttle_result) result" where
  "redis_cell_throttle cl_throttle key limit period max_burst quantity =
     rbind (cl_throttle key max_burst limit period (case quantity of None \<Rightarrow> 1 | Some q \<Rightarrow> q))
       (\<lambda>(r0, r1, r2, r3, r4).
         Inr \<lparr>tr_throttled = (r0 \<noteq> 0), tr_limit = as_u64 r1, tr_remaining = as_u64 r2,
              tr_reset_after = nat (max r4 0),
              tr_retry_after = (if r3 \<le> 0 then None else Some (nat r3))\<rparr>)"

text \<open>The in-process limiter gets the rate, the burst and the quantity; it answers whether the
  action is throttled, the limit, what remains, and \<^verbatim>\<open>retry_after\<close> and \<^verbatim>\<open>reset_after\<close> in nanoseconds.\<close>

definition bump_secs :: "int \<Rightarrow> int" where
  "bump_secs ns =
     (if ns < 0 then - ((- ns) div 1000000000)
      else if ns mod 1000000000 div 1000000 > 0 then ns div 1000000000 + 1
      else ns div 1000000000)"

definition as_i64 :: "nat \<Rightarrow> int" where
  "as_i64 n = (if n mod 2 ^ 64 < 2 ^ 63 then int (n mod 2 ^ 64) else int (n mod 2 ^ 64) - 2 ^ 64)"

definition local_throttle ::
  "(string \<Rightarrow> int \<Rightarrow> nat \<Rightarrow> int \<Rightarrow> int \<Rightarrow> (string, bool \<times> int \<times> int \<times> int \<times> int) result) \<Rightarrow>
     string \<Rightarrow> nat \<Rightarrow> nat \<Rightarrow> nat \<Rightarrow> nat option \<Rightarrow> (string, throttle_result) result" where
  "local_throttle rate_limit key limit period max_burst quantity =
     rbind (rate_limit key (as_i64 limit) period
              (as_i64 (min max_burst (if limit = 0 then u64_max else limit - 1)))
              (as_i64 (case quantity of None \<Rightarrow> 1 | Some q \<Rightarrow> q)))
       (\<lambda>(throttled, lim, remaining, retry_ns, reset_ns).
         let retry_after = bump_secs retry_ns; reset_after = bump_secs reset_ns
         in Inr \<lparr>tr_throttled = throttled, tr_limit = as_u64 lim, tr_remaining = as_u64 remaining,
                 tr_reset_after = nat (max reset_after 0),
                 tr_retry_after = (if retry_after \<le> 0 then None else Some (nat (max retry_after 0)))\<rparr>)"

text \<open>\<^verbatim>\<open>REDIS.get()\<close>: whether redis is configured, and whether it has the redis-cell module.  The
  script's keys are a map of entries; the other two backends keep their own state.\<close>

definition throttle ::
  "(string \<Rightarrow> nat \<Rightarrow> nat \<Rightarrow> nat \<Rightarrow> nat \<Rightarrow> (string, int \<times> int \<times> int \<times> int \<times> int) result) \<Rightarrow>
   (string \<Rightarrow> int \<Rightarrow> nat \<Rightarrow> int \<Rightarrow> int \<Rightarrow> (string, bool \<times> int \<times> int \<times> int \<times> int) result) \<Rightarrow>
   bool option \<Rightarrow> nat \<Rightarrow> string \<Rightarrow> nat \<Rightarrow> nat \<Rightarrow> nat \<Rightarrow> nat option \<Rightarrow> bool \<Rightarrow>
   (string \<Rightarrow> gcra_entry) \<Rightarrow> (string, throttle_result) result \<times> (string \<Rightarrow> gcra_entry)" where
  "throttle cl_throttle rate_limit redis clock key limit period max_burst quantity force_local st =
     (case (force_local, redis) of
        (False, Some has_redis_cell) \<Rightarrow>
          (if has_redis_cell then (redis_cell_throttle cl_throttle key limit period max_burst quantity, st)
           else case redis_script_throttle limit period max_burst quantity clock (st key) of
             (r, e) \<Rightarrow> (r, st(key := e)))
      | _ \<Rightarrow> (local_throttle rate_limit key limit period max_burst quantity, st))"

definition throttle_key :: "string \<Rightarrow> nat \<Rightarrow> nat \<Rightarrow> nat \<Rightarrow> string" where
  "throttle_key key limit max_burst period =
     key @ '':'' @ show_nat limit @ '':'' @ show_nat max_burst @ '':'' @ show_nat period"

definition throttle_quantity ::
  "(string \<Rightarrow> nat \<Rightarrow> nat \<Rightarrow> nat \<Rightarrow> nat \<Rightarrow> (string, int \<times> int \<times> int \<times> int \<times> int) result) \<Rightarrow>
   (string \<Rightarrow> int \<Rightarrow> nat \<Rightarrow> int \<Rightarrow> int \<Rightarrow> (string, bool \<times> int \<times> int \<times> int \<times> int) result) \<Rightarrow>
   bool option \<Rightarrow> nat \<Rightarrow> throttle_spec \<Rightarrow> string \<Rightarrow> nat \<Rightarrow>
   (string \<Rightarrow> gcra_entry) \<Rightarrow> (string, throttle_result) result \<times> (string \<Rightarrow> gcra_entry)" where
  "throttle_quantity cl_throttle rate_limit redis clock t key quantity st =
     throttle cl_throttle rate_limit redis clock
       (throttle_key key (ts_limit t) (burst t) (ts_period t))
       (ts_limit t) (ts_period t) (burst t) (Some quantity) (ts_force_local t) st"

section \<open>A run of the script on one key\<close>

text \<open>Requests on one key, each with the server's clock and a quantity: the quantity granted in
  all, and the entry left.\<close>

fun gcra_run :: "nat \<Rightarrow> nat \<Rightarrow> nat \<Rightarrow> (nat \<times> nat) list \<Rightarrow> gcra_entry \<Rightarrow> nat \<times> gcra_entry" where
  "gcra_run limit period mb [] e = (0, e)"
| "gcra_run limit period mb ((clock, q) # rs) e =
     (case gcra_script limit period mb q clock e of
        Inl _ \<Rightarrow> gcra_run limit period mb rs e
      | Inr (r, e') \<Rightarrow>
          let (n, e'') = gcra_run limit period mb rs e'
          in (if gr_throttled r then n else q + n, e''))"

text \<open>A stored arrival time is never later than the second in which its key expires.\<close>

definition entry_ok :: "gcra_entry \<Rightarrow> bool" where
  "entry_ok e = (case e of None \<Rightarrow> True | Some (tat, expires) \<Rightarrow> tat \<le> now_secs expires)"

section \<open>Helper lemmas\<close>

lemma now_secs_mono: "c \<le> c' \<Longrightarrow> now_secs c \<le> now_secs c'"
  by (simp add: now_secs_def div_le_mono)

lemma now_secs_add: "now_secs (c + 1000 * n) = now_secs c + of_nat n"
  by (simp add: now_secs_def div_add1_eq)

lemma gcra_tat_ge_now: "now_secs c \<le> gcra_tat c e"
  by (simp add: gcra_tat_def)

lemma gcra_tat_mono:
  assumes "entry_ok e" "c \<le> c'"
  shows "gcra_tat c e \<le> gcra_tat c' e"
proof (cases e)
  case (Some p)
  obtain tat ex where p: "p = (tat, ex)" by (cases p)
  have "tat \<le> now_secs ex" using assms(1) Some p by (simp add: entry_ok_def)
  moreover have "\<not> c' < ex \<Longrightarrow> now_secs ex \<le> now_secs c'" by (simp add: now_secs_mono)
  ultimately show ?thesis
    using Some p now_secs_mono[OF assms(2)] assms(2)
    by (auto simp: gcra_tat_def gcra_get_def)
qed (use now_secs_mono[OF assms(2)] in \<open>simp add: gcra_tat_def gcra_get_def\<close>)

text \<open>What a step does to the arrival time.\<close>

lemma gcra_script_throttled:
  assumes "gcra_script limit period mb q c e = Inr (r, e')" "gr_throttled r"
  shows "e' = e"
  using assms by (auto simp: gcra_script_def Let_def split: if_splits)

lemma floor_div_nonneg: "0 < i \<Longrightarrow> 0 \<le> floor (d / i :: rat) \<longleftrightarrow> 0 \<le> d"
  by (simp add: zero_le_divide_iff)

lemma gcra_script_granted:
  assumes pos: "0 < limit" "0 < period"
    and step: "gcra_script limit period mb q c e = Inr (r, e')" "\<not> gr_throttled r"
  shows "entry_ok e'"
    and "gcra_tat c e' = gcra_tat c e + of_nat period / of_nat limit * of_nat q"
    and "gcra_tat c e' \<le> now_secs c + of_nat period / of_nat limit * of_nat mb"
proof -
  let ?i = "of_nat period / of_nat limit :: rat"
  let ?new = "gcra_tat c e + ?i * of_nat q"
  let ?reset = "ceiling (?new - now_secs c)"
  have i: "0 < ?i" using pos by simp
  have e': "e' = Some (?new, c + 1000 * nat ?reset)" and reset: "0 < ?reset"
    and rem: "0 \<le> floor ((now_secs c - (?new - ?i * of_nat mb)) / ?i)"
    using step by (auto simp: gcra_script_def Let_def not_le not_less split: if_splits)
  have "?new - now_secs c \<le> of_int ?reset" by (rule le_of_int_ceiling)
  also have "\<dots> = of_nat (nat ?reset)" using reset by simp
  finally have exp: "?new \<le> now_secs c + of_nat (nat ?reset)" by simp
  then show "entry_ok e'" by (simp add: e' entry_ok_def now_secs_add)
  have "now_secs c \<le> ?new"
    using gcra_tat_ge_now[of c e] i by (simp add: add_increasing2)
  then show tat: "gcra_tat c e' = ?new"
    using reset by (simp add: e' gcra_tat_def gcra_get_def)
  have "0 \<le> now_secs c - (?new - ?i * of_nat mb)"
    using rem floor_div_nonneg[OF i] by blast
  then show "gcra_tat c e' \<le> now_secs c + ?i * of_nat mb" using tat by simp
qed

lemma gcra_run_bound:
  fixes limit period mb :: nat
  defines "i \<equiv> of_nat period / of_nat limit :: rat"
  assumes pos: "0 < limit" "0 < period"
  shows "entry_ok e \<Longrightarrow> sorted (c0 # map fst rs) \<Longrightarrow>
    of_nat (fst (gcra_run limit period mb rs e)) * i
      \<le> max 0 (now_secs (last (c0 # map fst rs)) + i * of_nat mb - gcra_tat c0 e)"
proof (induction rs arbitrary: c0 e)
  case (Cons cq rs)
  obtain c q where cq: "cq = (c, q)" by (cases cq)
  let ?bo = "i * of_nat mb" and ?fin = "now_secs (last (c # map fst rs))"
  have c0: "gcra_tat c0 e \<le> gcra_tat c e" and sorted: "sorted (c # map fst rs)"
    using Cons.prems gcra_tat_mono[of e c0 c] cq by auto
  have i: "0 \<le> i" using i_def by simp
  have le: "now_secs c \<le> ?fin"
    using sorted last_in_set[of "c # map fst rs"] by (intro now_secs_mono) auto
  have skip: "of_nat (fst (gcra_run limit period mb rs e)) * i \<le> max 0 (?fin + ?bo - gcra_tat c0 e)"
    using Cons.IH[OF Cons.prems(1) sorted] c0 by linarith
  show ?case
  proof (cases "gcra_script limit period mb q c e")
    case (Inl err)
    then show ?thesis using skip cq by simp
  next
    case (Inr re)
    obtain r e' where re: "re = (r, e')" by (cases re)
    note step = Inr[unfolded re]
    show ?thesis
    proof (cases "gr_throttled r")
      case True
      then show ?thesis
        using skip cq step gcra_script_throttled[OF step True] by (simp add: case_prod_beta Let_def)
    next
      case False
      note g = gcra_script_granted[OF pos step False, folded i_def]
      have "of_nat (fst (gcra_run limit period mb rs e')) * i \<le> ?fin + ?bo - gcra_tat c e'"
        using Cons.IH[OF g(1) sorted] g(3) le by linarith
      then have "of_nat (q + fst (gcra_run limit period mb rs e')) * i \<le> ?fin + ?bo - gcra_tat c e"
        using g(2) by (simp add: algebra_simps)
      then show ?thesis
        using cq step False c0 by (simp add: case_prod_beta Let_def)
    qed
  qed
qed simp

text \<open>A request the script throttled because nothing remained is granted once \<^verbatim>\<open>retry_after\<close> seconds
  have passed.\<close>

lemma gcra_grant_intro:
  assumes pos: "0 < limit" "0 < period" "0 < q"
    and fits: "gcra_tat c e + of_nat period / of_nat limit * of_nat q
      \<le> now_secs c + of_nat period / of_nat limit * of_nat mb"
  shows "\<exists>r e'. gcra_script limit period mb q c e = Inr (r, e') \<and> \<not> gr_throttled r"
proof -
  let ?i = "of_nat period / of_nat limit :: rat"
  have i: "0 < ?i" using pos by simp
  have "0 < ?i * of_nat q" using i pos(3) by (intro mult_pos_pos) simp_all
  moreover have "0 < ceiling (gcra_tat c e + ?i * of_nat q - now_secs c)"
    using gcra_tat_ge_now[of c e] calculation by linarith
  moreover have "0 \<le> floor ((now_secs c - (gcra_tat c e + ?i * of_nat q - ?i * of_nat mb)) / ?i)"
    using fits floor_div_nonneg[OF i] by simp
  ultimately show ?thesis
    by (simp add: gcra_script_def Let_def not_less not_le)
qed

lemma gcra_tat_later:
  assumes "entry_ok e" "c \<le> c'"
  shows "gcra_tat c' e \<le> max (gcra_tat c e) (now_secs c')"
  using assms now_secs_mono[OF assms(2)] by (cases e) (auto simp: gcra_tat_def gcra_get_def)

lemma gcra_throttled_diff:
  assumes pos: "0 < limit" "0 < period" "0 < q"
    and step: "gcra_script limit period mb q c e = Inr (r, e')" "gr_throttled r"
  shows "gr_retry_after r = ceiling (gcra_tat c e + of_nat period / of_nat limit * of_nat q
      - of_nat period / of_nat limit * of_nat mb - now_secs c)" "0 < gr_retry_after r"
proof -
  define i where "i = (of_nat period / of_nat limit :: rat)"
  define inc where "inc = i * of_nat q"
  define d where "d = now_secs c - (gcra_tat c e + inc - i * of_nat mb)"
  have i: "0 < i" "0 < inc" using pos by (simp_all add: i_def inc_def)
  have "gr_retry_after r = ceiling (d * - 1) \<and> floor (d / i) < 0"
    using step[unfolded gcra_script_def Let_def, folded i_def, folded inc_def, folded d_def] i
    by (simp del: floor_less_zero split: if_splits) auto
  moreover from this have "d < 0"
    using floor_div_nonneg[OF i(1), of d] by linarith
  moreover have "d * - 1 = gcra_tat c e + i * of_nat q - i * of_nat mb - now_secs c"
    by (simp add: d_def inc_def)
  ultimately show "gr_retry_after r = ceiling (gcra_tat c e + of_nat period / of_nat limit * of_nat q
      - of_nat period / of_nat limit * of_nat mb - now_secs c)" "0 < gr_retry_after r"
    unfolding i_def[symmetric] by simp_all
qed

lemma append_colon_inj:
  "a @ '':'' @ show_nat m = b @ '':'' @ show_nat n \<longleftrightarrow> a = b \<and> m = n"
proof
  assume eq: "a @ '':'' @ show_nat m = b @ '':'' @ show_nat n"
  have "rsplit_once CHR '':'' (x @ '':'' @ show_nat k) = Some (x, show_nat k)" for x k
    by (simp add: rsplit_once_Some_iff show_nat_no is_ascii_digit_def)
  from this[of a m] this[of b n] have "Some (a, show_nat m) = Some (b, show_nat n)"
    unfolding eq by (rule trans[OF sym])
  then show "a = b \<and> m = n"
    by (simp add: show_nat_inj)
qed simp

text \<open>The arrival time stays within the burst of the clock, which keeps \<^verbatim>\<open>remaining\<close> from being
  negative.\<close>

definition gcra_inv :: "nat \<Rightarrow> nat \<Rightarrow> nat \<Rightarrow> nat \<Rightarrow> gcra_entry \<Rightarrow> bool" where
  "gcra_inv limit period mb clock e \<longleftrightarrow>
     entry_ok e \<and> gcra_tat clock e \<le> now_secs clock + of_nat period / of_nat limit * of_nat mb"

lemma gcra_inv_later:
  assumes "gcra_inv limit period mb c e" "c \<le> c'"
  shows "gcra_inv limit period mb c' e"
proof -
  have "0 \<le> (of_nat period / of_nat limit * of_nat mb :: rat)" by simp
  then show ?thesis
    using assms gcra_tat_later[of e c c'] now_secs_mono[OF assms(2)] unfolding gcra_inv_def by linarith
qed

lemma gcra_inv_step:
  assumes "0 < limit" "0 < period" "gcra_inv limit period mb c e"
    and "gcra_script limit period mb q c e = Inr (r, e')"
  shows "gcra_inv limit period mb c e'"
proof (cases "gr_throttled r")
  case True
  then show ?thesis using gcra_script_throttled assms by blast
next
  case False
  then show ?thesis using gcra_script_granted[OF assms(1,2,4)] by (simp add: gcra_inv_def)
qed

lemma gcra_reply_nonneg:
  assumes pos: "0 < limit" "0 < period" "0 < q"
    and inv: "gcra_inv limit period mb c e"
    and step: "gcra_script limit period mb q c e = Inr (r, e')"
  shows "0 \<le> gr_remaining r \<and> 0 \<le> gr_reset_after r \<and> 0 \<le> gr_retry_after r"
proof -
  define i where "i = (of_nat period / of_nat limit :: rat)"
  define bo where "bo = i * of_nat mb"
  define d where "d = now_secs c - (gcra_tat c e + i * of_nat q - bo)"
  have i: "0 < i" using pos by (simp add: i_def)
  have "gcra_tat c e \<le> now_secs c + bo" using inv by (simp add: gcra_inv_def i_def bo_def)
  then have rem: "0 \<le> floor ((now_secs c - (gcra_tat c e - bo)) / i)"
    using floor_div_nonneg[OF i] by simp
  have "0 \<le> gcra_tat c e - now_secs c" using gcra_tat_ge_now by simp
  then have reset: "0 \<le> ceiling (gcra_tat c e - now_secs c)" by linarith
  show ?thesis
  proof (cases "gr_throttled r")
    case True
    then show ?thesis
      using gcra_throttled_diff(2)[OF pos step True] rem reset
        step[unfolded gcra_script_def Let_def, folded i_def, folded bo_def, folded d_def]
      by (auto split: if_splits)
  next
    case False
    then show ?thesis
      using step[unfolded gcra_script_def Let_def, folded i_def, folded bo_def, folded d_def]
      by (auto split: if_splits)
  qed
qed

lemma gcra_script_ok:
  assumes pos: "0 < limit" "0 < period" "0 < q"
  shows "is_ok (gcra_script limit period mb q c e)"
proof -
  define i where "i = (of_nat period / of_nat limit :: rat)"
  define inc where "inc = i * of_nat q"
  have "0 < inc" using pos by (simp add: i_def inc_def)
  then have "0 < ceiling (gcra_tat c e + inc - now_secs c)"
    using gcra_tat_ge_now[of c e] by linarith
  then show ?thesis
    unfolding gcra_script_def Let_def i_def[symmetric] inc_def[symmetric] by (simp add: not_le)
qed

section \<open>Properties\<close>

text \<open>C1. The rate the script enforces: over any sequence of requests on a key, in clock order and
  from any consistent stored state, the quantity granted is at most the burst plus what the rate
  \<^verbatim>\<open>limit / period\<close> allows for the seconds between the first and the last request.\<close>

theorem gcra_rate_limit:
  assumes "0 < limit" "0 < period" "entry_ok e" "rs \<noteq> []" "sorted (map fst rs)"
  shows "of_nat (fst (gcra_run limit period max_burst rs e))
    \<le> of_nat max_burst + (now_secs (fst (last rs)) - now_secs (fst (hd rs))) * of_nat limit / of_nat period"
proof -
  let ?i = "of_nat period / of_nat limit :: rat"
  let ?T = "now_secs (fst (last rs)) - now_secs (fst (hd rs))"
  have i: "0 < ?i" using assms by simp
  obtain c q rs' where rs: "rs = (c, q) # rs'" using assms(4) by (cases rs) auto
  have "sorted (c # map fst rs)" using assms(5) rs by simp
  moreover have "last (c # map fst rs) = fst (last rs)"
    using assms(4) by (simp add: last_map)
  ultimately have "of_nat (fst (gcra_run limit period max_burst rs e)) * ?i
      \<le> max 0 (now_secs (fst (last rs)) + ?i * of_nat max_burst - gcra_tat c e)"
    using gcra_run_bound[OF assms(1,2,3), of c rs max_burst] by simp
  moreover have "now_secs c \<le> gcra_tat c e" by (rule gcra_tat_ge_now)
  moreover have "0 \<le> ?T"
    using assms(5) rs last_in_set[of rs] by (auto intro!: now_secs_mono)
  moreover have "0 \<le> ?i * of_nat max_burst" using i by simp
  moreover have "now_secs (fst (hd rs)) = now_secs c" using rs by simp
  ultimately have "of_nat (fst (gcra_run limit period max_burst rs e)) * ?i \<le> ?i * of_nat max_burst + ?T"
    by linarith
  also have "\<dots> = (of_nat max_burst + ?T * of_nat limit / of_nat period) * ?i"
    using assms(1,2) by (simp add: field_simps)
  finally show ?thesis using i by (simp only: mult_le_cancel_right_pos)
qed

theorem gcra_rate_limit_witness:
  "fst (gcra_run 1 1 2 [(5000, 1), (5100, 1), (5200, 1)] None) \<le> 2"
  using gcra_rate_limit[of 1 1 None "[(5000, 1), (5100, 1), (5200, 1)]" 2]
  by (simp add: entry_ok_def now_secs_def)

text \<open>C11. \<^verbatim>\<open>retry_after\<close> is honest: a request of a quantity within the burst that the script
  throttles gets a positive \<^verbatim>\<open>retry_after\<close>, and is granted when repeated that many seconds later
  with no request in between.\<close>

theorem gcra_retry_after_sufficient:
  assumes "0 < limit" "0 < period" "0 < q" "q \<le> max_burst" "entry_ok e"
    and "gcra_script limit period max_burst q c e = Inr (r, e')" "gr_throttled r"
  shows "0 < gr_retry_after r \<and>
    (\<exists>r' e''. gcra_script limit period max_burst q (c + 1000 * nat (gr_retry_after r)) e' = Inr (r', e'')
      \<and> \<not> gr_throttled r')"
proof -
  let ?i = "of_nat period / of_nat limit :: rat" and ?c = "c + 1000 * nat (gr_retry_after r)"
  note d = gcra_throttled_diff[OF assms(1,2,3,6,7)]
  have "gcra_tat c e + ?i * of_nat q - ?i * of_nat max_burst - now_secs c \<le> of_int (gr_retry_after r)"
    unfolding d(1) by (rule le_of_int_ceiling)
  then have "gcra_tat c e + ?i * of_nat q \<le> now_secs ?c + ?i * of_nat max_burst"
    using d(2) by (simp add: now_secs_add)
  moreover have "?i * of_nat q \<le> ?i * of_nat max_burst"
    using assms(4) by (intro mult_left_mono) simp_all
  moreover have "gcra_tat ?c e \<le> max (gcra_tat c e) (now_secs ?c)"
    by (rule gcra_tat_later[OF assms(5)]) simp
  ultimately have "gcra_tat ?c e + ?i * of_nat q \<le> now_secs ?c + ?i * of_nat max_burst"
    by linarith
  then show ?thesis
    using gcra_grant_intro[OF assms(1,2,3), of ?c e max_burst] d(2)
      gcra_script_throttled[OF assms(6,7)] by simp
qed

theorem gcra_retry_after_sufficient_witness:
  "\<exists>r' e''. gcra_script 1 1 1 1 6000 (Some (6, 6000)) = Inr (r', e'') \<and> \<not> gr_throttled r'"
proof -
  let ?r = "\<lparr>gr_throttled = True, gr_remaining = 0, gr_reset_after = 1, gr_retry_after = 1\<rparr>"
  have "gcra_script 1 1 1 1 5000 (Some (6, 6000)) = Inr (?r, Some (6, 6000))"
    by (simp add: gcra_script_def Let_def gcra_tat_def gcra_get_def now_secs_def)
  from gcra_retry_after_sufficient[OF _ _ _ _ _ this] show ?thesis
    by (simp add: entry_ok_def now_secs_def)
qed



text \<open>The key under which \<^verbatim>\<open>throttle_quantity\<close> keeps its state determines the caller's key and the
  limit, burst and period: two specifications that differ never share state.\<close>

theorem throttle_key_separates:
  "throttle_key k l b p = throttle_key k' l' b' p' \<longleftrightarrow> k = k' \<and> l = l' \<and> b = b' \<and> p = p'"
  unfolding throttle_key_def
  using append_colon_inj[of "k @ '':'' @ show_nat l @ '':'' @ show_nat b" p "k' @ '':'' @ show_nat l' @ '':'' @ show_nat b'" p']
    append_colon_inj[of "k @ '':'' @ show_nat l" b "k' @ '':'' @ show_nat l'" b']
    append_colon_inj[of k l k' l']
  by (metis append.assoc)

end
