(* ===== verification/Lease_Limit.thy ===== *)
theory Lease_Limit
  imports Complex_Main Throttle_Spec "HOL-Library.AList"
begin

text \<open>
  Concurrency limits as leases, \<^verbatim>\<open>crates/throttle/src/limit.rs\<close> and \<^verbatim>\<open>limit.lua\<close>: at most
  \<^verbatim>\<open>limit\<close> holders of a named resource at a time, each for a bounded duration unless it extends its
  lease.  The two backends are the in-memory \<^verbatim>\<open>LeaseSet\<close>, a map from lease ids to expiry instants
  under a mutex, and a sorted set in redis that \<^verbatim>\<open>limit.lua\<close> changes atomically.  Both implement the
  interface \<open>lease_pool\<close> below.  Each operation that runs under one lock acquisition is one definition,
  so an interleaving of tasks is a list of them.

  Instants are natural numbers for the memory backend (a monotone clock) and rationals for redis,
  where the script rounds them to whole seconds.
\<close>

section \<open>The in-memory lease set\<close>

type_synonym uuid = nat

type_synonym lease_set = "(uuid \<times> nat) list"

definition lease_set_new :: lease_set where
  "lease_set_new = []"

definition retain_live :: "nat \<Rightarrow> lease_set \<Rightarrow> lease_set" where
  "retain_live now m = filter (\<lambda>(_, expiry). now < expiry) m"

definition acquire_immediate :: "nat \<Rightarrow> nat \<Rightarrow> nat \<Rightarrow> uuid \<Rightarrow> lease_set \<Rightarrow> bool \<times> lease_set" where
  "acquire_immediate limit duration now uuid m =
     (let live = retain_live now m
      in if length live + 1 \<le> limit then (True, AList.update uuid (now + duration) live)
         else (False, live))"

datatype lease_error =
    TooManyLeases nat
  | NonExistentLease
  | LeasePanic string
  | LeaseBackendError string

text \<open>The error path of \<^verbatim>\<open>acquire\<close> after its deadline: a second look at the map, under a lock of its
  own, for the earliest expiry; \<^verbatim>\<open>expect\<close> panics on an empty map.  The difference of instants
  saturates at zero.\<close>

definition too_many_leases :: "nat \<Rightarrow> lease_set \<Rightarrow> lease_error" where
  "too_many_leases now m =
     (if m = [] then LeasePanic ''some elements'' else TooManyLeases (Min (snd ` set m) - now))"

definition lease_extend :: "nat \<Rightarrow> nat \<Rightarrow> uuid \<Rightarrow> lease_set \<Rightarrow> (lease_error, lease_set) result" where
  "lease_extend now duration uuid m =
     (case map_of m uuid of
        Some _ \<Rightarrow> Inr (AList.update uuid (now + duration) m)
      | None \<Rightarrow> Inl NonExistentLease)"

definition lease_release :: "uuid \<Rightarrow> lease_set \<Rightarrow> lease_set" where
  "lease_release uuid m = AList.delete uuid m"

text \<open>The loop of \<^verbatim>\<open>acquire\<close>.  What the world does while the task waits is the list of views: at
  each wake-up, whether it was a notification or the deadline, the clock, and the set as the other
  tasks have left it.  \<open>None\<close> is a task that still waits.  On the deadline the set may change once
  more between the failed second attempt and the reading of the earliest expiry, so that view has a
  function for what the other tasks do there.\<close>

datatype wake =
    Notified nat lease_set
  | Deadline nat lease_set "lease_set \<Rightarrow> lease_set"

fun acquire_wait ::
  "nat \<Rightarrow> nat \<Rightarrow> uuid \<Rightarrow> wake list \<Rightarrow> lease_set \<Rightarrow> ((lease_error, unit) result \<times> lease_set) option" where
  "acquire_wait limit duration uuid [] m = None"
| "acquire_wait limit duration uuid (Notified now m' # ws) m =
     (case acquire_immediate limit duration now uuid m' of
        (True, m'') \<Rightarrow> Some (Inr (), m'')
      | (False, m'') \<Rightarrow> acquire_wait limit duration uuid ws m'')"
| "acquire_wait limit duration uuid (Deadline now m' others # ws) m =
     (case acquire_immediate limit duration now uuid m' of
        (True, m'') \<Rightarrow> Some (Inr (), m'')
      | (False, m'') \<Rightarrow> let m3 = others m'' in Some (Inl (too_many_leases now m3), m3))"

definition lease_acquire ::
  "nat \<Rightarrow> nat \<Rightarrow> nat \<Rightarrow> uuid \<Rightarrow> wake list \<Rightarrow> lease_set \<Rightarrow> ((lease_error, unit) result \<times> lease_set) option" where
  "lease_acquire limit duration now uuid ws m =
     (case acquire_immediate limit duration now uuid m of
        (True, m') \<Rightarrow> Some (Inr (), m')
      | (False, m') \<Rightarrow> acquire_wait limit duration uuid ws m')"

text \<open>The process-wide \<^verbatim>\<open>MemoryStore\<close>: a lease set per key.\<close>

type_synonym memory_store = "string \<Rightarrow> lease_set option"

definition get_or_create :: "string \<Rightarrow> memory_store \<Rightarrow> lease_set \<times> memory_store" where
  "get_or_create name st =
     (case st name of
        Some m \<Rightarrow> (m, st)
      | None \<Rightarrow> (lease_set_new, st(name \<mapsto> lease_set_new)))"

section \<open>The redis backend\<close>

type_synonym zset = "(uuid \<times> rat) list"

text \<open>What \<^verbatim>\<open>ZREMRANGEBYSCORE key -inf (now_ts - 1)\<close> leaves.\<close>

definition prune_expired :: "int \<Rightarrow> zset \<Rightarrow> zset" where
  "prune_expired now_ts z = filter (\<lambda>(_, score). \<not> score \<le> of_int (now_ts - 1)) z"

datatype script_reply = Okay | Retry int | ScriptError

definition limit_lua :: "rat \<Rightarrow> rat \<Rightarrow> nat \<Rightarrow> uuid \<Rightarrow> zset \<Rightarrow> script_reply \<times> zset" where
  "limit_lua now expires limit uuid z =
     (let now_ts = floor now;
          expires_ts = ceiling expires;
          live = prune_expired now_ts z
      in if length live + 1 > limit
         then (if live = [] then (ScriptError, live)
               else (Retry (ceiling (Min (snd ` set live) - of_int now_ts)), live))
         else (Okay, if map_of live uuid = None then AList.update uuid (of_int expires_ts) live else live))"

definition extend_redis :: "rat \<Rightarrow> rat \<Rightarrow> uuid \<Rightarrow> zset \<Rightarrow> (lease_error, zset) result" where
  "extend_redis now duration uuid z =
     (case map_of z uuid of
        Some score \<Rightarrow>
          if score = now + duration then Inl (LeaseBackendError ''Failed to extend lease'')
          else Inr (AList.update uuid (now + duration) z)
      | None \<Rightarrow> Inl (LeaseBackendError ''Failed to extend lease''))"

definition release_redis :: "uuid \<Rightarrow> zset \<Rightarrow> zset" where
  "release_redis uuid z = AList.delete uuid z"

text \<open>One turn of the loop of \<^verbatim>\<open>acquire_lease_redis\<close>: the lease, the error once the deadline is past,
  or \<open>None\<close> for another turn after a sleep.  The cast of the reply to \<^verbatim>\<open>u64\<close> wraps a negative one.\<close>

definition acquire_turn_redis ::
  "rat \<Rightarrow> rat \<Rightarrow> bool \<Rightarrow> nat \<Rightarrow> uuid \<Rightarrow> zset \<Rightarrow> (lease_error, unit) result option \<times> zset" where
  "acquire_turn_redis now duration past_deadline limit uuid z =
     (case limit_lua now (now + duration) limit uuid z of
        (Okay, z') \<Rightarrow> (Some (Inr ()), z')
      | (Retry n, z') \<Rightarrow> (if past_deadline then Some (Inl (TooManyLeases (nat (n mod 2 ^ 64)))) else None, z')
      | (ScriptError, z') \<Rightarrow> (Some (Inl (LeaseBackendError ''error invoking redis lease acquisition script'')), z'))"

section \<open>Lease handles\<close>

datatype backend = Memory | Redis

record limit_lease =
  ll_name :: string
  ll_uuid :: uuid
  ll_armed :: bool
  ll_backend :: backend

text \<open>The stores a handle acts on; \<open>lw_redis\<close> is \<^verbatim>\<open>REDIS.get()\<close>.\<close>

record lease_world =
  lw_memory :: memory_store
  lw_redis :: "(string \<Rightarrow> zset) option"

definition release_memory :: "limit_lease \<Rightarrow> lease_world \<Rightarrow> lease_world" where
  "release_memory l w =
     (case lw_memory w (ll_name l) of
        Some m \<Rightarrow> w\<lparr>lw_memory := (lw_memory w)(ll_name l \<mapsto> lease_release (ll_uuid l) m)\<rparr>
      | None \<Rightarrow> w)"

definition limit_lease_release :: "limit_lease \<Rightarrow> lease_world \<Rightarrow> limit_lease \<times> lease_world" where
  "limit_lease_release l w =
     (l\<lparr>ll_armed := False\<rparr>,
      case ll_backend l of
        Memory \<Rightarrow> release_memory l w
      | Redis \<Rightarrow>
          (case lw_redis w of
             Some zs \<Rightarrow> w\<lparr>lw_redis := Some (zs(ll_name l := release_redis (ll_uuid l) (zs (ll_name l))))\<rparr>
           | None \<Rightarrow> w))"

definition extend_memory :: "nat \<Rightarrow> nat \<Rightarrow> limit_lease \<Rightarrow> lease_world \<Rightarrow> (lease_error, lease_world) result" where
  "extend_memory now duration l w =
     (case lw_memory w (ll_name l) of
        Some m \<Rightarrow> rbind (lease_extend now duration (ll_uuid l) m)
          (\<lambda>m'. Inr (w\<lparr>lw_memory := (lw_memory w)(ll_name l \<mapsto> m')\<rparr>))
      | None \<Rightarrow> Inl NonExistentLease)"

definition limit_lease_extend ::
  "nat \<Rightarrow> rat \<Rightarrow> nat \<Rightarrow> limit_lease \<Rightarrow> lease_world \<Rightarrow> (lease_error, lease_world) result" where
  "limit_lease_extend now now_ts duration l w =
     (case ll_backend l of
        Memory \<Rightarrow> extend_memory now duration l w
      | Redis \<Rightarrow>
          (case lw_redis w of
             Some zs \<Rightarrow> rbind (extend_redis now_ts (of_nat duration) (ll_uuid l) (zs (ll_name l)))
               (\<lambda>z'. Inr (w\<lparr>lw_redis := Some (zs(ll_name l := z'))\<rparr>))
           | None \<Rightarrow> Inl (LeaseBackendError ''backend is Redis but REDIS is not set'')))"

text \<open>\<^verbatim>\<open>take\<close>: the handle left behind, and the new one.\<close>

definition limit_lease_take :: "limit_lease \<Rightarrow> limit_lease \<times> limit_lease" where
  "limit_lease_take l = (l\<lparr>ll_armed := False\<rparr>, l)"

text \<open>\<^verbatim>\<open>Drop\<close> spawns a task that releases on behalf of an armed handle; the task is its own last step
  here.\<close>

definition limit_lease_drop :: "limit_lease \<Rightarrow> lease_world \<Rightarrow> lease_world" where
  "limit_lease_drop l w = (if ll_armed l then snd (limit_lease_release (l\<lparr>ll_armed := False\<rparr>) w) else w)"

definition acquire_lease_memory ::
  "limit_spec \<Rightarrow> nat \<Rightarrow> nat \<Rightarrow> string \<Rightarrow> uuid \<Rightarrow> wake list \<Rightarrow> lease_world
     \<Rightarrow> ((lease_error, limit_lease) result \<times> lease_world) option" where
  "acquire_lease_memory spec duration now key uuid ws w =
     (let (m, st) = get_or_create key (lw_memory w)
      in map_option (\<lambda>(r, m').
           (rbind r (\<lambda>_. Inr \<lparr>ll_name = key, ll_uuid = uuid, ll_armed = True, ll_backend = Memory\<rparr>),
            w\<lparr>lw_memory := st(key \<mapsto> m')\<rparr>))
         (lease_acquire (ls_limit spec) duration now uuid ws m))"

section \<open>The interface both backends implement\<close>

datatype 't pool_op =
    Acquire 't uuid
  | Extend 't uuid
  | Release uuid

fun pool_step ::
  "('t \<Rightarrow> uuid \<Rightarrow> 's \<Rightarrow> bool \<times> 's) \<Rightarrow> ('t \<Rightarrow> uuid \<Rightarrow> 's \<Rightarrow> 's) \<Rightarrow> (uuid \<Rightarrow> 's \<Rightarrow> 's) \<Rightarrow> 't pool_op \<Rightarrow> 's \<Rightarrow> 's" where
  "pool_step acq ext rel (Acquire t u) s = snd (acq t u s)"
| "pool_step acq ext rel (Extend t u) s = ext t u s"
| "pool_step acq ext rel (Release u) s = rel u s"

locale lease_pool =
  fixes limit :: nat
    and wf :: "'s \<Rightarrow> bool"
    and holders :: "'s \<Rightarrow> uuid set"
    and live :: "'t \<Rightarrow> 's \<Rightarrow> uuid set"
    and acq :: "'t \<Rightarrow> uuid \<Rightarrow> 's \<Rightarrow> bool \<times> 's"
    and ext :: "'t \<Rightarrow> uuid \<Rightarrow> 's \<Rightarrow> 's"
    and rel :: "uuid \<Rightarrow> 's \<Rightarrow> 's"
  assumes finite_holders: "finite (holders s)"
    and wf_acq: "wf s \<Longrightarrow> wf (snd (acq t u s))"
    and wf_ext: "wf s \<Longrightarrow> wf (ext t u s)"
    and wf_rel: "wf s \<Longrightarrow> wf (rel u s)"
    and acq_granted: "wf s \<Longrightarrow> fst (acq t u s) \<Longrightarrow>
      card (live t s) < limit \<and> holders (snd (acq t u s)) = insert u (live t s)"
    and acq_refused: "wf s \<Longrightarrow> \<not> fst (acq t u s) \<Longrightarrow>
      limit \<le> card (live t s) \<and> holders (snd (acq t u s)) = live t s"
    and live_holds: "live t s \<subseteq> holders s"
    and ext_holders: "wf s \<Longrightarrow> holders (ext t u s) = holders s"
    and rel_holders: "wf s \<Longrightarrow> holders (rel u s) = holders s - {u}"
begin

lemma step_bounded:
  assumes "wf s \<and> card (holders s) \<le> limit"
  shows "wf (pool_step acq ext rel opn s) \<and> card (holders (pool_step acq ext rel opn s)) \<le> limit"
proof (cases opn)
  case (Acquire t u)
  have "card (live t s) \<le> card (holders s)"
    by (simp add: card_mono finite_holders live_holds)
  moreover have "card (insert u (live t s)) \<le> Suc (card (live t s))"
    by (rule card_insert_le_m1) simp_all
  ultimately show ?thesis
    using assms Acquire acq_granted[of s t u] acq_refused[of s t u] wf_acq[of s t u]
    by (cases "fst (acq t u s)") auto
next
  case (Extend t u)
  then show ?thesis using assms by (simp add: wf_ext ext_holders)
next
  case (Release u)
  have "card (holders s - {u}) \<le> card (holders s)"
    by (simp add: card_mono finite_holders)
  then show ?thesis using assms Release by (simp add: wf_rel rel_holders)
qed

lemma run_bounded:
  "wf s \<and> card (holders s) \<le> limit \<Longrightarrow>
   wf (fold (pool_step acq ext rel) opns s) \<and> card (holders (fold (pool_step acq ext rel) opns s)) \<le> limit"
  by (induction opns arbitrary: s) (simp_all only: fold_simps step_bounded)

lemma granted_iff: "wf s \<Longrightarrow> fst (acq t u s) \<longleftrightarrow> card (live t s) < limit"
  using acq_granted[of s t u] acq_refused[of s t u] by linarith

lemma live_kept: "wf s \<Longrightarrow> live t s \<subseteq> holders (snd (acq t u s))"
  using acq_granted[of s t u] acq_refused[of s t u] by (cases "fst (acq t u s)") auto

end

section \<open>Both backends are lease pools\<close>

definition mem_live :: "nat \<times> nat \<Rightarrow> lease_set \<Rightarrow> uuid set" where
  "mem_live t m = fst ` set (retain_live (fst t) m)"

definition mem_acq :: "nat \<Rightarrow> nat \<times> nat \<Rightarrow> uuid \<Rightarrow> lease_set \<Rightarrow> bool \<times> lease_set" where
  "mem_acq limit t u m = acquire_immediate limit (snd t) (fst t) u m"

definition mem_ext :: "nat \<times> nat \<Rightarrow> uuid \<Rightarrow> lease_set \<Rightarrow> lease_set" where
  "mem_ext t u m = (case lease_extend (fst t) (snd t) u m of Inr m' \<Rightarrow> m' | Inl _ \<Rightarrow> m)"

abbreviation holders_of :: "(uuid \<times> 'v) list \<Rightarrow> uuid set" where
  "holders_of m \<equiv> fst ` set m"

abbreviation keys_distinct :: "(uuid \<times> 'v) list \<Rightarrow> bool" where
  "keys_distinct m \<equiv> distinct (map fst m)"

lemma card_holders: "keys_distinct m \<Longrightarrow> card (holders_of m) = length m"
  by (metis distinct_card length_map set_map)

lemma keys_distinct_filter: "keys_distinct m \<Longrightarrow> keys_distinct (filter P m)"
  by (induction m) auto

lemma retain_live_props:
  "keys_distinct m \<Longrightarrow> keys_distinct (retain_live now m)"
  "holders_of (retain_live now m) \<subseteq> holders_of m"
  by (auto simp: retain_live_def keys_distinct_filter)

lemma prune_expired_props:
  "keys_distinct z \<Longrightarrow> keys_distinct (prune_expired now z)"
  "holders_of (prune_expired now z) \<subseteq> holders_of z"
  by (auto simp: prune_expired_def keys_distinct_filter)

lemma holders_delete: "holders_of (AList.delete u m) = holders_of m - {u}"
  by (auto simp: AList.delete_eq)

lemma holders_update: "holders_of (AList.update u v m) = insert u (holders_of m)"
  using dom_update[of u v m] by simp

lemma map_of_holder: "map_of m u = Some v \<Longrightarrow> insert u (holders_of m) = holders_of m"
  by (metis insert_absorb map_of_eq_None_iff option.distinct(1))

definition redis_live :: "rat \<times> rat \<Rightarrow> zset \<Rightarrow> uuid set" where
  "redis_live t z = fst ` set (prune_expired (floor (fst t)) z)"

definition redis_acq :: "nat \<Rightarrow> rat \<times> rat \<Rightarrow> uuid \<Rightarrow> zset \<Rightarrow> bool \<times> zset" where
  "redis_acq limit t u z =
     (case limit_lua (fst t) (fst t + snd t) limit u z of (r, z') \<Rightarrow> (r = Okay, z'))"

definition redis_ext :: "rat \<times> rat \<Rightarrow> uuid \<Rightarrow> zset \<Rightarrow> zset" where
  "redis_ext t u z = (case extend_redis (fst t) (snd t) u z of Inr z' \<Rightarrow> z' | Inl _ \<Rightarrow> z)"

interpretation mem_pool: lease_pool limit keys_distinct holders_of mem_live "mem_acq limit" mem_ext lease_release
  for limit
proof (standard, goal_cases)
  case (2 s t u)
  then show ?case
    by (simp add: mem_acq_def acquire_immediate_def Let_def retain_live_props distinct_update)
next
  case (3 s t u)
  then show ?case
    by (auto simp: mem_ext_def lease_extend_def distinct_update split: option.splits)
next
  case (4 s u)
  then show ?case by (simp add: lease_release_def distinct_delete)
next
  case (5 s t u)
  then show ?case
    by (simp add: mem_acq_def acquire_immediate_def Let_def mem_live_def holders_update
        card_holders retain_live_props split: if_splits)
next
  case (6 s t u)
  then show ?case
    by (simp add: mem_acq_def acquire_immediate_def Let_def mem_live_def
        card_holders retain_live_props split: if_splits)
next
  case (8 s t u)
  then show ?case
    by (auto simp: mem_ext_def lease_extend_def holders_update map_of_holder split: option.splits)
qed (use retain_live_props in \<open>auto simp: mem_live_def lease_release_def holders_delete\<close>)

interpretation redis_pool: lease_pool limit keys_distinct holders_of redis_live "redis_acq limit" redis_ext release_redis
  for limit
proof (standard, goal_cases)
  case (2 s t u)
  then show ?case
    by (simp add: redis_acq_def limit_lua_def Let_def prune_expired_props distinct_update)
next
  case (3 s t u)
  then show ?case
    by (auto simp: redis_ext_def extend_redis_def distinct_update split: option.splits)
next
  case (4 s u)
  then show ?case by (simp add: release_redis_def distinct_delete)
next
  case (5 s t u)
  then show ?case
    by (auto simp: redis_acq_def limit_lua_def Let_def redis_live_def holders_update
        card_holders prune_expired_props map_of_holder intro: rev_image_eqI split: if_splits)
next
  case (6 s t u)
  then show ?case
    by (auto simp: redis_acq_def limit_lua_def Let_def redis_live_def
        card_holders prune_expired_props split: if_splits)
next
  case (8 s t u)
  then show ?case
    by (auto simp: redis_ext_def extend_redis_def holders_update map_of_holder split: option.splits)
qed (use prune_expired_props in \<open>auto simp: redis_live_def release_redis_def holders_delete\<close>)

text \<open>The lease sets the waiting task is shown are maps.\<close>

fun wake_wf :: "wake \<Rightarrow> bool" where
  "wake_wf (Notified now m) = keys_distinct m"
| "wake_wf (Deadline now m others) = keys_distinct m"

lemma acquire_immediate_granted:
  assumes "keys_distinct m" "acquire_immediate limit duration now u m = (True, m')"
  shows "u \<in> holders_of m' \<and> card (holders_of m') \<le> limit"
proof -
  have "holders_of m' = insert u (mem_live (now, duration) m)" "card (mem_live (now, duration) m) < limit"
    using mem_pool.acq_granted[OF assms(1), of limit "(now, duration)" u] assms(2)
    by (simp_all add: mem_acq_def)
  then show ?thesis
    using card_insert_if[of "mem_live (now, duration) m" u] mem_live_def by auto
qed

lemma acquire_immediate_full:
  assumes "keys_distinct m" "acquire_immediate limit duration now u m = (False, m')"
  shows "limit \<le> card (mem_live (now, duration) m)"
  using mem_pool.acq_refused[OF assms(1), of limit "(now, duration)" u] assms(2)
  by (simp add: mem_acq_def)

lemma acquire_wait_granted:
  assumes "list_all wake_wf ws" "acquire_wait limit duration u ws m = Some (Inr (), m')"
  shows "u \<in> holders_of m' \<and> card (holders_of m') \<le> limit"
  using assms
proof (induction limit duration u ws m rule: acquire_wait.induct)
  case (2 limit duration uuid now m1 ws m)
  then show ?case
    by (cases "acquire_immediate limit duration now uuid m1")
      (auto dest: acquire_immediate_granted split: bool.splits)
next
  case (3 limit duration uuid now m1 others ws m)
  then show ?case
    by (cases "acquire_immediate limit duration now uuid m1")
      (auto dest: acquire_immediate_granted simp: Let_def split: bool.splits)
qed simp

lemma acquire_wait_refused:
  assumes "list_all wake_wf ws" "acquire_wait limit duration u ws m = Some (Inl e, m')"
  shows "\<exists>now m1 others. Deadline now m1 others \<in> set ws \<and> limit \<le> card (mem_live (now, duration) m1)
    \<and> e = too_many_leases now m'"
  using assms
proof (induction limit duration u ws m rule: acquire_wait.induct)
  case (2 limit duration uuid now m1 ws m)
  then show ?case
    by (cases "acquire_immediate limit duration now uuid m1") (fastforce split: bool.splits)
next
  case (3 limit duration uuid now m1 others ws m)
  then show ?case
    by (cases "acquire_immediate limit duration now uuid m1")
      (auto dest!: acquire_immediate_full simp: Let_def split: bool.splits)
qed simp

section \<open>Properties\<close>

text \<open>C2. However acquisitions, extensions and releases of any number of tasks interleave, and whatever
  the clock does, neither the in-memory lease set nor the redis sorted set ever holds more leases
  than the limit.\<close>

theorem leases_never_exceed_limit:
  "card (holders_of (fold (pool_step (mem_acq limit) mem_ext lease_release) ops lease_set_new)) \<le> limit
   \<and> card (holders_of (fold (pool_step (redis_acq limit) redis_ext release_redis) rops [])) \<le> limit"
  using mem_pool.run_bounded[of lease_set_new limit ops] redis_pool.run_bounded[of "[]" limit rops]
  by (simp add: lease_set_new_def)

text \<open>In a lease set with distinct ids, \<^verbatim>\<open>acquire_immediate\<close> grants a lease exactly when fewer than
  \<^verbatim>\<open>limit\<close> leases are unexpired; it never drops an unexpired lease of another holder; and the new holder
  has its full duration.\<close>

theorem acquire_immediate_exact:
  assumes "keys_distinct m"
  shows "(fst (acquire_immediate limit duration now u m) \<longleftrightarrow> card (mem_live (now, duration) m) < limit)
    \<and> mem_live (now, duration) m \<subseteq> holders_of (snd (acquire_immediate limit duration now u m))
    \<and> (fst (acquire_immediate limit duration now u m) \<longrightarrow>
        map_of (snd (acquire_immediate limit duration now u m)) u = Some (now + duration))"
  using mem_pool.granted_iff[OF assms, of limit "(now, duration)" u]
    mem_pool.live_kept[OF assms, of "(now, duration)" limit u]
  by (auto simp: mem_acq_def acquire_immediate_def Let_def update_conv' split: if_splits)

theorem acquire_immediate_exact_witness:
  "fst (acquire_immediate 2 60 100 9 [(1, 150), (2, 90)])
   \<and> map_of (snd (acquire_immediate 2 60 100 9 [(1, 150), (2, 90)])) 9 = Some 160"
  using acquire_immediate_exact[of "[(1, 150), (2, 90)]" 2 60 100 9]
  by (simp add: mem_live_def retain_live_def)

text \<open>After a deadline wake-up, the task reads the earliest expiry under a second lock
  acquisition: when the last holder releases its lease between the failed attempt and that read,
  \<^verbatim>\<open>expect("some elements")\<close> panics instead of the caller seeing \<^verbatim>\<open>TooManyLeases\<close>.\<close>

theorem acquire_deadline_race_panics:
  "lease_acquire 1 60 100 (2::uuid) [Deadline 110 [(1, 150)] (lease_release 1)] [(1, 150)]
     = Some (Inl (LeasePanic ''some elements''), [])"
  by (simp add: lease_acquire_def acquire_immediate_def retain_live_def too_many_leases_def
      lease_release_def)

text \<open>C13. The waiting acquisition of \<^verbatim>\<open>LeaseSet::acquire\<close>, whatever it is woken by: when it returns Ok the
  task is among at most \<^verbatim>\<open>limit\<close> holders; when it returns an error it was woken by its deadline, and
  at that moment \<^verbatim>\<open>limit\<close> unexpired leases were held.\<close>

theorem lease_acquire_sound:
  assumes "keys_distinct m" "list_all wake_wf ws"
    and "lease_acquire limit duration now u ws m = Some (r, m')"
  shows "case r of
      Inr _ \<Rightarrow> u \<in> holders_of m' \<and> card (holders_of m') \<le> limit
    | Inl e \<Rightarrow> \<exists>t m1 others. Deadline t m1 others \<in> set ws \<and> limit \<le> card (mem_live (t, duration) m1)
        \<and> e = too_many_leases t m'"
proof (cases "acquire_immediate limit duration now u m")
  case (Pair b m1)
  show ?thesis
  proof (cases r)
    case (Inl e)
    then have "acquire_wait limit duration u ws m1 = Some (Inl e, m')"
      using assms(3) Pair by (cases b) (simp_all add: lease_acquire_def)
    then show ?thesis
      using acquire_wait_refused[OF assms(2)] Inl by simp
  next
    case (Inr x)
    then show ?thesis
      using assms Pair acquire_wait_granted acquire_immediate_granted
      by (cases b) (auto simp: lease_acquire_def)
  qed
qed

theorem lease_acquire_sound_witness:
  "lease_acquire 1 60 100 2 [Notified 120 []] [(1, 150)] = Some (Inr (), [(2, 180)])
   \<and> card (holders_of [(2::uuid, 180::nat)]) \<le> 1"
proof -
  have r: "lease_acquire 1 60 100 2 [Notified 120 []] [(1, 150)] = Some (Inr (), [(2, 180)])"
    by (simp add: lease_acquire_def acquire_immediate_def retain_live_def)
  have "keys_distinct [(1::uuid, 150::nat)]" "list_all wake_wf [Notified 120 []]"
    by simp_all
  from lease_acquire_sound[OF this r] r show ?thesis by simp
qed



end
