(* ===== verification/Counter_Series.thy ===== *)
theory Counter_Series
  imports Kumo_Prelude
begin

text \<open>
  The time series of \<^verbatim>\<open>crates/kumo-counter-series/src/lib.rs\<close>: a ring of \<^verbatim>\<open>u64\<close> buckets, one per time
  interval, rotated lazily before each access.  The ring is shown to implement a sliding window, the
  list of bucket values from the newest to the oldest.  Instants are nanoseconds; an index out of
  range and a division by zero are panics, the value \<open>None\<close>.
\<close>

section \<open>Model\<close>

record counter_series =
  buckets :: "64 word list"
  bucket_size :: nat
  curr_bucket :: nat
  updated :: nat

definition with_initial_value :: "nat \<Rightarrow> nat \<Rightarrow> nat \<Rightarrow> 64 word \<Rightarrow> counter_series option" where
  "with_initial_value now num_buckets sz v =
     (if num_buckets = 0 then None
      else Some \<lparr>buckets = (replicate num_buckets 0)[0 := v], bucket_size = sz,
                 curr_bucket = 0, updated = now\<rparr>)"

definition with_config :: "nat \<Rightarrow> nat \<Rightarrow> nat \<Rightarrow> counter_series option" where
  "with_config now num_buckets sz = with_initial_value now num_buckets sz 0"

definition back_index :: "nat \<Rightarrow> nat \<Rightarrow> nat \<Rightarrow> nat" where
  "back_index n c k = (if c < k then c + n - k else c - k)"

definition elapsed_slots :: "nat \<Rightarrow> counter_series \<Rightarrow> nat" where
  "elapsed_slots now s = (now - updated s) div 1000000000 div bucket_size s"

definition rotate_and_get_current_bucket :: "nat \<Rightarrow> counter_series \<Rightarrow> (nat \<times> counter_series) option" where
  "rotate_and_get_current_bucket now s =
     (if bucket_size s = 0 then None
      else
        let n = length (buckets s); slots = elapsed_slots now s
        in if slots > 0 then
             (if n = 0 then None
              else let curr = (slots + curr_bucket s) mod n;
                       bs = fold (\<lambda>prune b. b[back_index n curr prune := 0]) [0..<min slots n] (buckets s)
                   in Some (curr, s\<lparr>buckets := bs, curr_bucket := curr, updated := now\<rparr>))
           else Some (curr_bucket s, s))"

definition update_bucket ::
  "(64 word \<Rightarrow> 64 word) \<Rightarrow> nat \<Rightarrow> counter_series \<Rightarrow> counter_series option" where
  "update_bucket f now s = do {
     (idx, s') \<leftarrow> rotate_and_get_current_bucket now s;
     if idx < length (buckets s') then Some (s'\<lparr>buckets := (buckets s')[idx := f (buckets s' ! idx)]\<rparr>)
     else None }"

definition increment :: "64 word \<Rightarrow> nat \<Rightarrow> counter_series \<Rightarrow> counter_series option" where
  "increment to_add = update_bucket (\<lambda>v. saturating_add v to_add)"

text \<open>\<^verbatim>\<open>delta\<close> is an \<^verbatim>\<open>i64\<close>; its negation and its cast to \<^verbatim>\<open>u64\<close> are the word operations.\<close>

definition delta :: "64 word \<Rightarrow> nat \<Rightarrow> counter_series \<Rightarrow> counter_series option" where
  "delta d = update_bucket (\<lambda>v. if sint d > 0 then saturating_add v d else saturating_sub v (- d))"

definition observe :: "64 word \<Rightarrow> nat \<Rightarrow> counter_series \<Rightarrow> counter_series option" where
  "observe v = update_bucket (\<lambda>_. v)"

definition sum_series :: "nat \<Rightarrow> counter_series \<Rightarrow> (64 word \<times> counter_series) option" where
  "sum_series now s = do {
     (_, s') \<leftarrow> rotate_and_get_current_bucket now s;
     Some (sum_list (buckets s'), s') }"

definition div_ceil :: "nat \<Rightarrow> nat \<Rightarrow> nat" where
  "div_ceil a b = (a + b - 1) div b"

definition sum_over :: "nat \<Rightarrow> nat \<Rightarrow> counter_series \<Rightarrow> (64 word \<times> counter_series) option" where
  "sum_over secs now s = do {
     (idx, s') \<leftarrow> rotate_and_get_current_bucket now s;
     let n = length (buckets s');
     let k = max (min (div_ceil secs (bucket_size s')) n) 1;
     if n = 0 then None
     else Some (sum_list (map (\<lambda>i. buckets s' ! back_index n idx i) [0..<k]), s') }"

section \<open>The sliding window\<close>

text \<open>A series is well formed when it has at least one and, as \<^verbatim>\<open>num_buckets\<close> is a \<^verbatim>\<open>u8\<close>, at most 255
  buckets, a positive bucket size, and its current bucket in range.\<close>

definition series_wf :: "counter_series \<Rightarrow> bool" where
  "series_wf s \<longleftrightarrow> 0 < bucket_size s \<and> curr_bucket s < length (buckets s) \<and> length (buckets s) \<le> 255"

text \<open>The values from the newest bucket to the oldest.\<close>

definition window :: "counter_series \<Rightarrow> 64 word list" where
  "window s = map (\<lambda>k. buckets s ! back_index (length (buckets s)) (curr_bucket s) k) [0..<length (buckets s)]"

definition slide :: "nat \<Rightarrow> 64 word list \<Rightarrow> 64 word list" where
  "slide k w = take (length w) (replicate k 0 @ w)"

section \<open>Helper lemmas\<close>

lemma back_index_less: "c < n \<Longrightarrow> k < n \<Longrightarrow> back_index n c k < n"
  by (auto simp: back_index_def)

lemma back_index_inj: "c < n \<Longrightarrow> j < n \<Longrightarrow> k < n \<Longrightarrow> back_index n c j = back_index n c k \<longleftrightarrow> j = k"
  by (auto simp: back_index_def split: if_splits)

lemma back_index_mod: "c < n \<Longrightarrow> k < n \<Longrightarrow> back_index n c k = (c + n - k) mod n"
  by (auto simp: back_index_def mod_if)

lemma length_window [simp]: "length (window s) = length (buckets s)"
  by (simp add: window_def)

lemma window_nth: "k < length (buckets s) \<Longrightarrow>
    window s ! k = buckets s ! back_index (length (buckets s)) (curr_bucket s) k"
  by (simp add: window_def)

lemma length_slide [simp]: "length (slide k w) = length w"
  by (simp add: slide_def)

lemma slide_nth: "j < length w \<Longrightarrow> slide k w ! j = (if j < k then 0 else w ! (j - k))"
  by (simp add: slide_def nth_append)

lemma slide_0 [simp]: "slide 0 w = w"
  by (simp add: slide_def)

text \<open>The pruning loop zeroes the buckets of the \<open>m\<close> newest slots and no other.\<close>

lemma prune_length:
  "length (fold (\<lambda>prune b. b[back_index n c prune := 0]) ps b) = length b"
  by (induction ps arbitrary: b) simp_all

lemma prune_nth:
  assumes "c < length b" "m \<le> length b" "j < length b"
  shows "fold (\<lambda>prune b. b[back_index n c prune := 0]) [0..<m] b ! j
    = (if \<exists>p < m. j = back_index n c p then 0 else b ! j)"
  using assms(2)
proof (induction m)
  case (Suc m)
  then show ?case
    using assms by (cases "j = back_index n c m") (auto simp: prune_length less_Suc_eq)
qed simp

lemma prune_window:
  assumes "c < length b" "m \<le> length b" "k < length b"
  shows "fold (\<lambda>prune a. a[back_index (length b) c prune := 0]) [0..<m] b ! back_index (length b) c k
    = (if k < m then 0 else b ! back_index (length b) c k)"
proof -
  have "(\<exists>p < m. back_index (length b) c k = back_index (length b) c p) \<longleftrightarrow> k < m"
    using assms back_index_inj[of c "length b" k] by (metis less_le_trans)
  then show ?thesis
    using prune_nth[OF assms(1,2) back_index_less[OF assms(1,3)], of "length b"] by simp
qed

lemma back_index_shift:
  assumes "c < n" "k < n" "m \<le> k"
  shows "back_index n ((m + c) mod n) k = back_index n c (k - m)"
proof -
  have "m + c < n \<or> (n \<le> m + c \<and> m + c < 2 * n)" using assms by linarith
  then show ?thesis
  proof
    assume "m + c < n"
    then show ?thesis using assms by (auto simp: back_index_def)
  next
    assume a: "n \<le> m + c \<and> m + c < 2 * n"
    then have "(m + c) mod n = m + c - n" using assms by (simp add: mod_if)
    then show ?thesis using a assms by (auto simp: back_index_def)
  qed
qed

lemma rotate_refines:
  assumes wf: "series_wf s"
  obtains s' where "rotate_and_get_current_bucket now s = Some (curr_bucket s', s')"
    "series_wf s'" "window s' = slide (elapsed_slots now s) (window s)"
    "length (buckets s') = length (buckets s)" "bucket_size s' = bucket_size s"
proof -
  let ?n = "length (buckets s)" and ?m = "elapsed_slots now s"
  let ?c = "(?m + curr_bucket s) mod ?n"
  let ?b = "fold (\<lambda>prune b. b[back_index ?n ?c prune := 0]) [0..<min ?m ?n] (buckets s)"
  let ?s = "s\<lparr>buckets := ?b, curr_bucket := ?c, updated := now\<rparr>"
  have n: "0 < ?n" "curr_bucket s < ?n" "0 < bucket_size s" "?n \<le> 255"
    using wf by (auto simp: series_wf_def)
  show thesis
  proof (cases "0 < ?m")
    case True
    have len: "length ?b = ?n" by (rule prune_length)
    have "window ?s = slide ?m (window s)"
    proof (rule nth_equalityI)
      fix k assume "k < length (window ?s)"
      then have k: "k < ?n" by (simp add: len)
      have "window ?s ! k = (if k < min ?m ?n then 0 else buckets s ! back_index ?n ?c k)"
        using k n prune_window[of ?c "buckets s" "min ?m ?n" k] by (simp add: window_nth len)
      also have "\<dots> = slide ?m (window s) ! k"
        using k n back_index_shift[OF n(2) k, of ?m] by (auto simp: slide_nth window_nth)
      finally show "window ?s ! k = slide ?m (window s) ! k" .
    qed (simp add: len)
    moreover have "rotate_and_get_current_bucket now s = Some (curr_bucket ?s, ?s)"
      using True n by (simp add: rotate_and_get_current_bucket_def Let_def)
    moreover have "series_wf ?s" using n by (simp add: series_wf_def len)
    ultimately show thesis using that[of ?s] len by simp
  next
    case False
    then show thesis
      using that[of s] wf n by (simp add: rotate_and_get_current_bucket_def)
  qed
qed

lemma window_update_head:
  assumes "series_wf s"
  shows "window (s\<lparr>buckets := (buckets s)[curr_bucket s := v]\<rparr>) = (window s)[0 := v]"
proof (rule nth_equalityI)
  let ?s = "s\<lparr>buckets := (buckets s)[curr_bucket s := v]\<rparr>"
  fix k assume "k < length (window ?s)"
  then have k: "k < length (buckets s)" by simp
  have c: "curr_bucket s < length (buckets s)" "0 < length (buckets s)"
    using assms by (auto simp: series_wf_def)
  have "back_index (length (buckets s)) (curr_bucket s) k = curr_bucket s \<longleftrightarrow> k = 0"
    using back_index_inj[OF c(1) k c(2)] by (simp add: back_index_def)
  then show "window ?s ! k = (window s)[0 := v] ! k"
    using k c by (auto simp: window_nth nth_list_update)
qed simp

lemma window_head: "series_wf s \<Longrightarrow> window s ! 0 = buckets s ! curr_bucket s"
  by (subst window_nth) (auto simp: back_index_def series_wf_def)

lemma update_bucket_refines:
  assumes "series_wf s"
  shows "\<exists>s'. update_bucket f now s = Some s' \<and> series_wf s' \<and>
    window s' = (let w = slide (elapsed_slots now s) (window s) in w[0 := f (w ! 0)])"
proof -
  obtain s1 where s1: "rotate_and_get_current_bucket now s = Some (curr_bucket s1, s1)"
      "series_wf s1" "window s1 = slide (elapsed_slots now s) (window s)"
    using rotate_refines[OF assms] by blast
  let ?s = "s1\<lparr>buckets := (buckets s1)[curr_bucket s1 := f (buckets s1 ! curr_bucket s1)]\<rparr>"
  have "curr_bucket s1 < length (buckets s1)" using s1(2) by (simp add: series_wf_def)
  then have "update_bucket f now s = Some ?s" "series_wf ?s"
    using s1 by (simp_all add: update_bucket_def series_wf_def)
  moreover have "window ?s = (window s1)[0 := f (window s1 ! 0)]"
    using window_update_head window_head s1(2) by simp
  ultimately show ?thesis using s1(3) by (auto simp: Let_def)
qed

lemma sum_over_window:
  assumes "k \<le> length (buckets s)"
  shows "sum_list (map (\<lambda>i. buckets s ! back_index (length (buckets s)) (curr_bucket s) i) [0..<k])
    = sum_list (take k (window s))"
proof -
  have "take k [0..<length (buckets s)] = [0..<k]" using assms by (simp add: take_upt)
  then show ?thesis by (simp add: window_def take_map)
qed

lemma sum_window:
  assumes "series_wf s"
  shows "sum_list (buckets s) = sum_list (window s)"
proof -
  let ?n = "length (buckets s)" and ?f = "back_index (length (buckets s)) (curr_bucket s)"
  have c: "curr_bucket s < ?n" using assms by (simp add: series_wf_def)
  have "inj_on ?f {0..<?n}" using back_index_inj[OF c] by (auto intro!: inj_onI)
  moreover have "?f ` {0..<?n} \<subseteq> {0..<?n}" using back_index_less[OF c] by auto
  ultimately have img: "bij_betw ?f {0..<?n} {0..<?n}"
    by (simp add: bij_betw_def endo_inj_surj)
  have "sum_list (window s) = (\<Sum>k = 0..<?n. buckets s ! ?f k)"
    by (simp add: window_def interv_sum_list_conv_sum_set_nat)
  also have "\<dots> = (\<Sum>j = 0..<?n. buckets s ! j)"
    by (rule sum.reindex_bij_betw[OF img])
  also have "\<dots> = sum_list (buckets s)"
    by (simp add: sum_list_sum_nth)
  finally show ?thesis by simp
qed

text \<open>The operations as steps of one system, for runs.\<close>

datatype series_op = Increment "64 word" nat | Delta "64 word" nat | Observe "64 word" nat

fun series_step :: "series_op \<Rightarrow> counter_series option \<Rightarrow> counter_series option" where
  "series_step _ None = None"
| "series_step (Increment v now) (Some s) = increment v now s"
| "series_step (Delta v now) (Some s) = delta v now s"
| "series_step (Observe v now) (Some s) = observe v now s"

definition series_running :: "counter_series option \<Rightarrow> bool" where
  "series_running x = (case x of None \<Rightarrow> False | Some s \<Rightarrow> series_wf s)"

lemma update_bucket_running: "series_wf s \<Longrightarrow> series_running (update_bucket f now s)"
  using update_bucket_refines[of s f now] by (auto simp: series_running_def)

interpretation series_system: invariant_system series_step series_running
proof
  fix x opn
  assume "series_running x"
  then obtain s where "x = Some s" "series_wf s" by (auto simp: series_running_def split: option.splits)
  then show "series_running (series_step opn x)"
    by (cases opn) (simp_all add: update_bucket_running increment_def delta_def observe_def)
qed

section \<open>Properties\<close>



text \<open>\<^verbatim>\<open>sum\<close> is the total of the window after it has slid, and \<^verbatim>\<open>sum_over\<close> the total of its newest
  intervals: as many as the span needs, rounded up, at least one and at most all.  Both totals are
  modulo \<^term>\<open>2 ^ 64\<close>.\<close>

theorem counter_series_sums:
  assumes "series_wf s"
  shows "\<exists>s'. series_wf s' \<and> window s' = slide (elapsed_slots now s) (window s)
    \<and> sum_series now s = Some (sum_list (window s'), s')
    \<and> sum_over secs now s =
        Some (sum_list (take (max (min (div_ceil secs (bucket_size s)) (length (buckets s))) 1) (window s')), s')"
proof -
  obtain s1 where s1: "rotate_and_get_current_bucket now s = Some (curr_bucket s1, s1)"
      "series_wf s1" "window s1 = slide (elapsed_slots now s) (window s)"
      "length (buckets s1) = length (buckets s)" "bucket_size s1 = bucket_size s"
    using rotate_refines[OF assms] by blast
  have n: "0 < length (buckets s1)" using s1(2) by (auto simp: series_wf_def)
  then have k: "max (min (div_ceil secs (bucket_size s1)) (length (buckets s1))) 1 \<le> length (buckets s1)"
    by linarith
  have "sum_over secs now s =
      Some (sum_list (take (max (min (div_ceil secs (bucket_size s)) (length (buckets s))) 1) (window s1)), s1)"
    using n sum_over_window[OF k] unfolding sum_over_def s1(1) s1(4,5)[symmetric] by (simp add: Let_def)
  moreover have "sum_series now s = Some (sum_list (window s1), s1)"
    unfolding sum_series_def s1(1) using sum_window[OF s1(2)] by simp
  ultimately show ?thesis using s1 by blast
qed

theorem counter_series_sums_witness:
  "\<exists>s'. sum_over 2 0 \<lparr>buckets = [7, 0, 3], bucket_size = 1, curr_bucket = 0, updated = 0\<rparr> = Some (10, s')"
proof -
  let ?s = "\<lparr>buckets = [7, 0, 3], bucket_size = 1, curr_bucket = 0, updated = 0\<rparr>"
  have "window ?s = [7, 3, 0]" by (simp add: window_def back_index_def upt_rec)
  then show ?thesis
    using counter_series_sums[of ?s 0 2]
    by (auto simp: series_wf_def elapsed_slots_def div_ceil_def numeral_2_eq_2)
qed

text \<open>A series created with between 1 and 255 buckets and a positive bucket size never panics, in any
  sequence of updates at any times, and stays well formed.\<close>

theorem counter_series_never_panics:
  assumes "0 < num_buckets" "num_buckets \<le> 255" "0 < sz"
  shows "\<exists>s. fold series_step ops (with_initial_value now num_buckets sz v) = Some s \<and> series_wf s"
proof -
  have "series_running (with_initial_value now num_buckets sz v)"
    using assms by (simp add: series_running_def with_initial_value_def series_wf_def)
  from series_system.run_inv[OF this, of ops] show ?thesis
    by (auto simp: series_running_def split: option.splits)
qed

theorem counter_series_never_panics_witness:
  "\<exists>s. fold series_step [Increment 4 9, Delta (- 9) 99999999999, Observe 1 5] (with_initial_value 0 12 5 0) = Some s
     \<and> series_wf s"
  using counter_series_never_panics[of 12 5 "[Increment 4 9, Delta (- 9) 99999999999, Observe 1 5]" 0 0]
  by (simp only: zero_less_numeral numeral_le_iff semiring_norm simp_thms)

end
