(* ===== verification/Queue_Config.thy ===== *)
theory Queue_Config
  imports Throttle_Spec
begin

text \<open>
  The configuration of a scheduled queue and its retry schedule, \<^verbatim>\<open>crates/kumod/src/queue/config.rs\<close>,
  with the delivery protocols of \<^verbatim>\<open>delivery_proto.rs\<close>.  A \<^verbatim>\<open>std::time::Duration\<close> is a natural number
  of nanoseconds, a \<^verbatim>\<open>chrono::Duration\<close> an integer number of nanoseconds.  The \<^verbatim>\<open>u64\<close> arithmetic and its
  cast to \<^verbatim>\<open>i64\<close> are on 64-bit words; a failing \<^verbatim>\<open>expect\<close>, \<^verbatim>\<open>unwrap\<close> or chrono addition is a panic,
  the value \<open>None\<close>.  The settings of the SMTP, Lua and Xfer protocols are opaque texts.  The attempt counter of \<^verbatim>\<open>infer_num_attempts\<close> is a 16-bit word that wraps, as
  in the release build.
\<close>

section \<open>Model\<close>

datatype delivery_proto =
    Smtp string
  | Maildir string "nat option" "nat option"
  | LuaProto string
  | Xfer string
  | HttpInjectionGenerator
  | DeferredSmtpInjection
  | NullProto

fun metrics_protocol_name :: "delivery_proto \<Rightarrow> string" where
  "metrics_protocol_name (Smtp _) = ''smtp_client''"
| "metrics_protocol_name (Maildir _ _ _) = ''maildir''"
| "metrics_protocol_name (LuaProto _) = ''lua''"
| "metrics_protocol_name (Xfer _) = ''xfer''"
| "metrics_protocol_name HttpInjectionGenerator = ''httpinject''"
| "metrics_protocol_name DeferredSmtpInjection = ''defersmtpinject''"
| "metrics_protocol_name NullProto = ''null''"

fun ready_queue_name :: "delivery_proto \<Rightarrow> string" where
  "ready_queue_name (Maildir p d f) = metrics_protocol_name (Maildir p d f) @ '':'' @ p"
| "ready_queue_name (LuaProto c) = metrics_protocol_name (LuaProto c) @ '':'' @ c"
| "ready_queue_name HttpInjectionGenerator = metrics_protocol_name HttpInjectionGenerator @ '':generator''"
| "ready_queue_name p = metrics_protocol_name p"

datatype queue_strategy = TimerWheel | SkipList | SingletonTimerWheel | SingletonTimerWheelV2

datatype config_refresh_strategy = Ttl | Epoch

datatype memory_reduction_policy = ShrinkDataAndMeta | ShrinkData | NoShrink

record queue_shrink_policy =
  qs_interval :: nat
  qs_policy :: memory_reduction_policy

record queue_config =
  retry_interval :: nat
  max_retry_interval :: "nat option"
  max_age :: nat
  egress_pool :: "string option"
  max_message_rate :: "throttle_spec option"
  protocol :: delivery_proto
  reap_interval :: nat
  refresh_interval :: nat
  timerwheel_tick_interval :: "nat option"
  strategy :: queue_strategy
  refresh_strategy :: config_refresh_strategy
  provider_name :: "string option"
  shrink_policy :: "queue_shrink_policy list"

abbreviation nanos :: nat where "nanos \<equiv> 1000000000"

definition default_retry_interval :: nat where "default_retry_interval = 60 * 20 * nanos"
definition default_max_age :: nat where "default_max_age = 86400 * 7 * nanos"
definition default_reap_interval :: nat where "default_reap_interval = 10 * 60 * nanos"
definition default_refresh_interval :: nat where "default_refresh_interval = 60 * nanos"

definition default_queue_config :: queue_config where
  "default_queue_config =
     \<lparr>retry_interval = default_retry_interval, max_retry_interval = None, max_age = default_max_age,
      egress_pool = None, max_message_rate = None, protocol = Smtp '''',
      reap_interval = default_reap_interval, refresh_interval = default_refresh_interval,
      timerwheel_tick_interval = None, strategy = SingletonTimerWheel, refresh_strategy = Ttl,
      provider_name = None, shrink_policy = []\<rparr>"

definition MAX_CHRONO_SECONDS :: int where "MAX_CHRONO_SECONDS = (2 ^ 63 - 1) div 1000"

abbreviation chrono_nanos :: int where "chrono_nanos \<equiv> 1000000000"

definition chrono_valid :: "int \<Rightarrow> bool" where
  "chrono_valid d \<longleftrightarrow> - ((2 ^ 63 - 1) * 1000000) \<le> d \<and> d \<le> (2 ^ 63 - 1) * 1000000"

definition try_seconds :: "int \<Rightarrow> int option" where
  "try_seconds s = (if - MAX_CHRONO_SECONDS \<le> s \<and> s \<le> MAX_CHRONO_SECONDS then Some (s * chrono_nanos) else None)"

definition chrono_add :: "int \<Rightarrow> int \<Rightarrow> int option" where
  "chrono_add a b = (if chrono_valid (a + b) then Some (a + b) else None)"

definition as_secs :: "nat \<Rightarrow> 64 word" where
  "as_secs d = of_nat (d div nanos)"

definition get_max_age :: "queue_config \<Rightarrow> int option" where
  "get_max_age cfg = (if chrono_valid (int (max_age cfg)) then Some (int (max_age cfg)) else None)"

definition delay_for_attempt :: "queue_config \<Rightarrow> nat \<Rightarrow> int option" where
  "delay_for_attempt cfg attempt =
     (let delay = saturating_mul (as_secs (retry_interval cfg)) (saturating_pow2 attempt);
          delay = (case map_option as_secs (max_retry_interval cfg) of None \<Rightarrow> delay | Some limit \<Rightarrow> min delay limit)
      in try_seconds (min (sint delay) MAX_CHRONO_SECONDS))"

partial_function (option) infer_loop :: "queue_config \<Rightarrow> int \<Rightarrow> int \<Rightarrow> 16 word \<Rightarrow> 16 word option" where
  "infer_loop cfg age elapsed n = do {
     delay \<leftarrow> delay_for_attempt cfg (unat n);
     total \<leftarrow> chrono_add elapsed delay;
     if age < total then Some n else infer_loop cfg age total (n + 1) }"

definition infer_num_attempts :: "queue_config \<Rightarrow> int \<Rightarrow> 16 word option" where
  "infer_num_attempts cfg age = infer_loop cfg age 0 0"

definition overall_delay :: "queue_config \<Rightarrow> nat \<Rightarrow> int option" where
  "overall_delay cfg num_attempts = do {
     ds \<leftarrow> those (map (delay_for_attempt cfg) [1..<num_attempts]);
     let total = sum_list (map (\<lambda>d. word_of_int (d div chrono_nanos) :: 64 word) ds);
     try_seconds (min (sint total) MAX_CHRONO_SECONDS) }"

definition delay_from_now :: "int \<Rightarrow> int \<Rightarrow> int" where
  "delay_from_now overall age = max (if chrono_valid (overall - age) then overall - age else 0) 0"

definition compute_delay_based_on_age :: "queue_config \<Rightarrow> nat \<Rightarrow> int \<Rightarrow> int option option" where
  "compute_delay_based_on_age cfg num_attempts age = do {
     mage \<leftarrow> get_max_age cfg;
     if age \<ge> mage then Some None
     else do {
       overall \<leftarrow> overall_delay cfg num_attempts;
       Some (if overall \<ge> mage then None else Some (delay_from_now overall age)) } }"

definition compute_delay_based_on_age_ignoring_max_age :: "queue_config \<Rightarrow> nat \<Rightarrow> int \<Rightarrow> int option" where
  "compute_delay_based_on_age_ignoring_max_age cfg num_attempts age =
     map_option (\<lambda>overall. delay_from_now overall age) (overall_delay cfg num_attempts)"

section \<open>Helper lemmas\<close>

lemma sint_small:
  assumes "unat (w :: 64 word) < 2 ^ 63"
  shows "sint w = int (unat w)"
proof -
  have "int (unat w) < int (2 ^ 63)" using assms by (simp only: of_nat_less_iff)
  then have "uint w < 2 ^ 63" by simp
  moreover have "- (2 ^ 63) \<le> uint w" by (rule order_trans[OF _ uint_ge_0]) simp
  ultimately have "signed_take_bit 63 (uint w) = uint w"
    by (intro signed_take_bit_int_eq_self)
  then show ?thesis by (simp add: sint_uint)
qed

lemma unat_as_secs: "d div nanos < 2 ^ 64 \<Longrightarrow> unat (as_secs d) = d div nanos"
  by (simp add: as_secs_def unsigned_of_nat take_bit_nat_eq_self)

lemma word_of_nat_unat: "of_nat (unat (w :: 64 word)) = w"
  by simp

lemma unat_min_word: "unat (min a b :: 64 word) = min (unat a) (unat b)"
  by (simp add: min_def word_le_nat_alt)

text \<open>The backoff as a natural number: what the \<^verbatim>\<open>u64\<close> arithmetic computes before the cast.\<close>

definition backoff :: "queue_config \<Rightarrow> nat \<Rightarrow> nat" where
  "backoff cfg attempt =
     (let d = min (unat (as_secs (retry_interval cfg)) * 2 ^ attempt) u64_max
      in case max_retry_interval cfg of None \<Rightarrow> d | Some l \<Rightarrow> min d (unat (as_secs l)))"

lemma saturating_mul_pow2:
  "unat (saturating_mul (a :: 64 word) (saturating_pow2 n)) = min (unat a * 2 ^ n) u64_max"
proof (cases "n < 64")
  case True
  then have "(2::nat) ^ n \<le> u64_max"
    using power_strict_increasing[of n 64 "2::nat"] by simp
  then show ?thesis by (simp add: sat_simps)
next
  case False
  then have n: "u64_max < (2::nat) ^ n"
    using power_increasing[of 64 n "2::nat"] by simp
  then show ?thesis
  proof (cases "unat a = 0")
    case False
    then have "2 ^ n \<le> unat a * 2 ^ n" by simp
    then have "min (unat a * 2 ^ n) u64_max = u64_max"
      using n by (intro min_absorb2) linarith
    moreover have "min (unat a * u64_max) u64_max = u64_max"
      using False by (intro min_absorb2) simp
    ultimately show ?thesis using n by (simp add: sat_simps)
  qed (simp add: sat_simps)
qed

lemma delay_for_attempt_backoff:
  "delay_for_attempt cfg attempt = (let w = of_nat (backoff cfg attempt) :: 64 word
     in try_seconds (min (sint w) MAX_CHRONO_SECONDS))"
proof -
  define w where "w = (case map_option as_secs (max_retry_interval cfg) of
      None \<Rightarrow> saturating_mul (as_secs (retry_interval cfg)) (saturating_pow2 attempt)
    | Some limit \<Rightarrow> min (saturating_mul (as_secs (retry_interval cfg)) (saturating_pow2 attempt)) limit)"
  have "unat w = backoff cfg attempt"
    by (simp add: w_def backoff_def saturating_mul_pow2 unat_min_word split: option.splits)
  then have w: "of_nat (backoff cfg attempt) = w"
    using word_of_nat_unat by metis
  show ?thesis unfolding w Let_def by (simp only: delay_for_attempt_def Let_def w_def)
qed

lemma backoff_u64: "backoff cfg attempt < 2 ^ 64"
  by (auto simp: backoff_def Let_def min_def split: option.splits)

lemma delay_for_attempt_small:
  assumes "backoff cfg attempt < 2 ^ 63"
  shows "delay_for_attempt cfg attempt = Some (min (int (backoff cfg attempt)) MAX_CHRONO_SECONDS * chrono_nanos)"
proof -
  have "unat (of_nat (backoff cfg attempt) :: 64 word) = backoff cfg attempt"
    using backoff_u64 by (simp add: unsigned_of_nat take_bit_nat_eq_self)
  then have "sint (of_nat (backoff cfg attempt) :: 64 word) = int (backoff cfg attempt)"
    using assms sint_small by metis
  moreover have "0 \<le> MAX_CHRONO_SECONDS" by (simp add: MAX_CHRONO_SECONDS_def)
  ultimately show ?thesis
    unfolding delay_for_attempt_backoff Let_def try_seconds_def by simp
qed

lemma backoff_capped:
  assumes "max_retry_interval cfg = Some cap" "cap div nanos < 2 ^ 63"
  shows "backoff cfg attempt \<le> cap div nanos"
  using assms unat_as_secs[of cap] by (simp add: backoff_def Let_def)

lemma backoff_mono: "a \<le> b \<Longrightarrow> backoff cfg a \<le> backoff cfg b"
proof -
  assume "a \<le> b"
  then have "unat (as_secs (retry_interval cfg)) * 2 ^ a \<le> unat (as_secs (retry_interval cfg)) * (2::nat) ^ b"
    by (intro mult_left_mono power_increasing) simp_all
  then show ?thesis
    unfolding backoff_def Let_def
    by (cases "max_retry_interval cfg") (simp_all only: option.case min.mono order_refl)
qed

subsection \<open>Inferring the number of attempts\<close>

text \<open>Without a cap and within chrono's range the delays double: after \<open>k\<close> attempts
  \<open>r * (2 ^ k - 1)\<close> seconds have gone by.\<close>

abbreviation gone_by :: "nat \<Rightarrow> nat \<Rightarrow> int" where
  "gone_by r k \<equiv> int r * (2 ^ k - 1) * chrono_nanos"

lemma delay_for_attempt_capped_eq:
  assumes "max_retry_interval cfg = Some cap" "cap div nanos < 2 ^ 63" "retry_interval cfg div nanos < 2 ^ 64"
  shows "delay_for_attempt cfg a = Some (min (int (min (retry_interval cfg div nanos * 2 ^ a) (cap div nanos)))
      MAX_CHRONO_SECONDS * chrono_nanos)"
proof -
  have small: "backoff cfg a < 2 ^ 63"
    using backoff_capped[OF assms(1,2), of a] assms(2) by linarith
  have "backoff cfg a = min (min (retry_interval cfg div nanos * 2 ^ a) u64_max) (cap div nanos)"
    using assms unat_as_secs[of cap] unat_as_secs[of "retry_interval cfg"] by (simp add: backoff_def)
  also have "\<dots> = min (retry_interval cfg div nanos * 2 ^ a) (cap div nanos)"
    using assms(2) by (simp add: min.assoc)
  finally show ?thesis unfolding delay_for_attempt_small[OF small] by simp
qed

lemma gone_by_Suc: "gone_by r (Suc k) = gone_by r k + int r * 2 ^ k * chrono_nanos"
  by (simp add: algebra_simps)

definition uncapped :: "queue_config \<Rightarrow> nat \<Rightarrow> bool" where
  "uncapped cfg r \<longleftrightarrow> max_retry_interval cfg = None \<and> retry_interval cfg div nanos = r \<and> 0 < r"

lemma delay_uncapped:
  assumes "uncapped cfg r" "int r * 2 ^ k \<le> MAX_CHRONO_SECONDS"
  shows "delay_for_attempt cfg k = Some (int r * 2 ^ k * chrono_nanos)"
proof -
  have "int (r * 2 ^ k) \<le> 9223372036854775"
    using assms(2) by (simp add: MAX_CHRONO_SECONDS_def)
  then have le: "r * 2 ^ k \<le> 9223372036854775" by linarith
  have "1 \<le> (2::nat) ^ k" by simp
  then have "r \<le> r * 2 ^ k" by (metis mult.right_neutral mult_le_mono2)
  then have "r \<le> 9223372036854775" using le by (rule order_trans)
  then have "r < 2 ^ 64" by simp
  then have "unat (as_secs (retry_interval cfg)) = r"
    using assms(1) unat_as_secs[of "retry_interval cfg"] by (simp add: uncapped_def)
  then have b: "backoff cfg k = r * 2 ^ k"
    using le assms(1) by (simp add: backoff_def uncapped_def)
  then have "backoff cfg k < 2 ^ 63" using le by simp
  from delay_for_attempt_small[OF this] show ?thesis using assms(2) by (simp add: b)
qed

lemma unat_of_nat16: "n < 2 ^ 16 \<Longrightarrow> unat (of_nat n :: 16 word) = n"
  by (simp add: unsigned_of_nat take_bit_nat_eq_self)

lemma delay_step:
  assumes "uncapped cfg r" "2 * age + int r * chrono_nanos \<le> MAX_CHRONO_SECONDS * chrono_nanos"
    and "gone_by r k \<le> age"
  shows "delay_for_attempt cfg k = Some (int r * 2 ^ k * chrono_nanos)"
    "chrono_add (gone_by r k) (int r * 2 ^ k * chrono_nanos) = Some (gone_by r (Suc k))"
proof -
  define x where "x = int r * 2 ^ k"
  have gb: "gone_by r k = (x - int r) * chrono_nanos" by (simp add: x_def algebra_simps)
  have r: "0 \<le> int r" "int r \<le> x" by (simp_all add: x_def mult_le_cancel_left1)
  have "x \<le> MAX_CHRONO_SECONDS" using assms(2,3) gb r by simp
  then show "delay_for_attempt cfg k = Some (int r * 2 ^ k * chrono_nanos)"
    using delay_uncapped[OF assms(1)] x_def by blast
  have "gone_by r (Suc k) = (x - int r) * chrono_nanos + x * chrono_nanos"
    using gone_by_Suc[of r k] gb x_def by simp
  moreover have "chrono_valid ((x - int r) * chrono_nanos + x * chrono_nanos)"
    using assms(2,3) gb r by (simp add: chrono_valid_def MAX_CHRONO_SECONDS_def)
  ultimately show "chrono_add (gone_by r k) (int r * 2 ^ k * chrono_nanos) = Some (gone_by r (Suc k))"
    using gb x_def by (simp add: chrono_add_def)
qed

lemma infer_loop_returns:
  assumes u: "uncapped cfg r"
    and age: "0 \<le> age" "2 * age + int r * chrono_nanos \<le> MAX_CHRONO_SECONDS * chrono_nanos"
  shows "gone_by r k \<le> age \<Longrightarrow> age < gone_by r (Suc (k + j)) \<Longrightarrow> k + j < 2 ^ 16 \<Longrightarrow>
    \<exists>n. infer_loop cfg age (gone_by r k) (of_nat k) = Some (of_nat n) \<and> n < 2 ^ 16
      \<and> gone_by r n \<le> age \<and> age < gone_by r (Suc n)"
proof (induction j arbitrary: k)
  case (0 k)
  note D = delay_step[OF u age(2) 0(1)]
  have "infer_loop cfg age (gone_by r k) (of_nat k) = Some (of_nat k)"
    using 0 D by (subst infer_loop.simps) (simp add: unat_of_nat16)
  then show ?case using 0 by auto
next
  case (Suc j k)
  note D = delay_step[OF u age(2) Suc.prems(1)]
  show ?case
  proof (cases "age < gone_by r (Suc k)")
    case True
    then have "infer_loop cfg age (gone_by r k) (of_nat k) = Some (of_nat k)"
      using Suc.prems D by (subst infer_loop.simps) (simp add: unat_of_nat16)
    then show ?thesis using Suc.prems True by (intro exI[of _ k]) simp
  next
    case False
    then have "infer_loop cfg age (gone_by r k) (of_nat k)
        = infer_loop cfg age (gone_by r (Suc k)) (of_nat (Suc k))"
      using Suc.prems D by (subst infer_loop.simps) (simp add: unat_of_nat16 add.commute)
    then show ?thesis using Suc.IH[of "Suc k"] False Suc.prems by simp
  qed
qed

lemma pow2_exceeds:
  assumes "0 < r" "0 \<le> age" "age \<le> MAX_CHRONO_SECONDS * chrono_nanos"
  shows "age < gone_by r (Suc 63)"
proof -
  have "age \<le> 9223372036854775 * chrono_nanos" using assms(3) by (simp add: MAX_CHRONO_SECONDS_def)
  also have "\<dots> < 1 * (2 ^ Suc 63 - 1) * chrono_nanos" by simp
  also have "\<dots> \<le> gone_by r (Suc 63)"
    using assms(1) by (intro mult_right_mono) simp_all
  finally show ?thesis .
qed

lemma infer_loop_stuck:
  assumes "infer_loop cfg age elapsed n = Some m"
  shows "elapsed = 0 \<longrightarrow> 0 \<le> age \<longrightarrow> retry_interval cfg div nanos = 0 \<longrightarrow> False"
proof (rule infer_loop.raw_induct[OF _ assms])
  fix loop and cfg :: queue_config and age elapsed :: int and n m :: "16 word"
  assume IH: "\<And>cfg age elapsed n m. loop cfg age elapsed n = Some m \<Longrightarrow>
      elapsed = 0 \<longrightarrow> 0 \<le> age \<longrightarrow> retry_interval cfg div nanos = 0 \<longrightarrow> False"
    and step: "delay_for_attempt cfg (unat n) \<bind> (\<lambda>delay. chrono_add elapsed delay \<bind>
      (\<lambda>total. if age < total then Some n else loop cfg age total (n + 1))) = Some m"
  have "delay_for_attempt cfg (unat n) = Some 0" if "retry_interval cfg div nanos = 0"
  proof -
    have "backoff cfg (unat n) = 0" using that by (simp add: backoff_def as_secs_def split: option.splits)
    then show ?thesis using delay_for_attempt_small[of cfg "unat n"] by (simp add: MAX_CHRONO_SECONDS_def)
  qed
  moreover have "chrono_add 0 0 = Some 0" by (simp add: chrono_add_def chrono_valid_def)
  ultimately show "elapsed = 0 \<longrightarrow> 0 \<le> age \<longrightarrow> retry_interval cfg div nanos = 0 \<longrightarrow> False"
    using step IH[of cfg age 0 "n + 1" m] by (intro impI) simp
qed

section \<open>Properties\<close>

text \<open>C10. With a cap on the retry interval that fits an \<^verbatim>\<open>i64\<close>, the delay never panics for any attempt
  number: it is the base interval doubled per attempt, up to the cap and to the largest chrono
  duration, so it is never negative and never shrinks.\<close>

theorem delay_for_attempt_capped:
  assumes "max_retry_interval cfg = Some cap" "cap div nanos < 2 ^ 63" "retry_interval cfg div nanos < 2 ^ 64"
  shows "delay_for_attempt cfg a = Some (min (int (min (retry_interval cfg div nanos * 2 ^ a) (cap div nanos)))
      MAX_CHRONO_SECONDS * chrono_nanos)
    \<and> (\<forall>b d. a \<le> b \<longrightarrow> delay_for_attempt cfg b = Some d \<longrightarrow> the (delay_for_attempt cfg a) \<le> d \<and> 0 \<le> d)"
proof -
  have small: "backoff cfg x < 2 ^ 63" for x
    using backoff_capped[OF assms(1,2), of x] assms(2) by linarith
  have "0 \<le> MAX_CHRONO_SECONDS" by (simp add: MAX_CHRONO_SECONDS_def)
  moreover have "min (int (backoff cfg a)) MAX_CHRONO_SECONDS \<le> min (int (backoff cfg x)) MAX_CHRONO_SECONDS"
    if "a \<le> x" for x
    using backoff_mono[OF that] by (intro min.mono) simp_all
  ultimately show ?thesis
    using delay_for_attempt_capped_eq[OF assms, of a] unfolding delay_for_attempt_small[OF small] by auto
qed

theorem delay_for_attempt_capped_witness:
  "delay_for_attempt (default_queue_config\<lparr>max_retry_interval := Some (7200 * nanos)\<rparr>) 100 = Some (7200 * chrono_nanos)"
  using delay_for_attempt_capped[of "default_queue_config\<lparr>max_retry_interval := Some (7200 * nanos)\<rparr>" "7200 * nanos" 100]
  by (simp add: default_queue_config_def default_retry_interval_def MAX_CHRONO_SECONDS_def)

text \<open>Without a cap the saturated \<^verbatim>\<open>u64\<close> is cast to \<^verbatim>\<open>i64\<close> before it is clamped: with the default
  configuration attempt 53 panics on a negative duration out of range, and attempt 54 is scheduled one
  second in the past.\<close>

theorem delay_for_attempt_cast_negative:
  "delay_for_attempt default_queue_config 53 = None
   \<and> delay_for_attempt default_queue_config 54 = Some (- 1 * chrono_nanos)"
  unfolding delay_for_attempt_def default_queue_config_def default_retry_interval_def as_secs_def
    saturating_mul_def saturating_pow2_def try_seconds_def MAX_CHRONO_SECONDS_def Let_def
  by (rule conjI) (simp add: sint_uint, simp)

text \<open>C9. \<^verbatim>\<open>compute_delay_based_on_age\<close> never schedules past the queue's maximum age: a delay it returns is
  not negative, and the message's age when it falls due is below \<^verbatim>\<open>max_age\<close>; and it is the same delay
  that the variant which ignores \<^verbatim>\<open>max_age\<close> computes.\<close>

theorem compute_delay_within_max_age:
  assumes "compute_delay_based_on_age cfg n age = Some (Some d)"
  shows "0 \<le> d \<and> age + d < int (max_age cfg)
    \<and> compute_delay_based_on_age_ignoring_max_age cfg n age = Some d"
  using assms
  by (auto simp: compute_delay_based_on_age_def compute_delay_based_on_age_ignoring_max_age_def
      get_max_age_def delay_from_now_def split: if_splits bind_splits)

theorem compute_delay_within_max_age_witness:
  "0 \<le> (2400 * chrono_nanos) \<and> 0 + 2400 * chrono_nanos < int (max_age default_queue_config)"
proof -
  have "delay_for_attempt default_queue_config 1 = Some (2400 * chrono_nanos)"
    using delay_uncapped[of default_queue_config 1200 1]
    by (simp add: uncapped_def default_queue_config_def default_retry_interval_def MAX_CHRONO_SECONDS_def)
  then have "compute_delay_based_on_age default_queue_config 2 0 = Some (Some (2400 * chrono_nanos))"
    by (simp add: compute_delay_based_on_age_def get_max_age_def overall_delay_def default_queue_config_def
        default_max_age_def chrono_valid_def try_seconds_def MAX_CHRONO_SECONDS_def delay_from_now_def
        upt_rec sint_uint)
  from compute_delay_within_max_age[OF this] show ?thesis by simp
qed

text \<open>C8. \<^verbatim>\<open>infer_num_attempts\<close> returns, for a retry interval \<open>r\<close> of at least a second without a cap and a message age in
  chrono's range, the number of whole backoff periods that fit the age: the schedule's elapsed time
  after that many attempts is within the age, and after one more it is not.\<close>

theorem infer_num_attempts_exact:
  assumes "uncapped cfg r" "0 \<le> age" "2 * age + int r * chrono_nanos \<le> MAX_CHRONO_SECONDS * chrono_nanos"
  shows "\<exists>n < 2 ^ 16. infer_num_attempts cfg age = Some (of_nat n) \<and> gone_by r n \<le> age \<and> age < gone_by r (Suc n)"
proof -
  have "0 < r" using assms(1) by (simp add: uncapped_def)
  moreover have "age \<le> MAX_CHRONO_SECONDS * chrono_nanos" using assms(2,3) by linarith
  ultimately have "age < gone_by r (Suc 63)" using assms(2) pow2_exceeds by blast
  then show ?thesis
    using infer_loop_returns[OF assms, of 0 63] assms(2) by (auto simp: infer_num_attempts_def)
qed

theorem infer_num_attempts_exact_witness:
  "\<exists>n < 2 ^ 16. infer_num_attempts default_queue_config (4000 * chrono_nanos) = Some (of_nat n)
     \<and> gone_by 1200 n \<le> 4000 * chrono_nanos \<and> 4000 * chrono_nanos < gone_by 1200 (Suc n)"
  using infer_num_attempts_exact[of default_queue_config 1200 "4000 * chrono_nanos"]
  by (simp add: uncapped_def default_queue_config_def default_retry_interval_def MAX_CHRONO_SECONDS_def)



end
