(* ===== verification/Queue_Name.thy ===== *)
theory Queue_Name
  imports Kumo_Prelude
begin

text \<open>
  The names of scheduled queues, \<^verbatim>\<open>crates/message/src/queue_name.rs\<close>:
  \<^verbatim>\<open>campaign:tenant@domain!routing_domain\<close>, every part but the domain optional.
\<close>

section \<open>Model\<close>

record queue_name_components =
  campaign :: "string option"
  tenant :: "string option"
  domain :: string
  routing_domain :: "string option"

definition crack_domain :: "string \<Rightarrow> string \<times> string option" where
  "crack_domain d = (case split_once CHR ''!'' d of Some (d', rd) \<Rightarrow> (d', Some rd) | None \<Rightarrow> (d, None))"

definition parse_queue_name :: "string \<Rightarrow> queue_name_components" where
  "parse_queue_name name =
     (case split_once CHR ''@'' name of
        Some (pre, dmn) \<Rightarrow>
          (case split_once CHR '':'' pre of
             Some (camp, ten) \<Rightarrow>
               (let (d, rd) = crack_domain dmn
                in \<lparr>campaign = Some camp, tenant = Some ten, domain = d, routing_domain = rd\<rparr>)
           | None \<Rightarrow>
               (let (d, rd) = crack_domain dmn
                in \<lparr>campaign = None, tenant = Some pre, domain = d, routing_domain = rd\<rparr>))
      | None \<Rightarrow>
          (let (d, rd) = crack_domain name
           in \<lparr>campaign = None, tenant = None, domain = d, routing_domain = rd\<rparr>))"

definition format_queue_name ::
  "string option \<Rightarrow> string option \<Rightarrow> string \<Rightarrow> string option \<Rightarrow> string" where
  "format_queue_name camp ten dmn rdom =
     (let rd = (case rdom of Some r \<Rightarrow> ''!'' @ r | None \<Rightarrow> [])
      in case (camp, ten) of
           (Some c, Some t) \<Rightarrow> c @ '':'' @ t @ ''@'' @ dmn @ rd
         | (Some c, None) \<Rightarrow> c @ '':@'' @ dmn @ rd
         | (None, Some t) \<Rightarrow> t @ ''@'' @ dmn @ rd
         | (None, None) \<Rightarrow> dmn @ rd)"

definition queue_name_to_string :: "queue_name_components \<Rightarrow> string" where
  "queue_name_to_string q = format_queue_name (campaign q) (tenant q) (domain q) (routing_domain q)"

text \<open>The components whose delimiters are unambiguous: no campaign without a tenant, no delimiter
  where the parser would look for one.\<close>

definition queue_name_ok :: "queue_name_components \<Rightarrow> bool" where
  "queue_name_ok q \<longleftrightarrow>
     CHR ''!'' \<notin> set (domain q) \<and>
     (case (campaign q, tenant q) of
        (Some c, Some t) \<Rightarrow> CHR '':'' \<notin> set c \<and> CHR ''@'' \<notin> set c \<and> CHR ''@'' \<notin> set t
      | (Some c, None) \<Rightarrow> False
      | (None, Some t) \<Rightarrow> CHR '':'' \<notin> set t \<and> CHR ''@'' \<notin> set t
      | (None, None) \<Rightarrow> CHR ''@'' \<notin> set (domain q)
          \<and> (case routing_domain q of None \<Rightarrow> True | Some r \<Rightarrow> CHR ''@'' \<notin> set r))"

section \<open>Helper lemmas\<close>

lemma crack_domain_join:
  "CHR ''!'' \<notin> set d \<Longrightarrow>
     crack_domain (d @ (case rd of Some r \<Rightarrow> ''!'' @ r | None \<Rightarrow> [])) = (d, rd)"
  using split_once_append[of "CHR ''!''" d] split_once_None_iff[of "CHR ''!''" d]
  by (cases rd) (simp_all add: crack_domain_def)

lemma crack_domain_inv:
  "crack_domain s = (d, rd) \<Longrightarrow> d @ (case rd of Some r \<Rightarrow> ''!'' @ r | None \<Rightarrow> []) = s
     \<and> CHR ''!'' \<notin> set d"
  by (auto simp: crack_domain_def split_once_Some_iff split_once_None_iff split: option.splits)

lemma split_at_first:
  "CHR ''@'' \<notin> set a \<Longrightarrow> split_once CHR ''@'' (a @ ''@'' @ b) = Some (a, b)"
  "CHR '':'' \<notin> set a \<Longrightarrow> split_once CHR '':'' (a @ '':'' @ b) = Some (a, b)"
  using split_once_append by simp_all

lemma queue_name_print_parse:
  assumes "queue_name_ok q"
  shows "parse_queue_name (queue_name_to_string q) = q"
proof -
  let ?d = "domain q @ (case routing_domain q of Some r \<Rightarrow> ''!'' @ r | None \<Rightarrow> [])"
  have d: "crack_domain ?d = (domain q, routing_domain q)"
    using assms by (simp add: crack_domain_join queue_name_ok_def)
  have none: "split_once CHR ''@'' ?d = None" if "campaign q = None" "tenant q = None"
    using assms that by (auto simp: queue_name_ok_def split_once_None_iff split: option.splits)
  have at: "split_once CHR ''@'' ((c @ '':'' @ t) @ ''@'' @ ?d) = Some (c @ '':'' @ t, ?d)"
    if "campaign q = Some c" "tenant q = Some t" for c t
    using assms that by (intro split_at_first) (simp add: queue_name_ok_def)
  have nocolon: "split_once CHR '':'' t = None" if "campaign q = None" "tenant q = Some t" for t
    using assms that by (simp add: queue_name_ok_def split_once_None_iff)
  show ?thesis
    using assms d none at nocolon split_at_first
    by (cases "campaign q"; cases "tenant q")
      (simp_all add: parse_queue_name_def queue_name_to_string_def format_queue_name_def
        queue_name_ok_def Let_def)
qed

lemma queue_name_parse_ok: "queue_name_to_string (parse_queue_name s) = s"
proof (cases "split_once CHR ''@'' s")
  case None
  then show ?thesis
    using crack_domain_inv[of s]
    by (cases "crack_domain s")
      (simp add: parse_queue_name_def queue_name_to_string_def format_queue_name_def)
next
  case (Some p)
  obtain pre dmn where p: "p = (pre, dmn)" by (cases p)
  then have s: "s = pre @ CHR ''@'' # dmn" using Some by (simp add: split_once_Some_iff)
  obtain d rd where d: "crack_domain dmn = (d, rd)" by (cases "crack_domain dmn")
  note dom = crack_domain_inv[OF d, THEN conjunct1]
  show ?thesis
  proof (cases "split_once CHR '':'' pre")
    case None
    then have "parse_queue_name s = \<lparr>campaign = None, tenant = Some pre, domain = d, routing_domain = rd\<rparr>"
      using Some p d by (simp add: parse_queue_name_def)
    then show ?thesis using s dom by (simp add: queue_name_to_string_def format_queue_name_def)
  next
    case (Some ct)
    obtain c t where ct: "ct = (c, t)" by (cases ct)
    then have "pre = c @ CHR '':'' # t" using Some by (simp add: split_once_Some_iff)
    moreover have "parse_queue_name s
        = \<lparr>campaign = Some c, tenant = Some t, domain = d, routing_domain = rd\<rparr>"
      using \<open>split_once CHR ''@'' s = Some p\<close> p d Some ct by (simp add: parse_queue_name_def)
    ultimately show ?thesis using s dom by (simp add: queue_name_to_string_def format_queue_name_def)
  qed
qed

interpretation queue_name_codec: codec queue_name_to_string parse_queue_name "\<lambda>q. q" queue_name_ok
  by unfold_locales (simp_all add: queue_name_print_parse)

section \<open>Properties\<close>


text \<open>Components without ambiguous delimiters survive printing and parsing, and two different ones name
  different queues: messages of different tenants, campaigns or domains never share one.\<close>

theorem queue_name_print_injective:
  assumes "queue_name_ok q"
  shows "parse_queue_name (queue_name_to_string q) = q
    \<and> (queue_name_ok r \<longrightarrow> (queue_name_to_string q = queue_name_to_string r \<longleftrightarrow> q = r))"
  using queue_name_codec.round_trip[OF assms] queue_name_codec.print_iff[OF assms, of r] by blast

theorem queue_name_print_injective_witness:
  "parse_queue_name (queue_name_to_string
      \<lparr>campaign = Some ''c'', tenant = Some ''t'', domain = ''d.com'', routing_domain = Some ''r''\<rparr>)
    = \<lparr>campaign = Some ''c'', tenant = Some ''t'', domain = ''d.com'', routing_domain = Some ''r''\<rparr>"
  using queue_name_print_injective[of
      "\<lparr>campaign = Some ''c'', tenant = Some ''t'', domain = ''d.com'', routing_domain = Some ''r''\<rparr>"]
  by (simp add: queue_name_ok_def)

text \<open>A campaign without a tenant does not survive: for any campaign without delimiters and any
  domain, the name \<^verbatim>\<open>campaign:@domain\<close> that \<^verbatim>\<open>format\<close> builds is parsed as having the empty tenant.\<close>

theorem queue_name_tenantless_campaign:
  assumes "CHR '':'' \<notin> set c" "CHR ''@'' \<notin> set c"
  shows "campaign (parse_queue_name (format_queue_name (Some c) None d rd)) = Some c
    \<and> tenant (parse_queue_name (format_queue_name (Some c) None d rd)) = Some ''''"
proof -
  let ?d = "d @ (case rd of Some r \<Rightarrow> ''!'' @ r | None \<Rightarrow> [])"
  have at: "split_once CHR ''@'' ((c @ '':'') @ ''@'' @ ?d) = Some (c @ '':'', ?d)"
    using assms by (intro split_at_first) simp
  have colon: "split_once CHR '':'' (c @ '':'' @ '''') = Some (c, '''')"
    using assms split_at_first(2) by blast
  show ?thesis
    using at colon by (simp add: parse_queue_name_def format_queue_name_def Let_def split: prod.splits)
qed

theorem queue_name_tenantless_campaign_witness:
  "tenant (parse_queue_name (format_queue_name (Some ''c'') None ''d'' None)) = Some ''''"
  using queue_name_tenantless_campaign[of "''c''" "''d''" None] by simp

end
