(* ===== verification/Scheduling.thy ===== *)
theory Scheduling
  imports Kumo_Prelude
begin

unbundle bit_operations_syntax

text \<open>
  The delivery windows of a message (\<^verbatim>\<open>crates/message/src/scheduling.rs\<close>): a restriction to days of
  the week and to a time window within the day, a first attempt time and an expiry.

  An instant is the number of nanoseconds since the epoch.  The \<^verbatim>\<open>chrono\<close> and \<^verbatim>\<open>chrono_tz\<close>
  packages are a parameter: a time zone is what the code asks of it, the local date and the weekday
  of an instant and the instants of a local date and time (none in the gap a clock change leaves, two
  where it repeats an hour).
\<close>

section \<open>Days of the week\<close>

datatype weekday = Mon | Tue | Wed | Thu | Fri | Sat | Sun

type_synonym days_of_week = "8 word"

fun dow_of_weekday :: "weekday \<Rightarrow> days_of_week" where
  "dow_of_weekday Mon = 1"
| "dow_of_weekday Tue = 2"
| "dow_of_weekday Wed = 4"
| "dow_of_weekday Thu = 8"
| "dow_of_weekday Fri = 16"
| "dow_of_weekday Sat = 32"
| "dow_of_weekday Sun = 64"

definition dow_contains :: "days_of_week \<Rightarrow> days_of_week \<Rightarrow> bool" where
  "dow_contains ds d = (ds AND d = d)"

definition DAYS :: "(string \<times> days_of_week) list" where
  "DAYS = [(''Monday'', 1), (''Tuesday'', 2), (''Wednesday'', 4), (''Thursday'', 8), (''Friday'', 16),
           (''Saturday'', 32), (''Sunday'', 64)]"

definition dow_label :: "string \<Rightarrow> string \<times> days_of_week \<Rightarrow> bool" where
  "dow_label s = (\<lambda>(label, _).
     eq_ignore_ascii_case s label \<or> eq_ignore_ascii_case s (take 3 label))"

fun dow_parse_loop :: "days_of_week \<Rightarrow> string list \<Rightarrow> (string, days_of_week) result" where
  "dow_parse_loop ds [] = Inr ds"
| "dow_parse_loop ds (s # ss) =
     (case find (dow_label s) DAYS of
        Some (_, v) \<Rightarrow> dow_parse_loop (ds OR v) ss
      | None \<Rightarrow> Inl (''invalid day '' @ [CHR 0x27] @ s @ [CHR 0x27]))"

definition dow_from_str :: "string \<Rightarrow> (string, days_of_week) result" where
  "dow_from_str s = dow_parse_loop 0 (split_on (CHR '','') s)"

fun dow_serialize_loop :: "days_of_week \<Rightarrow> string \<Rightarrow> (string \<times> days_of_week) list \<Rightarrow> string" where
  "dow_serialize_loop ds acc [] = acc"
| "dow_serialize_loop ds acc ((label, v) # rest) =
     dow_serialize_loop ds
       (if dow_contains ds v then (if acc \<noteq> [] then acc @ '','' else acc) @ take 3 label else acc) rest"

definition dow_serialize :: "days_of_week \<Rightarrow> string" where
  "dow_serialize ds = dow_serialize_loop ds [] DAYS"

section \<open>Time zones and restrictions\<close>

record naive_time =
  nt_hour :: nat
  nt_minute :: nat
  nt_second :: nat
  nt_nano :: nat

definition nt_seconds :: "naive_time \<Rightarrow> nat" where
  "nt_seconds t = nt_hour t * 3600 + nt_minute t * 60 + nt_second t"

definition nt_less :: "naive_time \<Rightarrow> naive_time \<Rightarrow> bool" where
  "nt_less a b \<longleftrightarrow> nt_seconds a < nt_seconds b \<or> nt_seconds a = nt_seconds b \<and> nt_nano a < nt_nano b"

datatype local_result = NoTime | Single int | Ambiguous int int

type_synonym ymd = "int \<times> nat \<times> nat"

record tz =
  tz_ymd :: "int \<Rightarrow> ymd"
  tz_weekday :: "int \<Rightarrow> weekday"
  with_ymd_and_hms :: "ymd \<Rightarrow> nat \<Rightarrow> nat \<Rightarrow> nat \<Rightarrow> local_result"

record schedule_restriction =
  days_of_week :: days_of_week
  timezone :: tz
  sr_start :: naive_time
  sr_end :: naive_time

definition single :: "local_result \<Rightarrow> int option" where
  "single r = (case r of Single t \<Rightarrow> Some t | _ \<Rightarrow> None)"

definition start_end_on_day :: "schedule_restriction \<Rightarrow> int \<Rightarrow> (int \<times> int) option" where
  "start_end_on_day r dt =
     (let date = tz_ymd (timezone r) dt in
      case single (with_ymd_and_hms (timezone r) date
             (nt_hour (sr_start r)) (nt_minute (sr_start r)) (nt_second (sr_start r))) of
        None \<Rightarrow> None
      | Some a \<Rightarrow>
          (case single (with_ymd_and_hms (timezone r) date
                 (nt_hour (sr_end r)) (nt_minute (sr_end r)) (nt_second (sr_end r))) of
             None \<Rightarrow> None
           | Some b \<Rightarrow> Some (a, b)))"

record scheduling =
  restriction :: "schedule_restriction option"
  first_attempt :: "int option"
  expires :: "int option"

text \<open>The end of \<^verbatim>\<open>visit_map\<close>: the fields collected from the map, checked together.  The two
  errors carry what their texts name: the two times, and the fields that are missing.\<close>

datatype visit_error = Start_After_End naive_time naive_time | Missing_Fields "string list"

definition visit_restriction ::
  "days_of_week option \<Rightarrow> tz option \<Rightarrow> naive_time option \<Rightarrow> naive_time option
     \<Rightarrow> (visit_error, schedule_restriction option) result" where
  "visit_restriction dow z a b =
     (case (dow, z, a, b) of
        (Some dow', Some z', Some a', Some b') \<Rightarrow>
          if nt_less b' a'
          then Inl (Start_After_End a' b')
          else Inr (Some \<lparr>days_of_week = dow', timezone = z', sr_start = a', sr_end = b'\<rparr>)
      | (None, None, None, None) \<Rightarrow> Inr None
      | _ \<Rightarrow>
          Inl (Missing_Fields
            ((if dow = None then [''dow''] else []) @ (if z = None then [''tz''] else [])
             @ (if a = None then [''start''] else []) @ (if b = None then [''end''] else []))))"

section \<open>Adjusting a due time\<close>

definition one_day :: int where
  "one_day = 86400 * 10 ^ 9"

text \<open>The loop of \<^verbatim>\<open>adjust_for_schedule\<close> with the number of iterations it has left.\<close>

fun adjust_loop :: "nat \<Rightarrow> schedule_restriction \<Rightarrow> int \<Rightarrow> int" where
  "adjust_loop 0 r dt = dt"
| "adjust_loop (Suc n) r dt =
     (case start_end_on_day r dt of
        None \<Rightarrow> adjust_loop n r (dt + one_day)
      | Some (a, b) \<Rightarrow>
          if dow_contains (days_of_week r) (dow_of_weekday (tz_weekday (timezone r) dt)) \<and> dt < a then a
          else if dow_contains (days_of_week r) (dow_of_weekday (tz_weekday (timezone r) dt)) \<and> dt < b then dt
          else adjust_loop n r (a + one_day))"

definition adjust_for_schedule :: "scheduling \<Rightarrow> int \<Rightarrow> int" where
  "adjust_for_schedule s dt =
     (let dt = (case first_attempt s of Some a \<Rightarrow> if dt < a then a else dt | None \<Rightarrow> dt)
      in case restriction s of
           Some r \<Rightarrow> adjust_loop 8 r dt
         | None \<Rightarrow> dt)"

definition is_within_schedule :: "scheduling \<Rightarrow> int \<Rightarrow> bool" where
  "is_within_schedule s dt =
     (if (case first_attempt s of Some a \<Rightarrow> dt < a | None \<Rightarrow> False) then False
      else case restriction s of
        None \<Rightarrow> True
      | Some r \<Rightarrow>
          if \<not> dow_contains (days_of_week r) (dow_of_weekday (tz_weekday (timezone r) dt)) then False
          else (case start_end_on_day r dt of
                  None \<Rightarrow> False
                | Some (a, b) \<Rightarrow> \<not> dt < a \<and> \<not> b \<le> dt))"

section \<open>Zones with a fixed offset\<close>

text \<open>What a time zone without clock changes promises: with a constant offset from UTC, local days are
  all of the same length, a local date and time is exactly one instant, and the weekday follows from
  the number of the day.  Day 0, the first of January 1970, was a Thursday.\<close>

definition weekday_of_day :: "int \<Rightarrow> weekday" where
  "weekday_of_day d = [Thu, Fri, Sat, Sun, Mon, Tue, Wed] ! nat (d mod 7)"

definition fixed_offset :: "tz \<Rightarrow> int \<Rightarrow> (int \<Rightarrow> ymd) \<Rightarrow> bool" where
  "fixed_offset z off date \<longleftrightarrow>
     (\<forall>t. tz_ymd z t = date ((t + off) div one_day)
        \<and> tz_weekday z t = weekday_of_day ((t + off) div one_day))
     \<and> (\<forall>d h m s. with_ymd_and_hms z (date d) h m s
          = Single (d * one_day + int (h * 3600 + m * 60 + s) * 10 ^ 9 - off))"

definition opens :: "schedule_restriction \<Rightarrow> int" where
  "opens r = int (nt_seconds (sr_start r)) * 10 ^ 9"

definition closes :: "schedule_restriction \<Rightarrow> int" where
  "closes r = int (nt_seconds (sr_end r)) * 10 ^ 9"

definition permits_day :: "schedule_restriction \<Rightarrow> int \<Rightarrow> bool" where
  "permits_day r d = dow_contains (days_of_week r) (dow_of_weekday (weekday_of_day d))"

text \<open>A restriction that can be met: some day is permitted and the window is not empty.\<close>

definition satisfiable :: "schedule_restriction \<Rightarrow> bool" where
  "satisfiable r \<longleftrightarrow> (\<exists>w. dow_contains (days_of_week r) (dow_of_weekday w))
     \<and> opens r < closes r \<and> closes r < one_day"

lemma fixed_start_end:
  assumes "fixed_offset (timezone r) off date"
  shows "start_end_on_day r dt =
    (let d = (dt + off) div one_day in
     Some (d * one_day + opens r - off, d * one_day + closes r - off))"
  using assms by (simp add: start_end_on_day_def fixed_offset_def single_def opens_def closes_def
      nt_seconds_def Let_def)

lemma fixed_weekday:
  assumes "fixed_offset (timezone r) off date"
  shows "dow_contains (days_of_week r) (dow_of_weekday (tz_weekday (timezone r) dt))
    = permits_day r ((dt + off) div one_day)"
  using assms by (simp add: fixed_offset_def permits_day_def)

lemma weekday_in_week:
  "\<exists>j. 0 \<le> j \<and> j < 7 \<and> weekday_of_day (d + j) = w"
proof -
  obtain k where k: "(0::int) \<le> k" "k < 7" "[Thu, Fri, Sat, Sun, Mon, Tue, Wed] ! nat k = w"
    by (cases w) (auto intro: that[of 0] that[of 1] that[of 2] that[of 3] that[of 4] that[of 5] that[of 6])
  then have "weekday_of_day (d + (k - d) mod 7) = w"
    by (simp add: weekday_of_day_def mod_simps)
  then show ?thesis by (metis pos_mod_bound pos_mod_sign zero_less_numeral)
qed

lemma day_of_time: "0 \<le> x \<Longrightarrow> x < one_day \<Longrightarrow> (d * one_day + x) div one_day = d"
  by (simp add: div_pos_pos_trivial)

lemma opens_bounds: "satisfiable r \<Longrightarrow> 0 \<le> opens r \<and> opens r < closes r \<and> closes r < one_day"
  by (auto simp: satisfiable_def opens_def)

text \<open>Started at the opening time of day \<open>d\<close>, the loop finds the first permitted day.\<close>

lemma adjust_loop_from_start:
  assumes fo: "fixed_offset (timezone r) off date" and sat: "satisfiable r"
    and "permits_day r (d + int k)" "\<forall>i < k. \<not> permits_day r (d + int i)" "k < n"
  shows "adjust_loop n r (d * one_day + opens r - off) = (d + int k) * one_day + opens r - off"
  using assms(3-5)
proof (induction n arbitrary: d k)
  case (Suc n)
  have day: "(d * one_day + opens r - off + off) div one_day = d"
    using opens_bounds[OF sat] day_of_time[of "opens r" d] by simp
  have step: "adjust_loop (Suc n) r (d * one_day + opens r - off) =
      (if permits_day r d then d * one_day + opens r - off
       else adjust_loop n r ((d + 1) * one_day + opens r - off))"
    using opens_bounds[OF sat]
    by (simp add: fixed_start_end[OF fo] fixed_weekday[OF fo] day Let_def algebra_simps)
  show ?case
  proof (cases k)
    case 0
    then show ?thesis using Suc.prems step by simp
  next
    case (Suc j)
    have "permits_day r ((d + 1) + int j)" using Suc.prems(1) Suc by (simp add: algebra_simps)
    moreover have "\<not> permits_day r ((d + 1) + int i)" if "i < j" for i
      using Suc.prems(2) Suc that by (auto simp: algebra_simps dest!: spec[of _ "Suc i"])
    ultimately have "adjust_loop n r ((d + 1) * one_day + opens r - off)
        = ((d + 1) + int j) * one_day + opens r - off"
      using Suc.IH[of "d + 1" j] Suc.prems(3) Suc by simp
    moreover have "\<not> permits_day r d" using Suc.prems(2) Suc by (auto dest: spec[of _ 0])
    ultimately show ?thesis using step Suc by (simp add: algebra_simps)
  qed
qed simp

definition in_window :: "schedule_restriction \<Rightarrow> int \<Rightarrow> int \<Rightarrow> bool" where
  "in_window r off u \<longleftrightarrow> permits_day r ((u + off) div one_day)
     \<and> opens r \<le> (u + off) mod one_day \<and> (u + off) mod one_day < closes r"

lemma is_within_schedule_fixed:
  assumes "\<And>r. restriction s = Some r \<Longrightarrow> fixed_offset (timezone r) off date"
  shows "is_within_schedule s u \<longleftrightarrow>
    (\<forall>a. first_attempt s = Some a \<longrightarrow> a \<le> u) \<and> (\<forall>r. restriction s = Some r \<longrightarrow> in_window r off u)"
proof (cases "restriction s")
  case (Some r)
  define d p where "d = (u + off) div one_day" and "p = (u + off) mod one_day"
  have u: "u = d * one_day + p - off" unfolding d_def p_def by simp
  have cmp: "u < d * one_day + x - off \<longleftrightarrow> p < x" "d * one_day + x - off \<le> u \<longleftrightarrow> x \<le> p" for x
    using u by simp_all
  show ?thesis
    using Some fixed_start_end[OF assms[OF Some], of u] fixed_weekday[OF assms[OF Some], of u]
    unfolding is_within_schedule_def in_window_def Let_def d_def[symmetric] p_def[symmetric]
    by (auto simp: cmp split: option.splits)
qed (auto simp: is_within_schedule_def split: option.splits)

text \<open>The first permitted day from \<open>d\<close> on is at most six days away.\<close>

lemma next_permitted_day:
  assumes "satisfiable r"
  obtains k where "permits_day r (d + int k)" "\<forall>i < k. \<not> permits_day r (d + int i)" "k < 7"
proof -
  obtain w where "dow_contains (days_of_week r) (dow_of_weekday w)"
    using assms by (auto simp: satisfiable_def)
  moreover obtain j where "0 \<le> j" "j < 7" "weekday_of_day (d + j) = w"
    using weekday_in_week by blast
  ultimately have j: "permits_day r (d + int (nat j))" "nat j < 7" by (auto simp: permits_day_def)
  define k where "k = (LEAST i. permits_day r (d + int i))"
  have "permits_day r (d + int k)" "k \<le> nat j"
    unfolding k_def using LeastI[of "\<lambda>i. permits_day r (d + int i)", OF j(1)]
      Least_le[of "\<lambda>i. permits_day r (d + int i)", OF j(1)] by simp_all
  moreover have "\<forall>i < k. \<not> permits_day r (d + int i)"
    unfolding k_def using not_less_Least by blast
  ultimately show thesis using that[of k] j(2) by simp
qed

lemma adjust_loop_first:
  assumes fo: "fixed_offset (timezone r) off date" and sat: "satisfiable r"
  shows "adjust_loop (Suc n) r dt =
    (let d = (dt + off) div one_day; p = (dt + off) mod one_day in
     if permits_day r d \<and> p < opens r then d * one_day + opens r - off
     else if permits_day r d \<and> p < closes r then dt
     else adjust_loop n r ((d + 1) * one_day + opens r - off))"
proof -
  define d p where "d = (dt + off) div one_day" and "p = (dt + off) mod one_day"
  have dt: "dt = d * one_day + p - off" unfolding d_def p_def by simp
  have unf: "adjust_loop (Suc n) r dt =
     (if permits_day r d \<and> dt < d * one_day + opens r - off then d * one_day + opens r - off
      else if permits_day r d \<and> dt < d * one_day + closes r - off then dt
      else adjust_loop n r (d * one_day + opens r - off + one_day))"
    by (simp add: fixed_start_end[OF fo] fixed_weekday[OF fo] Let_def flip: d_def)
  have nxt: "d * one_day + opens r - off + one_day = (d + 1) * one_day + opens r - off"
    by (simp add: algebra_simps)
  have cmp: "dt < d * one_day + x - off \<longleftrightarrow> p < x" for x using dt by simp
  show ?thesis unfolding Let_def d_def[symmetric] p_def[symmetric] unf nxt cmp ..
qed

lemma day_order: "a \<le> (b::int) \<Longrightarrow> a div one_day \<le> b div one_day"
  by (simp add: one_day_def zdiv_mono1)

lemma time_split: "x div one_day * one_day \<le> x" "x mod one_day = x - x div one_day * one_day"
  by (simp_all add: one_day_def minus_div_mult_eq_mod[symmetric] div_times_less_eq_dividend)

lemma in_window_at_opening:
  "satisfiable r \<Longrightarrow> in_window r off (e * one_day + opens r - off) = permits_day r e"
  using opens_bounds[of r] day_of_time[of "opens r" e] by (simp add: in_window_def mod_pos_pos_trivial)

lemma not_in_window_before_opening:
  assumes "satisfiable r" "u + off < e * one_day + opens r" "e * one_day \<le> u + off"
  shows "\<not> in_window r off u"
proof -
  have "(u + off) div one_day = e"
    using assms opens_bounds[OF assms(1)] day_of_time[of "u + off - e * one_day" e] by simp
  then show ?thesis using assms time_split(2)[of "u + off"] by (simp add: in_window_def)
qed

text \<open>No instant is permitted between the end of the window of day \<open>d\<close> and the opening of the next
  permitted day.\<close>

lemma not_in_window_between:
  assumes sat: "satisfiable r" and k: "\<forall>i < k. \<not> permits_day r (d + 1 + int i)"
    and past: "\<not> permits_day r d \<or> d * one_day + closes r \<le> u + off"
    and u: "d * one_day \<le> u + off" "u + off < (d + 1 + int k) * one_day + opens r"
  shows "\<not> in_window r off u"
proof -
  define e where "e = (u + off) div one_day"
  have e: "e * one_day \<le> u + off" "(u + off) mod one_day = u + off - e * one_day"
    unfolding e_def by (rule time_split)+
  have "d \<le> e" using day_order[OF u(1)] by (simp add: e_def one_day_def)
  have "u + off < (d + 2 + int k) * one_day" using u(2) opens_bounds[OF sat] by (simp add: algebra_simps)
  then have "e < d + 2 + int k" unfolding e_def by (simp add: one_day_def div_less_iff_less_mult)
  then consider "e = d" | i where "i < k" "e = d + 1 + int i" | "e = d + 1 + int k"
    using \<open>d \<le> e\<close> zle_iff_zadd[of "d + 1" e] by force
  then show ?thesis
  proof cases
    case 1
    then show ?thesis using past e by (auto simp: in_window_def simp flip: e_def)
  next
    case 2
    then show ?thesis using k by (simp add: in_window_def flip: e_def)
  next
    case 3
    then show ?thesis using not_in_window_before_opening[OF sat u(2)] e(1) by simp
  qed
qed

text \<open>With a fixed offset the loop returns the earliest permitted instant.\<close>

lemma adjust_loop_earliest:
  fixes dt :: int
  assumes fo: "fixed_offset (timezone r) off date" and sat: "satisfiable r"
  defines "t \<equiv> adjust_loop 8 r dt"
  shows "dt \<le> t \<and> in_window r off t \<and> (\<forall>u. dt \<le> u \<and> u < t \<longrightarrow> \<not> in_window r off u)"
proof -
  define d p where "d = (dt + off) div one_day" and "p = (dt + off) mod one_day"
  have l: "dt + off = d * one_day + p" by (simp add: d_def p_def)
  have p: "0 \<le> p" "p < one_day" by (simp_all add: p_def one_day_def)
  note ob = opens_bounds[OF sat]
  have first: "t = (if permits_day r d \<and> p < opens r then d * one_day + opens r - off
     else if permits_day r d \<and> p < closes r then dt
     else adjust_loop 7 r ((d + 1) * one_day + opens r - off))"
    unfolding t_def d_def p_def using adjust_loop_first[OF fo sat, of 7 dt] by (simp add: Let_def)
  consider "permits_day r d" "p < opens r" | "permits_day r d" "opens r \<le> p" "p < closes r"
    | "\<not> permits_day r d \<or> closes r \<le> p" by linarith
  then show ?thesis
  proof cases
    case 1
    then have t: "t = d * one_day + opens r - off" using first by simp
    then have "\<not> in_window r off u" if "dt \<le> u" "u < t" for u
      using that l p by (intro not_in_window_before_opening[OF sat, of _ _ d]) auto
    then show ?thesis using 1 t l in_window_at_opening[OF sat, of off d] by simp
  next
    case 2
    then have "t = dt" using first by simp
    moreover have "in_window r off dt"
      using 2 unfolding in_window_def d_def[symmetric] p_def[symmetric] by simp
    ultimately show ?thesis by auto
  next
    case 3
    obtain k where k: "permits_day r (d + 1 + int k)" "\<forall>i < k. \<not> permits_day r (d + 1 + int i)" "k < 7"
      using next_permitted_day[OF sat] by blast
    have t: "t = (d + 1 + int k) * one_day + opens r - off"
      using first 3 ob adjust_loop_from_start[OF fo sat k] by auto
    have "0 \<le> one_day * int k" by (simp add: one_day_def)
    moreover have "t + off = d * one_day + one_day + one_day * int k + opens r"
      using t by (simp add: algebra_simps)
    ultimately have "dt \<le> t" using l p ob by linarith
    moreover have "\<not> in_window r off u" if "dt \<le> u" "u < t" for u
      using that l p t 3 by (intro not_in_window_between[OF sat k(2)]) auto
    ultimately show ?thesis using t in_window_at_opening[OF sat] k(1) by simp
  qed
qed

section \<open>Properties\<close>

text \<open>C22. In a time zone without clock changes, \<^verbatim>\<open>adjust_for_schedule\<close> returns the earliest instant from
  the given one on that the schedule permits: it is never before the requested time, it satisfies
  \<^verbatim>\<open>is_within_schedule\<close>, and nothing between the two does.  Eight iterations are enough for every
  set of days.\<close>

theorem adjust_for_schedule_earliest:
  assumes "\<And>r. restriction s = Some r \<Longrightarrow> fixed_offset (timezone r) off date \<and> satisfiable r"
  shows "let t = adjust_for_schedule s dt in
    dt \<le> t \<and> is_within_schedule s t \<and> (\<forall>u. dt \<le> u \<and> u < t \<longrightarrow> \<not> is_within_schedule s u)"
proof -
  define t where "t = adjust_for_schedule s dt"
  define d0 where "d0 = (case first_attempt s of Some a \<Rightarrow> if dt < a then a else dt | None \<Rightarrow> dt)"
  have d0: "dt \<le> d0" "\<forall>a. first_attempt s = Some a \<longrightarrow> a \<le> d0"
    "dt \<le> u \<Longrightarrow> u < d0 \<Longrightarrow> \<exists>a. first_attempt s = Some a \<and> u < a" for u
    by (auto simp: d0_def split: option.splits if_splits)
  have t: "t = (case restriction s of Some r \<Rightarrow> adjust_loop 8 r d0 | None \<Rightarrow> d0)"
    unfolding t_def adjust_for_schedule_def Let_def d0_def[symmetric] by (simp split: option.splits)
  have w: "is_within_schedule s u \<longleftrightarrow>
    (\<forall>a. first_attempt s = Some a \<longrightarrow> a \<le> u) \<and> (\<forall>r. restriction s = Some r \<longrightarrow> in_window r off u)" for u
    using is_within_schedule_fixed[of s off date] assms(1) by blast
  have *: "d0 \<le> t" "\<forall>r. restriction s = Some r \<longrightarrow> in_window r off t"
    "\<And>u. d0 \<le> u \<Longrightarrow> u < t \<Longrightarrow> \<exists>r. restriction s = Some r \<and> \<not> in_window r off u"
    using t assms(1) adjust_loop_earliest[of _ off date d0] by (force split: option.splits)+
  have "\<not> is_within_schedule s u" if "dt \<le> u" "u < t" for u
    using that *(3)[of u] d0(3)[of u] w[of u] by force
  moreover have "dt \<le> t" "is_within_schedule s t" using * d0 w[of t] by (meson order_trans)+
  ultimately show ?thesis unfolding Let_def t_def[symmetric] by blast
qed

text \<open>UTC, with a local date written as the number of its day; Mondays from nine to five.\<close>

definition utc :: tz where
  "utc = \<lparr>tz_ymd = (\<lambda>t. (t div one_day, 0, 0)), tz_weekday = (\<lambda>t. weekday_of_day (t div one_day)),
     with_ymd_and_hms = (\<lambda>(d, _, _) h m s. Single (d * one_day + int (h * 3600 + m * 60 + s) * 10 ^ 9))\<rparr>"

definition monday_hours :: scheduling where
  "monday_hours = \<lparr>restriction = Some \<lparr>days_of_week = 1, timezone = utc,
       sr_start = \<lparr>nt_hour = 9, nt_minute = 0, nt_second = 0, nt_nano = 0\<rparr>,
       sr_end = \<lparr>nt_hour = 17, nt_minute = 0, nt_second = 0, nt_nano = 0\<rparr>\<rparr>,
     first_attempt = None, expires = None\<rparr>"

theorem adjust_for_schedule_earliest_witness:
  "is_within_schedule monday_hours (adjust_for_schedule monday_hours 0)"
proof -
  have "fixed_offset (timezone r) 0 (\<lambda>d. (d, 0, 0)) \<and> satisfiable r"
    if "restriction monday_hours = Some r" for r
    using that by (auto simp: monday_hours_def fixed_offset_def utc_def satisfiable_def opens_def closes_def
        nt_seconds_def one_day_def dow_contains_def intro: exI[of _ Mon])
  from adjust_for_schedule_earliest[where dt = 0, OF this] show ?thesis by (simp add: Let_def)
qed

text \<open>On a day of 25 hours, when the clock goes back, the search can get stuck: if the window of the
  day is over and 24 hours after its start it is still the same local day, every iteration returns to
  the same instant, and the due time that results is outside the schedule.\<close>

theorem adjust_for_schedule_stuck:
  assumes "restriction s = Some r" "first_attempt s = None"
    and "start_end_on_day r dt = Some (a, b)" "a \<le> b" "b \<le> dt"
    and "start_end_on_day r (a + one_day) = Some (a, b)" "b \<le> a + one_day"
  shows "adjust_for_schedule s dt = a + one_day \<and> \<not> is_within_schedule s (a + one_day)"
proof -
  have "a \<le> a + one_day" by (simp add: one_day_def)
  then have stuck: "adjust_loop n r (a + one_day) = a + one_day" for n
    using assms(6,7) by (induction n) (auto simp: not_less)
  have "adjust_loop (Suc 7) r dt = a + one_day"
    using assms(3-5) stuck[of 7] by (subst adjust_loop.simps) auto
  then show ?thesis
    using assms by (auto simp: adjust_for_schedule_def is_within_schedule_def)
qed

text \<open>The east coast of the United States around the second of November 2025, a Sunday: local time is four
  hours behind UTC until six o'clock UTC on that day, and five hours behind from then on.  The
  window is from midnight to five, and the message is due at noon.\<close>

definition fall_back :: int where
  "fall_back = 1762063200 * 10 ^ 9"

definition eastern_offset :: "int \<Rightarrow> int" where
  "eastern_offset t = (if t < fall_back then -14400 else -18000) * 10 ^ 9"

definition eastern :: tz where
  "eastern = \<lparr>tz_ymd = (\<lambda>t. ((t + eastern_offset t) div one_day, 0, 0)),
     tz_weekday = (\<lambda>t. weekday_of_day ((t + eastern_offset t) div one_day)),
     with_ymd_and_hms = (\<lambda>(d, _, _) h m s.
       let l = d * one_day + int (h * 3600 + m * 60 + s) * 10 ^ 9;
           summer = l + 14400 * 10 ^ 9; winter = l + 18000 * 10 ^ 9
       in if summer < fall_back then (if winter < fall_back then Single summer else Ambiguous summer winter)
          else Single winter)\<rparr>"

definition night_hours :: schedule_restriction where
  "night_hours = \<lparr>days_of_week = 127, timezone = eastern,
       sr_start = \<lparr>nt_hour = 0, nt_minute = 0, nt_second = 0, nt_nano = 0\<rparr>,
       sr_end = \<lparr>nt_hour = 5, nt_minute = 0, nt_second = 0, nt_nano = 0\<rparr>\<rparr>"

theorem adjust_for_schedule_stuck_witness:
  "\<not> is_within_schedule \<lparr>restriction = Some night_hours, first_attempt = None, expires = None\<rparr>
      (adjust_for_schedule \<lparr>restriction = Some night_hours, first_attempt = None, expires = None\<rparr>
         (1762102800 * 10 ^ 9))"
  using adjust_for_schedule_stuck[of
      "\<lparr>restriction = Some night_hours, first_attempt = None, expires = None\<rparr>" night_hours
      "1762102800 * 10 ^ 9" "1762056000 * 10 ^ 9" "1762077600 * 10 ^ 9"]
  by (simp add: start_end_on_day_def night_hours_def eastern_def eastern_offset_def fall_back_def one_day_def
      single_def Let_def)

end
