(* ===== verification/Queue_World.thy ===== *)
theory Queue_World
  imports Complex_Main Queue_Config Queue_Name Scheduling
begin

text \<open>
  The state the queue code works on and the monad it runs in.  The data is that of
  \<^verbatim>\<open>crates/message/src/message.rs\<close> and \<^verbatim>\<open>crates/kumod/src/queue/insert_context.rs\<close>.

  A \<^verbatim>\<open>Message\<close> is a shared handle: every clone sees the changes made through another.  So the messages
  are a store in the state, and the operations take the key of a message.  The operations run in a
  state monad whose failures keep the state they happened in, as a Rust function that returns an error
  leaves what it has changed.  Everything the modelled code asks of the rest of the program and of the
  world is the record \<open>qenv\<close>: it answers every question with the number of questions asked before,
  so the answers may change at any point.  The clock gives nanoseconds.  The \<^verbatim>\<open>f32\<close> random numbers are
  exact rationals, a due time is not bounded, and a deadline is not modelled: it only adds ways to fail
  for operations that can fail anyway.
\<close>

section \<open>Reasons for an insertion\<close>

datatype insert_reason =
    Received | Enumerated | ScheduledForLater | ReadyQueueWasSuspended | MessageRateThrottle
  | ThrottledByThrottleInsertReadyQueue | ReadyQueueWasFull | FailedToInsertIntoReadyQueue
  | MessageGetQueueNameFailed | AdminRebind | DueTimeWasReached | MaxReadyWasReducedByConfigUpdate
  | ReadyQueueWasDelayedDueToLowMemory | FailedDueToNullMx | MxResolvedToZeroHosts | MxWasProhibited
  | MxWasSkipped | TooManyConnectionFailures | TooManyRecipients | ConnectionRateThrottle
  | LoggedTransientFailure | ReadyQueueWasReaped | DispatcherDrop | PeerClosedConnection
  | ProtocolChanged | SpoolUnhealthy | SourceIsUnhealthyAndSuspended

type_synonym insert_context = "insert_reason list"

definition ctx_note :: "insert_reason \<Rightarrow> insert_context \<Rightarrow> insert_context" where
  "ctx_note r c = (if c \<noteq> [] \<and> last c = r then c else c @ [r])"

definition ctx_add :: "insert_context \<Rightarrow> insert_reason \<Rightarrow> insert_context" where
  "ctx_add c r = ctx_note r c"

definition ctx_contains :: "insert_context \<Rightarrow> insert_reason \<Rightarrow> bool" where
  "ctx_contains c r = (r \<in> set c)"

definition ctx_only :: "insert_context \<Rightarrow> insert_reason \<Rightarrow> bool" where
  "ctx_only c r = (ctx_contains c r \<and> length c = 1)"

definition ctx_from :: "insert_reason \<Rightarrow> insert_context" where
  "ctx_from r = [r]"

section \<open>Messages\<close>

text \<open>The placement of a message that is set aside while it is being transferred
  (\<^verbatim>\<open>crates/kumod/src/xfer/mod.rs\<close>).\<close>

record saved_queue_info =
  sqi_queue :: "string option"
  sqi_routing_domain :: "string option"
  sqi_tenant :: "string option"
  sqi_campaign :: "string option"
  sqi_schedule :: "scheduling option"
  sqi_num_attempts :: "16 word"
  sqi_due :: "int option"

text \<open>A metadata value is a JSON value.  The modelled code asks whether it is null, whether it is a string
  and whether it deserializes as a \<^verbatim>\<open>SavedQueueInfo\<close>; \<open>MetaOther\<close> stands for all other values.\<close>

datatype meta_value = MetaNull | MetaString string | MetaQueueInfo saved_queue_info | MetaOther

record address =
  addr_user :: string
  addr_domain :: string

record metadata =
  md_sender :: address
  md_recipient :: "address list"
  md_meta :: "string \<rightharpoonup> meta_value"
  md_schedule :: "scheduling option"

text \<open>The data is not in memory when it is empty.\<close>

record message =
  m_created :: int
  m_due :: "int option"
  m_num_attempts :: "16 word"
  m_scheduled :: bool
  m_metadata :: "metadata option"
  m_data :: string
  m_meta_dirty :: bool
  m_data_dirty :: bool

datatype record_type = Reception | Delivery | Bounce | TransientFailure | Expiration | AdminBounce
  | OOB | Feedback | Rejection | AdminRebindRecord | DeferredInjectionRebind | Delayed | XferOut | XferIn | AnyRecord

record log_record =
  lr_kind :: record_type
  lr_id :: nat
  lr_code :: nat

text \<open>The state: the messages in memory, the two spools, the timer queues of the scheduled queues and
  the ready queues with the keys of the messages they hold, and the log.  Two lists say what has
  happened to a message for good: \<open>w_removed\<close> holds the messages removed from the spool and
  \<open>w_parked\<close> the messages left to the spool on shutdown.  \<open>w_tick\<close> counts the questions to the
  environment.\<close>

record world =
  w_msg :: "nat \<Rightarrow> message"
  w_meta_spool :: "nat \<rightharpoonup> metadata"
  w_data_spool :: "nat \<rightharpoonup> string"
  w_timeq :: "(string \<times> nat) list"
  w_ready :: "nat list"
  w_removed :: "nat list"
  w_parked :: "nat list"
  w_log :: "log_record list"
  w_tick :: nat

datatype requeue_outcome = Requeued message | Rejected nat | EventError string | ConfigError string

datatype select_outcome = Inserted | SourceDelay int | NoSources | FailedResolve string
  | SelectFull | SelectError string

datatype maildir_outcome = Stored string | StoreFailed string | WriteAborted string

text \<open>What the queue code asks: the clock and the random generator, the spools, the administrative
  bounces (with whether they suppress their log records) and suspensions, the throttles, the Lua events,
  the configuration of a queue, the timer wheel, the selection of an egress source and the ready queues,
  the task spawner, and the maildir writer.\<close>

record qenv =
  now_at :: "nat \<Rightarrow> int"
  random_at :: "nat \<Rightarrow> rat"
  meta_load_error :: "nat \<Rightarrow> string option"
  data_load_error :: "nat \<Rightarrow> string option"
  meta_store_error :: "nat \<Rightarrow> string option"
  data_store_error :: "nat \<Rightarrow> string option"
  meta_remove_error :: "nat \<Rightarrow> bool"
  data_remove_error :: "nat \<Rightarrow> bool"
  suspend_delivery_when_unhealthy :: "nat \<Rightarrow> bool"
  data_unhealthy_reason :: "nat \<Rightarrow> string option"
  meta_unhealthy_reason :: "nat \<Rightarrow> string option"
  bounce_for_queue_name :: "nat \<Rightarrow> string \<Rightarrow> bool option"
  suspend_for_queue_name :: "nat \<Rightarrow> string \<Rightarrow> bool"
  is_shutting_down :: "nat \<Rightarrow> bool"
  message_rate_throttle :: "nat \<Rightarrow> string \<Rightarrow> throttle_spec \<Rightarrow> (string, nat option) result"
  throttle_insert_ready_event :: "nat \<Rightarrow> message \<Rightarrow> (string, message) result"
  requeue_message_event :: "nat \<Rightarrow> message \<Rightarrow> bool \<Rightarrow> int option \<Rightarrow> insert_context \<Rightarrow> requeue_outcome"
  resolve_queue :: "nat \<Rightarrow> string \<Rightarrow> (string, queue_config) result"
  timeq_accepts :: "nat \<Rightarrow> string \<Rightarrow> message \<Rightarrow> bool"
  select_and_insert :: "nat \<Rightarrow> string \<Rightarrow> message \<Rightarrow> select_outcome"
  deferred_site_exists :: "nat \<Rightarrow> bool"
  deferred_site_error :: "nat \<Rightarrow> string option"
  site_is_full :: "nat \<Rightarrow> bool"
  spawn_error :: "nat \<Rightarrow> string option"
  maildir_render_error :: "nat \<Rightarrow> address \<Rightarrow> string option"
  maildir_write :: "nat \<Rightarrow> address \<Rightarrow> maildir_outcome"
  timeq_in_flight :: "nat \<Rightarrow> nat \<Rightarrow> bool"
  timeq_is_due :: "nat \<Rightarrow> nat \<Rightarrow> bool"
  rebind_message_event :: "nat \<Rightarrow> message \<Rightarrow> message \<times> string option"
  spool_enumerated_event :: "nat \<Rightarrow> message \<Rightarrow> (string, message) result"

section \<open>The monad\<close>

datatype qerror = ReadyQueueFull | QError string

datatype 'a outcome = Ret 'a world | Fail qerror world | Panic | Spin

type_synonym 'a qm = "world \<Rightarrow> 'a outcome"

definition qret :: "'a \<Rightarrow> 'a qm" where "qret x = Ret x"

definition qfail :: "string \<Rightarrow> 'a qm" where "qfail e = Fail (QError e)"

definition qbind :: "'a qm \<Rightarrow> ('a \<Rightarrow> 'b qm) \<Rightarrow> 'b qm" where
  "qbind m f w = (case m w of Ret x w' \<Rightarrow> f x w' | Fail e w' \<Rightarrow> Fail e w' | Panic \<Rightarrow> Panic | Spin \<Rightarrow> Spin)"

text \<open>\<^verbatim>\<open>match f().await { Ok(x) => .., Err(err) => .. }\<close> looks at the result.\<close>

definition qtry :: "'a qm \<Rightarrow> (qerror, 'a) result qm" where
  "qtry m w = (case m w of Ret x w' \<Rightarrow> Ret (Inr x) w' | Fail e w' \<Rightarrow> Ret (Inl e) w'
     | Panic \<Rightarrow> Panic | Spin \<Rightarrow> Spin)"

definition qget :: "(world \<Rightarrow> 'a) \<Rightarrow> 'a qm" where "qget f w = Ret (f w) w"

definition qmod :: "(world \<Rightarrow> world) \<Rightarrow> unit qm" where "qmod f w = Ret () (f w)"

text \<open>A panic is \<open>None\<close> in the computations on durations.\<close>

definition qexpect :: "'a option \<Rightarrow> 'a qm" where
  "qexpect x w = (case x of Some a \<Rightarrow> Ret a w | None \<Rightarrow> Panic)"

definition qerr :: "string option \<Rightarrow> unit qm" where
  "qerr e = (case e of Some m \<Rightarrow> qfail m | None \<Rightarrow> qret ())"

definition qask :: "(nat \<Rightarrow> 'a) \<Rightarrow> 'a qm" where
  "qask f w = Ret (f (w_tick w)) (w\<lparr>w_tick := Suc (w_tick w)\<rparr>)"

definition get_msg :: "nat \<Rightarrow> message qm" where
  "get_msg i = qget (\<lambda>w. w_msg w i)"

definition upd_msg :: "nat \<Rightarrow> (message \<Rightarrow> message) \<Rightarrow> unit qm" where
  "upd_msg i f = qmod (\<lambda>w. w\<lparr>w_msg := (w_msg w)(i := f (w_msg w i))\<rparr>)"

definition log_disposition :: "record_type \<Rightarrow> nat \<Rightarrow> nat \<Rightarrow> unit qm" where
  "log_disposition k i code = qmod (\<lambda>w. w\<lparr>w_log := w_log w @ [\<lparr>lr_kind = k, lr_id = i, lr_code = code\<rparr>]\<rparr>)"

section \<open>A quiet environment\<close>

text \<open>An environment in which nothing fails, and a state with one kind of message, for examples.\<close>

definition quiet_env :: qenv where
  "quiet_env =
     \<lparr>now_at = (\<lambda>_. 0), random_at = (\<lambda>_. 1 / 2),
      meta_load_error = (\<lambda>_. None), data_load_error = (\<lambda>_. None),
      meta_store_error = (\<lambda>_. None), data_store_error = (\<lambda>_. None),
      meta_remove_error = (\<lambda>_. False), data_remove_error = (\<lambda>_. False),
      suspend_delivery_when_unhealthy = (\<lambda>_. False),
      data_unhealthy_reason = (\<lambda>_. None), meta_unhealthy_reason = (\<lambda>_. None),
      bounce_for_queue_name = (\<lambda>_ _. None), suspend_for_queue_name = (\<lambda>_ _. False),
      is_shutting_down = (\<lambda>_. False), message_rate_throttle = (\<lambda>_ _ _. Inr None),
      throttle_insert_ready_event = (\<lambda>_ m. Inr m),
      requeue_message_event = (\<lambda>_ m _ _ _. Requeued m),
      resolve_queue = (\<lambda>_ _. Inr (default_queue_config\<lparr>max_retry_interval := Some (3600 * nanos)\<rparr>)),
      timeq_accepts = (\<lambda>_ _ _. True), select_and_insert = (\<lambda>_ _ _. Inserted),
      deferred_site_exists = (\<lambda>_. True), deferred_site_error = (\<lambda>_. None), site_is_full = (\<lambda>_. False),
      spawn_error = (\<lambda>_. None), maildir_render_error = (\<lambda>_ _. None), maildir_write = (\<lambda>_ _. Stored ''''),
      timeq_in_flight = (\<lambda>_ _. False), timeq_is_due = (\<lambda>_ _. True),
      rebind_message_event = (\<lambda>_ m. (m, None)), spool_enumerated_event = (\<lambda>_ m. Inr m)\<rparr>"

definition example_metadata :: metadata where
  "example_metadata =
     \<lparr>md_sender = \<lparr>addr_user = ''a'', addr_domain = ''x''\<rparr>,
      md_recipient = [\<lparr>addr_user = ''b'', addr_domain = ''y''\<rparr>, \<lparr>addr_user = ''c'', addr_domain = ''y''\<rparr>],
      md_meta = Map.empty, md_schedule = None\<rparr>"

definition example_world :: world where
  "example_world =
     \<lparr>w_msg = (\<lambda>_. \<lparr>m_created = 0, m_due = None, m_num_attempts = 0, m_scheduled = False,
        m_metadata = Some example_metadata, m_data = ''d'', m_meta_dirty = False, m_data_dirty = False\<rparr>),
      w_meta_spool = (\<lambda>_. Some example_metadata), w_data_spool = (\<lambda>_. Some ''d''),
      w_timeq = [], w_ready = [], w_removed = [], w_parked = [], w_log = [], w_tick = 0\<rparr>"

end
