(* ===== verification/Message_State.thy ===== *)
theory Message_State
  imports Queue_World
begin

text \<open>
  The operations of a message (\<^verbatim>\<open>crates/message/src/message.rs\<close>): its due time and attempt counter, the
  metadata and data that are loaded from, saved to and released to the spool, and the queue it belongs
  to; and the invariants all of them keep.
\<close>

section \<open>Operations on a message\<close>

definition new_dirty :: "int \<Rightarrow> address \<Rightarrow> address list \<Rightarrow> (string \<rightharpoonup> meta_value) \<Rightarrow> string \<Rightarrow> message" where
  "new_dirty created sender rcpts meta data =
     \<lparr>m_created = created, m_due = None, m_num_attempts = 0, m_scheduled = False,
      m_metadata = Some \<lparr>md_sender = sender, md_recipient = rcpts, md_meta = meta, md_schedule = None\<rparr>,
      m_data = data, m_meta_dirty = True, m_data_dirty = True\<rparr>"

definition new_from_spool :: "int \<Rightarrow> metadata \<Rightarrow> message" where
  "new_from_spool created md =
     \<lparr>m_created = created, m_due = None, m_num_attempts = 0, m_scheduled = (md_schedule md \<noteq> None),
      m_metadata = Some md, m_data = [], m_meta_dirty = False, m_data_dirty = False\<rparr>"

definition load_meta :: "qenv \<Rightarrow> nat \<Rightarrow> unit qm" where
  "load_meta env i =
     qbind (qask (meta_load_error env)) (\<lambda>e. qbind (qerr e) (\<lambda>_.
     qbind (qget (\<lambda>w. w_meta_spool w i)) (\<lambda>md.
     case md of
       None \<Rightarrow> qfail ''not found in spool''
     | Some md \<Rightarrow> upd_msg i (\<lambda>m. m\<lparr>m_metadata := Some md\<rparr>))))"

definition load_meta_if_needed :: "qenv \<Rightarrow> nat \<Rightarrow> unit qm" where
  "load_meta_if_needed env i =
     qbind (get_msg i) (\<lambda>m. if m_metadata m \<noteq> None then qret () else load_meta env i)"

text \<open>Load the metadata when it is not in memory, and look at it.\<close>

definition with_meta :: "qenv \<Rightarrow> nat \<Rightarrow> (metadata \<Rightarrow> 'a qm) \<Rightarrow> 'a qm" where
  "with_meta env i f =
     qbind (load_meta_if_needed env i) (\<lambda>_. qbind (get_msg i) (\<lambda>m.
     case m_metadata m of None \<Rightarrow> qfail ''metadata is not loaded'' | Some md \<Rightarrow> f md))"

definition load_data_if_needed :: "qenv \<Rightarrow> nat \<Rightarrow> string qm" where
  "load_data_if_needed env i =
     qbind (get_msg i) (\<lambda>m.
     if m_data m \<noteq> [] then qret (m_data m)
     else qbind (qask (data_load_error env)) (\<lambda>e. qbind (qerr e) (\<lambda>_.
          qbind (qget (\<lambda>w. w_data_spool w i)) (\<lambda>d.
          case d of
            None \<Rightarrow> qfail ''not found in spool''
          | Some d \<Rightarrow> qbind (upd_msg i (\<lambda>m. m\<lparr>m_data := d\<rparr>)) (\<lambda>_. qret d)))))"

definition get_meta :: "qenv \<Rightarrow> nat \<Rightarrow> string \<Rightarrow> meta_value qm" where
  "get_meta env i key =
     with_meta env i (\<lambda>md. qret (case md_meta md key of Some v \<Rightarrow> v | None \<Rightarrow> MetaNull))"

definition get_meta_string :: "qenv \<Rightarrow> nat \<Rightarrow> string \<Rightarrow> string option qm" where
  "get_meta_string env i key =
     qbind (get_meta env i key) (\<lambda>v.
     case v of
       MetaString s \<Rightarrow> qret (Some s)
     | MetaNull \<Rightarrow> qret None
     | _ \<Rightarrow> qfail (''expected '' @ key @ '' to be a string value''))"

definition sender :: "qenv \<Rightarrow> nat \<Rightarrow> address qm" where
  "sender env i = with_meta env i (\<lambda>md. qret (md_sender md))"

text \<open>\<^verbatim>\<open>set_sender\<close> marks the data as changed, not the metadata that it changes.\<close>

definition set_sender :: "qenv \<Rightarrow> nat \<Rightarrow> address \<Rightarrow> unit qm" where
  "set_sender env i a =
     with_meta env i (\<lambda>md.
     upd_msg i (\<lambda>m. m\<lparr>m_metadata := Some (md\<lparr>md_sender := a\<rparr>), m_data_dirty := True\<rparr>))"

definition first_recipient :: "qenv \<Rightarrow> nat \<Rightarrow> address qm" where
  "first_recipient env i =
     with_meta env i (\<lambda>md.
     case md_recipient md of r # _ \<Rightarrow> qret r | [] \<Rightarrow> qfail ''recipient list is empty!?'')"

definition recipient_list :: "qenv \<Rightarrow> nat \<Rightarrow> address list qm" where
  "recipient_list env i = with_meta env i (\<lambda>md. qret (md_recipient md))"

text \<open>\<^verbatim>\<open>set_recipient_list\<close> does the same.\<close>

definition set_recipient_list :: "qenv \<Rightarrow> nat \<Rightarrow> address list \<Rightarrow> unit qm" where
  "set_recipient_list env i rs =
     with_meta env i (\<lambda>md.
     upd_msg i (\<lambda>m. m\<lparr>m_metadata := Some (md\<lparr>md_recipient := rs\<rparr>), m_data_dirty := True\<rparr>))"

definition set_meta :: "qenv \<Rightarrow> nat \<Rightarrow> string \<Rightarrow> meta_value \<Rightarrow> unit qm" where
  "set_meta env i key v =
     with_meta env i (\<lambda>md.
     upd_msg i (\<lambda>m. m\<lparr>m_metadata := Some (md\<lparr>md_meta := (md_meta md)(key \<mapsto> v)\<rparr>), m_meta_dirty := True\<rparr>))"

definition unset_meta :: "qenv \<Rightarrow> nat \<Rightarrow> string \<Rightarrow> unit qm" where
  "unset_meta env i key =
     with_meta env i (\<lambda>md.
     upd_msg i (\<lambda>m. m\<lparr>m_metadata := Some (md\<lparr>md_meta := (md_meta md)(key := None)\<rparr>), m_meta_dirty := True\<rparr>))"

definition assign_data :: "nat \<Rightarrow> string \<Rightarrow> unit qm" where
  "assign_data i d = upd_msg i (\<lambda>m. m\<lparr>m_data := d, m_data_dirty := True\<rparr>)"

definition get_scheduling :: "qenv \<Rightarrow> nat \<Rightarrow> scheduling option qm" where
  "get_scheduling env i = with_meta env i (\<lambda>md. qret (md_schedule md))"

text \<open>The queue name; domains are compared in lower case, here of the ASCII letters.\<close>

definition get_queue_name :: "qenv \<Rightarrow> nat \<Rightarrow> string qm" where
  "get_queue_name env i =
     qbind (get_meta_string env i ''queue'') (\<lambda>q.
     case q of
       Some name \<Rightarrow> qret name
     | None \<Rightarrow>
         qbind (get_meta_string env i ''campaign'') (\<lambda>c.
         qbind (get_meta_string env i ''tenant'') (\<lambda>t.
         qbind (first_recipient env i) (\<lambda>r.
         qbind (get_meta_string env i ''routing_domain'') (\<lambda>rd.
         qret (format_queue_name c t (to_ascii_lowercase (addr_domain r)) rd))))))"

definition get_num_attempts :: "nat \<Rightarrow> 16 word qm" where
  "get_num_attempts i = qbind (get_msg i) (\<lambda>m. qret (m_num_attempts m))"

definition set_num_attempts :: "nat \<Rightarrow> 16 word \<Rightarrow> unit qm" where
  "set_num_attempts i n = upd_msg i (\<lambda>m. m\<lparr>m_num_attempts := n\<rparr>)"

definition increment_num_attempts :: "nat \<Rightarrow> unit qm" where
  "increment_num_attempts i = upd_msg i (\<lambda>m. m\<lparr>m_num_attempts := m_num_attempts m + 1\<rparr>)"

definition get_due :: "nat \<Rightarrow> int option qm" where
  "get_due i = qbind (get_msg i) (\<lambda>m. qret (m_due m))"

definition utc_now :: "qenv \<Rightarrow> int qm" where
  "utc_now env = qask (now_at env)"

definition msg_age :: "nat \<Rightarrow> int \<Rightarrow> int qm" where
  "msg_age i now = qbind (get_msg i) (\<lambda>m. qret (now - m_created m))"

definition set_due :: "qenv \<Rightarrow> nat \<Rightarrow> int option \<Rightarrow> int option qm" where
  "set_due env i due =
     qbind (get_msg i) (\<lambda>m.
     if \<not> m_scheduled m then qbind (upd_msg i (\<lambda>m. m\<lparr>m_due := due\<rparr>)) (\<lambda>_. qret due)
     else
       qbind (case due of Some d \<Rightarrow> qret d | None \<Rightarrow> utc_now env) (\<lambda>d.
       with_meta env i (\<lambda>md.
         let d' = Some (case md_schedule md of Some s \<Rightarrow> adjust_for_schedule s d | None \<Rightarrow> d)
         in qbind (upd_msg i (\<lambda>m. m\<lparr>m_due := d'\<rparr>)) (\<lambda>_. qret d'))))"

definition delay_by :: "qenv \<Rightarrow> nat \<Rightarrow> int \<Rightarrow> int option qm" where
  "delay_by env i dur = qbind (utc_now env) (\<lambda>now. set_due env i (Some (now + dur)))"

definition delay_with_jitter :: "qenv \<Rightarrow> nat \<Rightarrow> nat \<Rightarrow> int option qm" where
  "delay_with_jitter env i limit =
     qbind (qask (random_at env)) (\<lambda>scale.
     delay_by env i (floor (scale * of_nat limit) * chrono_nanos))"

definition delay_by_and_jitter :: "qenv \<Rightarrow> nat \<Rightarrow> int \<Rightarrow> int option qm" where
  "delay_by_and_jitter env i dur =
     qbind (qask (random_at env)) (\<lambda>scale. qbind (utc_now env) (\<lambda>now.
     set_due env i (Some (now + dur + floor (scale * 60) * chrono_nanos))))"

text \<open>\<^verbatim>\<open>TimerEntryWithDelay::delay\<close>: how long until the message is due, in nanoseconds.\<close>

definition msg_delay :: "qenv \<Rightarrow> nat \<Rightarrow> nat qm" where
  "msg_delay env i =
     qbind (get_due i) (\<lambda>due.
     case due of
       Some t \<Rightarrow> qbind (utc_now env) (\<lambda>now. qret (nat (t - now)))
     | None \<Rightarrow> qret 0)"

definition needs_save :: "nat \<Rightarrow> bool qm" where
  "needs_save i = qbind (get_msg i) (\<lambda>m. qret (m_meta_dirty m \<or> m_data_dirty m))"

text \<open>\<^verbatim>\<open>save_to\<close>: both spools are written, and what was stored is no longer dirty, also when the other
  one failed.\<close>

definition store_data :: "qenv \<Rightarrow> nat \<Rightarrow> unit qm" where
  "store_data env i =
     qbind (get_msg i) (\<lambda>m.
     if m_data_dirty m then
       qbind (qask (data_store_error env)) (\<lambda>e. qbind (qerr e) (\<lambda>_.
       qbind (qmod (\<lambda>w. w\<lparr>w_data_spool := (w_data_spool w)(i \<mapsto> m_data m)\<rparr>)) (\<lambda>_.
       upd_msg i (\<lambda>m. m\<lparr>m_data_dirty := False\<rparr>))))
     else qret ())"

definition store_meta :: "qenv \<Rightarrow> nat \<Rightarrow> unit qm" where
  "store_meta env i =
     qbind (get_msg i) (\<lambda>m.
     case (if m_meta_dirty m then m_metadata m else None) of
       Some md \<Rightarrow>
         qbind (qask (meta_store_error env)) (\<lambda>e. qbind (qerr e) (\<lambda>_.
         qbind (qmod (\<lambda>w. w\<lparr>w_meta_spool := (w_meta_spool w)(i \<mapsto> md)\<rparr>)) (\<lambda>_.
         upd_msg i (\<lambda>m. m\<lparr>m_meta_dirty := False\<rparr>))))
     | None \<Rightarrow> qret ())"

definition save :: "qenv \<Rightarrow> nat \<Rightarrow> unit qm" where
  "save env i =
     qbind (get_msg i) (\<lambda>m.
     if m_data_dirty m \<and> m_data m = [] then qfail ''message data must not be empty''
     else
       qbind (qtry (store_data env i)) (\<lambda>d.
       qbind (qtry (store_meta env i)) (\<lambda>md.
       case (d, md) of
         (Inr _, Inr _) \<Rightarrow> qret ()
       | (Inl _, Inr _) \<Rightarrow> qfail ''data spool store''
       | (Inr _, Inl _) \<Rightarrow> qfail ''meta spool store''
       | (Inl _, Inl _) \<Rightarrow> qfail ''data spool store; meta spool store'')))"

definition shrink_data :: "nat \<Rightarrow> bool qm" where
  "shrink_data i =
     qbind (get_msg i) (\<lambda>m.
     if m_data_dirty m then qfail ''Cannot shrink message: DATA_DIRTY''
     else qbind (upd_msg i (\<lambda>m. m\<lparr>m_data := []\<rparr>)) (\<lambda>_. qret (m_data m \<noteq> [])))"

definition shrink :: "nat \<Rightarrow> bool qm" where
  "shrink i =
     qbind (get_msg i) (\<lambda>m.
     if m_data_dirty m then qfail ''Cannot shrink message: DATA_DIRTY''
     else if m_meta_dirty m then qfail ''Cannot shrink message: META_DIRTY''
     else qbind (upd_msg i (\<lambda>m. m\<lparr>m_metadata := None, m_data := []\<rparr>))
       (\<lambda>_. qret (m_metadata m \<noteq> None \<or> m_data m \<noteq> [])))"

definition save_and_shrink :: "qenv \<Rightarrow> nat \<Rightarrow> bool qm" where
  "save_and_shrink env i = qbind (save env i) (\<lambda>_. shrink i)"

definition save_and_shrink_data :: "qenv \<Rightarrow> nat \<Rightarrow> bool qm" where
  "save_and_shrink_data env i = qbind (save env i) (\<lambda>_. shrink_data i)"

text \<open>\<^verbatim>\<open>SpoolManager::remove_from_spool\<close>: failures to remove are logged and ignored.\<close>

definition remove_from_spool :: "qenv \<Rightarrow> nat \<Rightarrow> unit qm" where
  "remove_from_spool env i =
     qbind (qask (data_remove_error env)) (\<lambda>de.
     qbind (qask (meta_remove_error env)) (\<lambda>me.
     qmod (\<lambda>w. w\<lparr>w_data_spool := if de then w_data_spool w else (w_data_spool w)(i := None),
       w_meta_spool := if me then w_meta_spool w else (w_meta_spool w)(i := None),
       w_removed := w_removed w @ [i]\<rparr>)))"

text \<open>\<^verbatim>\<open>set_scheduling\<close> does not mark the metadata as changed.\<close>

definition set_scheduling :: "qenv \<Rightarrow> nat \<Rightarrow> scheduling option \<Rightarrow> scheduling option qm" where
  "set_scheduling env i s =
     with_meta env i (\<lambda>md.
     qbind (upd_msg i (\<lambda>m. m\<lparr>m_metadata := Some (md\<lparr>md_schedule := s\<rparr>), m_scheduled := (s \<noteq> None)\<rparr>)) (\<lambda>_.
     case s of
       None \<Rightarrow> qret s
     | Some sched \<Rightarrow>
         qbind (get_due i) (\<lambda>due.
         qbind (case due of Some d \<Rightarrow> qret d | None \<Rightarrow> utc_now env) (\<lambda>d.
         qbind (upd_msg i (\<lambda>m. m\<lparr>m_due := Some (adjust_for_schedule sched d)\<rparr>)) (\<lambda>_.
         qret s)))))"

section \<open>Invariants of the operations on a message\<close>

definition set_msg :: "nat \<Rightarrow> message \<Rightarrow> world \<Rightarrow> world" where
  "set_msg i m w = w\<lparr>w_msg := (w_msg w)(i := m)\<rparr>"

text \<open>An invariant holds after a computation that starts with it, whether it returns or fails.\<close>

definition keeps :: "(world \<Rightarrow> bool) \<Rightarrow> 'a qm \<Rightarrow> bool" where
  "keeps I m \<longleftrightarrow> (\<forall>w. I w \<longrightarrow> (case m w of Ret _ w' \<Rightarrow> I w' | Fail _ w' \<Rightarrow> I w' | _ \<Rightarrow> True))"

named_theorems keep_intros \<open>computations that keep an invariant\<close>

lemma keepsI: "(\<And>w. I w \<Longrightarrow> case m w of Ret _ w' \<Rightarrow> I w' | Fail _ w' \<Rightarrow> I w' | _ \<Rightarrow> True) \<Longrightarrow> keeps I m"
  by (simp add: keeps_def)

lemma keeps_qret [keep_intros]: "keeps I (qret x)"
  by (simp add: keeps_def qret_def)

lemma keeps_fail [keep_intros]: "keeps I (qfail e)" "keeps I (Fail err)" "keeps I (\<lambda>_. Spin)"
  by (simp_all add: keeps_def qfail_def)

lemma keeps_qget [keep_intros]: "keeps I (qget f)"
  by (simp add: keeps_def qget_def)

lemma keeps_get_msg [keep_intros]: "keeps I (get_msg i)"
  by (simp add: get_msg_def keeps_qget)

lemma keeps_qexpect [keep_intros]: "keeps I (qexpect x)"
  by (cases x) (simp_all add: keeps_def qexpect_def)

lemma keeps_qerr [keep_intros]: "keeps I (qerr e)"
  by (cases e) (simp_all add: qerr_def keep_intros)

lemma keeps_qbind [keep_intros]:
  assumes "keeps I m" "\<And>x. keeps I (f x)"
  shows "keeps I (qbind m f)"
proof (rule keepsI)
  fix w assume "I w"
  then have m: "case m w of Ret _ w' \<Rightarrow> I w' | Fail _ w' \<Rightarrow> I w' | _ \<Rightarrow> True"
    using assms(1) unfolding keeps_def by blast
  show "case qbind m f w of Ret _ w' \<Rightarrow> I w' | Fail _ w' \<Rightarrow> I w' | _ \<Rightarrow> True"
  proof (cases "m w")
    case (Ret x w')
    then show ?thesis using m assms(2)[of x, unfolded keeps_def] by (simp add: qbind_def)
  qed (use m in \<open>simp_all add: qbind_def\<close>)
qed

lemma keeps_qtry [keep_intros]:
  assumes "keeps I m"
  shows "keeps I (qtry m)"
proof (rule keepsI)
  fix w assume "I w"
  then have "case m w of Ret _ w' \<Rightarrow> I w' | Fail _ w' \<Rightarrow> I w' | _ \<Rightarrow> True"
    using assms unfolding keeps_def by blast
  then show "case qtry m w of Ret _ w' \<Rightarrow> I w' | Fail _ w' \<Rightarrow> I w' | _ \<Rightarrow> True"
    by (cases "m w") (simp_all add: qtry_def)
qed

lemma keeps_if [keep_intros]:
  "(b \<Longrightarrow> keeps I x) \<Longrightarrow> (\<not> b \<Longrightarrow> keeps I y) \<Longrightarrow> keeps I (if b then x else y)"
  by simp

lemma keeps_option [keep_intros]:
  "(x = None \<Longrightarrow> keeps I f) \<Longrightarrow> (\<And>a. x = Some a \<Longrightarrow> keeps I (g a))
     \<Longrightarrow> keeps I (case x of None \<Rightarrow> f | Some a \<Rightarrow> g a)"
  by (cases x) auto

lemma keeps_qmod: "(\<And>w. I w \<Longrightarrow> I (f w)) \<Longrightarrow> keeps I (qmod f)"
  by (simp add: keeps_def qmod_def)

text \<open>What no operation below changes: the creation time, and whether the message has a schedule.\<close>

definition same_identity :: "message \<Rightarrow> message \<Rightarrow> bool" where
  "same_identity m m' \<longleftrightarrow> m_created m' = m_created m \<and> m_scheduled m' = m_scheduled m"

text \<open>What an invariant must allow for the operations on messages to keep it: the counter of
  questions, the log and the data spool are free, so is a message that keeps its identity as long as its
  metadata stays, is released, comes from the spool or gets new entries or a non-empty list of
  recipients; the metadata in memory may be stored.\<close>

locale message_invariant =
  fixes I :: "world \<Rightarrow> bool"
  assumes inv_tick: "I w \<Longrightarrow> I (w\<lparr>w_tick := t\<rparr>)"
    and inv_log: "I w \<Longrightarrow> I (w\<lparr>w_log := w_log w @ [r]\<rparr>)"
    and inv_data: "I w \<Longrightarrow> I (w\<lparr>w_data_spool := d\<rparr>)"
    and inv_store: "I w \<Longrightarrow> m_metadata (w_msg w i) = Some md
      \<Longrightarrow> I (w\<lparr>w_meta_spool := (w_meta_spool w)(i \<mapsto> md)\<rparr>)"
    and inv_attr: "I w \<Longrightarrow> same_identity (w_msg w i) m \<Longrightarrow> m_metadata m = m_metadata (w_msg w i)
      \<Longrightarrow> I (set_msg i m w)"
    and inv_release: "I w \<Longrightarrow> same_identity (w_msg w i) m \<Longrightarrow> m_metadata m = None \<Longrightarrow> I (set_msg i m w)"
    and inv_load: "I w \<Longrightarrow> same_identity (w_msg w i) m \<Longrightarrow> w_meta_spool w i = Some md
      \<Longrightarrow> m_metadata m = Some md \<Longrightarrow> I (set_msg i m w)"
    and inv_change: "I w \<Longrightarrow> same_identity (w_msg w i) m \<Longrightarrow> m_metadata (w_msg w i) = Some md
      \<Longrightarrow> m_metadata m = Some md' \<Longrightarrow> md_recipient md' = md_recipient md \<or> md_recipient md' \<noteq> []
      \<Longrightarrow> I (set_msg i m w)"
begin

lemma keeps_qask [keep_intros]: "keeps I (qask f)"
  by (simp add: keeps_def qask_def inv_tick)

lemma keeps_log [keep_intros]: "keeps I (log_disposition k i code)"
  unfolding log_disposition_def by (rule keeps_qmod) (rule inv_log)

lemma keeps_upd_attr:
  "(\<And>m. same_identity m (f m) \<and> (m_metadata (f m) = m_metadata m \<or> m_metadata (f m) = None))
     \<Longrightarrow> keeps I (upd_msg i f)"
  unfolding upd_msg_def
  by (rule keeps_qmod) (metis inv_attr inv_release set_msg_def)

lemma keeps_load_meta [keep_intros]: "keeps I (load_meta env i)"
proof (rule keepsI)
  fix w assume "I w"
  then have "I (w\<lparr>w_tick := t\<rparr>)" for t by (rule inv_tick)
  then show "case load_meta env i w of Ret _ w' \<Rightarrow> I w' | Fail _ w' \<Rightarrow> I w' | _ \<Rightarrow> True"
    using inv_load[of "w\<lparr>w_tick := Suc (w_tick w)\<rparr>" i]
    by (auto simp: load_meta_def qbind_def qask_def qerr_def qfail_def qret_def qget_def upd_msg_def qmod_def
        set_msg_def same_identity_def split: option.splits)
qed

lemma keeps_load_meta_if_needed [keep_intros]: "keeps I (load_meta_if_needed env i)"
  unfolding load_meta_if_needed_def by (intro keep_intros)

text \<open>The continuation of \<open>with_meta\<close> starts with the metadata in memory.\<close>

lemma keeps_with_meta_at:
  assumes "\<And>md w. I w \<Longrightarrow> m_metadata (w_msg w i) = Some md
    \<Longrightarrow> case f md w of Ret _ w' \<Rightarrow> I w' | Fail _ w' \<Rightarrow> I w' | _ \<Rightarrow> True"
  shows "keeps I (with_meta env i f)"
proof (rule keepsI)
  fix w assume "I w"
  moreover have "keeps I (load_meta_if_needed env i)" by (intro keep_intros)
  ultimately have load: "case load_meta_if_needed env i w of Ret _ w' \<Rightarrow> I w' | Fail _ w' \<Rightarrow> I w' | _ \<Rightarrow> True"
    unfolding keeps_def by blast
  show "case with_meta env i f w of Ret _ w' \<Rightarrow> I w' | Fail _ w' \<Rightarrow> I w' | _ \<Rightarrow> True"
  proof (cases "load_meta_if_needed env i w")
    case (Ret x w')
    then have "I w'" using load by simp
    then show ?thesis using Ret assms[of w']
      by (cases "m_metadata (w_msg w' i)") (simp_all add: with_meta_def qbind_def get_msg_def qget_def qfail_def)
  qed (use load in \<open>simp_all add: with_meta_def qbind_def\<close>)
qed

lemma keeps_with_meta [keep_intros]: "(\<And>md. keeps I (f md)) \<Longrightarrow> keeps I (with_meta env i f)"
  by (rule keeps_with_meta_at) (auto simp: keeps_def)

lemma keeps_with_meta_change:
  assumes "\<And>md m. m_metadata (g md m) = Some (h md) \<and> same_identity m (g md m)"
    "\<And>md. md_recipient (h md) = md_recipient md \<or> md_recipient (h md) \<noteq> []"
  shows "keeps I (with_meta env i (\<lambda>md. upd_msg i (g md)))"
proof (rule keeps_with_meta_at)
  fix md w assume "I w" "m_metadata (w_msg w i) = Some md"
  then have "I (set_msg i (g md (w_msg w i)) w)" using assms by (auto intro: inv_change)
  then show "case upd_msg i (g md) w of Ret _ w' \<Rightarrow> I w' | Fail _ w' \<Rightarrow> I w' | _ \<Rightarrow> True"
    by (simp add: upd_msg_def qmod_def set_msg_def)
qed

lemma keeps_load_data_if_needed [keep_intros]: "keeps I (load_data_if_needed env i)"
  unfolding load_data_if_needed_def by (intro keep_intros keeps_upd_attr) (simp add: same_identity_def)

lemma keeps_get_meta_string [keep_intros]: "keeps I (get_meta env i key)" "keeps I (get_meta_string env i key)"
  unfolding get_meta_string_def get_meta_def by (intro keep_intros) (auto intro!: keep_intros split: meta_value.splits)

lemma keeps_first_recipient [keep_intros]: "keeps I (first_recipient env i)"
  unfolding first_recipient_def by (intro keep_intros) (auto intro!: keep_intros split: list.splits)

lemma keeps_recipient_list [keep_intros]: "keeps I (recipient_list env i)"
  unfolding recipient_list_def by (intro keep_intros)

lemma keeps_set_recipient_list: "rs \<noteq> [] \<Longrightarrow> keeps I (set_recipient_list env i rs)"
  unfolding set_recipient_list_def by (rule keeps_with_meta_change) (auto simp: same_identity_def)

lemma keeps_set_meta [keep_intros]: "keeps I (set_meta env i key v)"
  unfolding set_meta_def by (rule keeps_with_meta_change) (auto simp: same_identity_def)

lemma keeps_unset_meta [keep_intros]: "keeps I (unset_meta env i key)"
  unfolding unset_meta_def by (rule keeps_with_meta_change) (auto simp: same_identity_def)

lemma keeps_set_sender [keep_intros]: "keeps I (set_sender env i a)"
  unfolding set_sender_def by (rule keeps_with_meta_change) (auto simp: same_identity_def)

lemma keeps_assign_data [keep_intros]: "keeps I (assign_data i d)"
  unfolding assign_data_def by (rule keeps_upd_attr) (simp add: same_identity_def)

lemma keeps_get_scheduling [keep_intros]: "keeps I (get_scheduling env i)"
  unfolding get_scheduling_def by (intro keep_intros)

lemma keeps_get_queue_name [keep_intros]: "keeps I (get_queue_name env i)"
  unfolding get_queue_name_def by (intro keep_intros)

lemma keeps_attempts [keep_intros]:
  "keeps I (get_num_attempts i)" "keeps I (set_num_attempts i n)" "keeps I (increment_num_attempts i)"
  unfolding get_num_attempts_def set_num_attempts_def increment_num_attempts_def
  by (intro keep_intros keeps_upd_attr; simp add: same_identity_def)+

lemma keeps_due [keep_intros]: "keeps I (get_due i)" "keeps I (utc_now env)" "keeps I (msg_age i now)"
  unfolding get_due_def utc_now_def msg_age_def by (intro keep_intros)+

lemma keeps_set_due [keep_intros]: "keeps I (set_due env i due)"
  unfolding set_due_def Let_def by (intro keep_intros keeps_upd_attr; simp add: same_identity_def)

lemma keeps_delay [keep_intros]:
  "keeps I (delay_by env i d)" "keeps I (delay_with_jitter env i n)" "keeps I (msg_delay env i)"
  "keeps I (delay_by_and_jitter env i d)"
  unfolding delay_by_def delay_with_jitter_def msg_delay_def delay_by_and_jitter_def by (intro keep_intros)+

lemma keeps_store_data [keep_intros]: "keeps I (store_data env i)"
  unfolding store_data_def by (intro keep_intros keeps_upd_attr keeps_qmod inv_data; simp add: same_identity_def)

lemma keeps_store_meta [keep_intros]: "keeps I (store_meta env i)"
proof (rule keepsI)
  fix w assume w: "I w"
  then have "I (w\<lparr>w_tick := Suc (w_tick w)\<rparr>)" by (rule inv_tick)
  note stored = inv_store[OF this] 
  have "I (set_msg i ((w_msg w i)\<lparr>m_meta_dirty := False\<rparr>)
      (w\<lparr>w_tick := Suc (w_tick w), w_meta_spool := (w_meta_spool w)(i \<mapsto> md)\<rparr>))"
    if "m_metadata (w_msg w i) = Some md" for md
    using stored[of i md] that by (intro inv_attr) (auto simp: same_identity_def)
  with w \<open>I (w\<lparr>w_tick := Suc (w_tick w)\<rparr>)\<close>
  show "case store_meta env i w of Ret _ w' \<Rightarrow> I w' | Fail _ w' \<Rightarrow> I w' | _ \<Rightarrow> True"
    by (auto simp: store_meta_def qbind_def get_msg_def qget_def qask_def qerr_def qfail_def qret_def
        upd_msg_def qmod_def set_msg_def split: option.splits if_splits)
qed

lemma keeps_save [keep_intros]: "keeps I (save env i)" "keeps I (needs_save i)"
  unfolding save_def needs_save_def
  by (intro keep_intros; auto intro!: keep_intros split: sum.splits)+

lemma keeps_shrink [keep_intros]: "keeps I (shrink i)" "keeps I (shrink_data i)" "keeps I (save_and_shrink env i)"
  "keeps I (save_and_shrink_data env i)"
  unfolding shrink_def shrink_data_def save_and_shrink_def save_and_shrink_data_def
  by (intro keep_intros keeps_upd_attr; simp add: same_identity_def)+

end

text \<open>The operations on messages move no message between the queues, remove none and park none.\<close>

definition same_places :: "world \<Rightarrow> world \<Rightarrow> bool" where
  "same_places w w' \<longleftrightarrow> w_timeq w' = w_timeq w \<and> w_ready w' = w_ready w
     \<and> w_removed w' = w_removed w \<and> w_parked w' = w_parked w"

interpretation msg_places: message_invariant "same_places w" for w
  by unfold_locales (auto simp: same_places_def set_msg_def)

text \<open>Every message has a recipient, in memory and in the spool.\<close>

definition have_recipients :: "world \<Rightarrow> bool" where
  "have_recipients w \<longleftrightarrow> (\<forall>i md. (m_metadata (w_msg w i) = Some md \<or> w_meta_spool w i = Some md)
     \<longrightarrow> md_recipient md \<noteq> [])"

interpretation msg_recipients: message_invariant have_recipients
  by unfold_locales (auto simp: have_recipients_def set_msg_def)

section \<open>Saving and reloading\<close>

text \<open>What the dirty flags promise: metadata and data in memory that are not marked as changed are the
  ones in the spool.\<close>

definition clean_is_stored :: "nat \<Rightarrow> world \<Rightarrow> bool" where
  "clean_is_stored i w \<longleftrightarrow>
     (m_meta_dirty (w_msg w i) \<or> m_metadata (w_msg w i) = None \<or> w_meta_spool w i = m_metadata (w_msg w i))
     \<and> (m_data_dirty (w_msg w i) \<or> m_data (w_msg w i) = [] \<or> w_data_spool w i = Some (m_data (w_msg w i)))"

lemmas spool_simps = qbind_def qtry_def get_msg_def qget_def qask_def qerr_def qfail_def qret_def upd_msg_def qmod_def

text \<open>The operations that honour the flags.\<close>

lemma clean_is_stored_set_meta: "keeps (clean_is_stored i) (set_meta env i key v)"
  by (auto simp: keeps_def clean_is_stored_def set_meta_def with_meta_def load_meta_if_needed_def load_meta_def spool_simps
      split: option.splits)

lemma clean_is_stored_save: "keeps (clean_is_stored i) (save env i)"
  by (auto simp: keeps_def clean_is_stored_def save_def store_data_def store_meta_def spool_simps
      split: option.splits if_splits)

lemma save_stores:
  assumes "save env i w = Ret () w'" "clean_is_stored i w"
  shows "\<not> m_data_dirty (w_msg w' i)" "m_metadata (w_msg w' i) = m_metadata (w_msg w i)"
    "m_data (w_msg w' i) = m_data (w_msg w i)"
    "m_data (w_msg w i) \<noteq> [] \<Longrightarrow> w_data_spool w' i = Some (m_data (w_msg w i))"
    "m_metadata (w_msg w i) \<noteq> None \<Longrightarrow> w_meta_spool w' i = m_metadata (w_msg w i)"
  using assms
  by (auto simp: save_def store_data_def store_meta_def clean_is_stored_def spool_simps
      split: option.splits if_splits)


definition changed_world :: world where
  "changed_world = set_msg 7 ((w_msg example_world 7)\<lparr>m_data := ''new'', m_data_dirty := True\<rparr>) example_world"


text \<open>A list of recipients that was set is lost when the message is saved and released: only the data is
  marked as changed, so the save writes the data but not the metadata, and the next load returns the
  recipients of the spool.
\<close>

theorem set_recipient_list_lost:
  assumes "m_metadata (w_msg w i) = Some md" "\<not> m_meta_dirty (w_msg w i)" "m_data (w_msg w i) \<noteq> []"
    and "w_meta_spool w i = Some md" "data_store_error env = (\<lambda>_. None)" "meta_load_error env = (\<lambda>_. None)"
  shows "\<exists>w'. qbind (set_recipient_list env i rs) (\<lambda>_. qbind (save_and_shrink env i) (\<lambda>_. recipient_list env i)) w
    = Ret (md_recipient md) w'"
  using assms
  by (simp add: set_recipient_list_def with_meta_def load_meta_if_needed_def load_meta_def save_and_shrink_def save_def
      store_data_def store_meta_def shrink_def recipient_list_def spool_simps)

theorem set_recipient_list_lost_witness:
  "\<exists>w'. qbind (set_recipient_list quiet_env 7 [\<lparr>addr_user = ''c'', addr_domain = ''y''\<rparr>])
      (\<lambda>_. qbind (save_and_shrink quiet_env 7) (\<lambda>_. recipient_list quiet_env 7)) example_world
    = Ret [\<lparr>addr_user = ''b'', addr_domain = ''y''\<rparr>, \<lparr>addr_user = ''c'', addr_domain = ''y''\<rparr>] w'"
  using set_recipient_list_lost[of example_world 7 example_metadata quiet_env "[\<lparr>addr_user = ''c'', addr_domain = ''y''\<rparr>]"]
  by (simp add: example_world_def quiet_env_def example_metadata_def)

end
