(* ===== verification/Scheduled_Queue.thy ===== *)
theory Scheduled_Queue
  imports Message_State
begin

text \<open>
  The scheduled queues: the way of a message from its insertion through the timer queue of its
  scheduled queue to a ready queue, its requeueing after a failure, its expiry and its removal
  (\<^verbatim>\<open>crates/kumod/src/queue/queue.rs\<close> and \<^verbatim>\<open>manager.rs\<close>, with the parts of \<^verbatim>\<open>maintainer.rs\<close> and \<^verbatim>\<open>spool.rs\<close>
  that hand messages to them).

  Inserting a message into the ready queue may requeue it, and requeueing inserts it again.  The
  recursion goes through \<^verbatim>\<open>QueueManager::requeue_message\<close>, so the operations that lead to it take it as
  an argument, and \<open>requeue_message\<close> ties the knot with a bound on the depth; the value \<open>Spin\<close>
  says that the bound was reached.
\<close>

section \<open>Delaying a message\<close>

record sched_queue =
  sq_name :: string
  sq_config :: queue_config

definition timeq_insert :: "qenv \<Rightarrow> sched_queue \<Rightarrow> nat \<Rightarrow> bool qm" where
  "timeq_insert env q i =
     qbind (get_msg i) (\<lambda>m.
     qbind (qask (\<lambda>t. timeq_accepts env t (sq_name q) m)) (\<lambda>ok.
     if ok then qbind (qmod (\<lambda>w. w\<lparr>w_timeq := w_timeq w @ [(sq_name q, i)]\<rparr>)) (\<lambda>_. qret True)
     else qret False))"

definition shrink_policy_for :: "queue_config \<Rightarrow> nat \<Rightarrow> memory_reduction_policy" where
  "shrink_policy_for cfg interval =
     foldl (\<lambda>policy entry. if qs_interval entry \<le> interval then qs_policy entry else policy)
       ShrinkDataAndMeta (shrink_policy cfg)"

definition save_if_needed :: "qenv \<Rightarrow> nat \<Rightarrow> queue_config option \<Rightarrow> unit qm" where
  "save_if_needed env i cfg =
     qbind (needs_save i) (\<lambda>b. qbind (if b then save env i else qret ()) (\<lambda>_.
     case cfg of
       None \<Rightarrow> qret ()
     | Some cfg \<Rightarrow>
         if shrink_policy cfg = [] then qbind (shrink i) (\<lambda>_. qret ())
         else qbind (msg_delay env i) (\<lambda>interval.
           case shrink_policy_for cfg interval of
             ShrinkDataAndMeta \<Rightarrow> qbind (shrink i) (\<lambda>_. qret ())
           | ShrinkData \<Rightarrow> qbind (shrink_data i) (\<lambda>_. qret ())
           | NoShrink \<Rightarrow> qret ())))"

text \<open>Errors are only logged.\<close>

definition save_if_needed_and_log :: "qenv \<Rightarrow> nat \<Rightarrow> queue_config option \<Rightarrow> unit qm" where
  "save_if_needed_and_log env i cfg = qbind (qtry (save_if_needed env i cfg)) (\<lambda>_. qret ())"

definition did_insert_delayed :: "qenv \<Rightarrow> sched_queue \<Rightarrow> nat \<Rightarrow> insert_context \<Rightarrow> unit qm" where
  "did_insert_delayed env q i ctx =
     qbind (if \<not> ctx_only ctx Enumerated \<and> \<not> ctx_contains ctx LoggedTransientFailure
            then qbind (if ctx_only ctx Received then get_scheduling env i else qret None) (\<lambda>_.
                 qbind (utc_now env) (\<lambda>_. log_disposition Delayed i 400))
            else qret ()) (\<lambda>_.
     save_if_needed env i (Some (sq_config q)))"

text \<open>\<^verbatim>\<open>insert_delayed\<close>: true when the message is delayed, false when it is ready.\<close>

definition insert_delayed :: "qenv \<Rightarrow> sched_queue \<Rightarrow> nat \<Rightarrow> insert_context \<Rightarrow> bool qm" where
  "insert_delayed env q i ctx =
     qbind (get_due i) (\<lambda>due.
     case due of
       None \<Rightarrow> qret False
     | Some due \<Rightarrow>
         qbind (utc_now env) (\<lambda>now.
         if due \<le> now then qret False
         else qbind (timeq_insert env q i) (\<lambda>ok.
           if ok then qbind (qtry (did_insert_delayed env q i ctx)) (\<lambda>_. qret True)
           else qret False)))"

fun force_into_delayed :: "nat \<Rightarrow> qenv \<Rightarrow> sched_queue \<Rightarrow> nat \<Rightarrow> insert_context \<Rightarrow> unit qm" where
  "force_into_delayed 0 env q i ctx = (\<lambda>_. Spin)"
| "force_into_delayed (Suc n) env q i ctx =
     qbind (insert_delayed env q i ctx) (\<lambda>delayed.
     if delayed then qret ()
     else qbind (delay_with_jitter env i 60) (\<lambda>_. force_into_delayed n env q i ctx))"

section \<open>Retries and expiry\<close>

text \<open>A float cast to \<^verbatim>\<open>i64\<close> truncates towards zero.\<close>

definition trunc_rat :: "rat \<Rightarrow> int" where
  "trunc_rat r = (if r < 0 then ceiling r else floor r)"

definition retry_jitter :: "queue_config \<Rightarrow> rat \<Rightarrow> int" where
  "retry_jitter cfg scale =
     (let magnitude = min (of_nat (retry_interval cfg) / of_nat nanos / 20) 60
      in trunc_rat (scale * magnitude - magnitude / 2))"

text \<open>The delay before the next attempt, computed before the attempt is counted.\<close>

definition next_delay :: "qenv \<Rightarrow> sched_queue \<Rightarrow> nat \<Rightarrow> int qm" where
  "next_delay env q i =
     qbind (get_num_attempts i) (\<lambda>n.
     qbind (qexpect (delay_for_attempt (sq_config q) (unat n))) (\<lambda>delay.
     qbind (increment_num_attempts i) (\<lambda>_.
     qbind (qask (random_at env)) (\<lambda>scale.
     case try_seconds (delay div chrono_nanos + retry_jitter (sq_config q) scale) of
       Some d \<Rightarrow> qret d
     | None \<Rightarrow> qfail ''out of range for chrono::Duration::try_seconds''))))"

definition increment_attempts_and_update_delay_without_expiry ::
  "qenv \<Rightarrow> sched_queue \<Rightarrow> nat \<Rightarrow> int option qm" where
  "increment_attempts_and_update_delay_without_expiry env q i =
     qbind (next_delay env q i) (\<lambda>delay. delay_by env i delay)"

text \<open>The expiration of a message: logged, then removed.\<close>

definition expire :: "qenv \<Rightarrow> nat \<Rightarrow> unit qm" where
  "expire env i = qbind (log_disposition Expiration i 551) (\<lambda>_. remove_from_spool env i)"

text \<open>True when the message is to be inserted, false when it has expired.\<close>

definition increment_attempts_and_update_delay :: "qenv \<Rightarrow> sched_queue \<Rightarrow> nat \<Rightarrow> bool qm" where
  "increment_attempts_and_update_delay env q i =
     qbind (next_delay env q i) (\<lambda>delay.
     qbind (get_scheduling env i) (\<lambda>sched.
     case Option.bind sched expires of
       Some expiry \<Rightarrow>
         qbind (delay_by env i delay) (\<lambda>next_due.
         case next_due of
           Some due \<Rightarrow>
             if due \<ge> expiry then qbind (expire env i) (\<lambda>_. qret False) else qret True
         | None \<Rightarrow> qret True)
     | None \<Rightarrow>
         qbind (utc_now env) (\<lambda>now.
         qbind (qexpect (get_max_age (sq_config q))) (\<lambda>max_age.
         qbind (msg_age i now) (\<lambda>age.
         if age + delay > max_age then qbind (expire env i) (\<lambda>_. qret False)
         else qbind (delay_by env i delay) (\<lambda>_. qret True))))))"

section \<open>Insertion into the ready queue\<close>

definition ready_push :: "nat \<Rightarrow> unit qm" where
  "ready_push i = qmod (\<lambda>w. w\<lparr>w_ready := w_ready w @ [i]\<rparr>)"

text \<open>A failure that has been logged and noted in the context: \<^verbatim>\<open>insert_ready_impl\<close> fails with it, after
  it has changed the context of its caller.\<close>

definition bail_transient :: "nat \<Rightarrow> nat \<Rightarrow> insert_context \<Rightarrow> string \<Rightarrow> (insert_context \<times> qerror option) qm" where
  "bail_transient i code ctx e =
     qbind (log_disposition TransientFailure i code) (\<lambda>_.
     qret (ctx_note LoggedTransientFailure ctx, Some (QError e)))"

definition insert_via_source :: "qenv \<Rightarrow> sched_queue \<Rightarrow> nat \<Rightarrow> insert_context \<Rightarrow> (insert_context \<times> qerror option) qm" where
  "insert_via_source env q i ctx =
     qbind (get_msg i) (\<lambda>m.
     qbind (qask (\<lambda>t. select_and_insert env t (sq_name q) m)) (\<lambda>r.
     case r of
       Inserted \<Rightarrow> qbind (ready_push i) (\<lambda>_. qret (ctx, None))
     | SourceDelay _ \<Rightarrow> bail_transient i 451 ctx ''no sources are eligible for selection at this time''
     | NoSources \<Rightarrow> bail_transient i 451 ctx ''no sources available''
     | FailedResolve e \<Rightarrow> bail_transient i 451 ctx (''failed to resolve queue: '' @ e)
     | SelectFull \<Rightarrow> Fail ReadyQueueFull
     | SelectError e \<Rightarrow> qfail e))"

definition site_insert :: "qenv \<Rightarrow> nat \<Rightarrow> insert_context \<Rightarrow> (insert_context \<times> qerror option) qm" where
  "site_insert env i ctx =
     qbind (qask (site_is_full env)) (\<lambda>full.
     if full then Fail ReadyQueueFull else qbind (ready_push i) (\<lambda>_. qret (ctx, None)))"

definition insert_deferred :: "qenv \<Rightarrow> nat \<Rightarrow> insert_context \<Rightarrow> (insert_context \<times> qerror option) qm" where
  "insert_deferred env i ctx =
     qbind (qask (deferred_site_exists env)) (\<lambda>ex.
     if ex then site_insert env i ctx
     else qbind (qask (deferred_site_error env)) (\<lambda>e.
       case e of
         None \<Rightarrow> site_insert env i ctx
       | Some e \<Rightarrow> bail_transient i 451 ctx (''failed to resolve queue: '' @ e)))"

text \<open>The removal is spawned as a task; when the task cannot be spawned the message stays.\<close>

definition spawn_remove :: "qenv \<Rightarrow> nat \<Rightarrow> unit qm" where
  "spawn_remove env i =
     qbind (qask (spawn_error env)) (\<lambda>e. qbind (qerr e) (\<lambda>_. remove_from_spool env i))"

text \<open>The loop over the recipients of a maildir delivery: the recipients that were written and the ones
  that failed.  A template that cannot be rendered and a writer that does not return end the loop.\<close>

fun maildir_loop :: "qenv \<Rightarrow> nat \<Rightarrow> address list \<Rightarrow> address list \<Rightarrow> address list \<Rightarrow> (address list \<times> address list) qm" where
  "maildir_loop env i [] ok bad = qret (ok, bad)"
| "maildir_loop env i (r # rs) ok bad =
     qbind (load_meta_if_needed env i) (\<lambda>_.
     qbind (qask (\<lambda>t. maildir_render_error env t r)) (\<lambda>e. qbind (qerr e) (\<lambda>_.
     qbind (qask (\<lambda>t. maildir_write env t r)) (\<lambda>res.
     case res of
       Stored _ \<Rightarrow> maildir_loop env i rs (ok @ [r]) bad
     | StoreFailed _ \<Rightarrow> maildir_loop env i rs ok (bad @ [r])
     | WriteAborted e \<Rightarrow> qfail e))))"

text \<open>The end of a maildir delivery: successes are logged; failures too, and they remain as the recipients
  of the message; without failures the message is removed.\<close>

definition maildir_report ::
  "qenv \<Rightarrow> nat \<Rightarrow> insert_context \<Rightarrow> address list \<Rightarrow> address list \<Rightarrow> (insert_context \<times> qerror option) qm" where
  "maildir_report env i ctx ok bad =
     qbind (if ok \<noteq> [] then log_disposition Delivery i 200 else qret ()) (\<lambda>_.
     if bad \<noteq> [] then
       qbind (log_disposition TransientFailure i 400) (\<lambda>_.
       qbind (qtry (set_recipient_list env i bad)) (\<lambda>r.
       qret (ctx_note LoggedTransientFailure ctx,
             Some (case r of Inl e \<Rightarrow> e | Inr _ \<Rightarrow> QError ''failed maildir store''))))
     else qbind (spawn_remove env i) (\<lambda>_. qret (ctx, None)))"

definition insert_maildir :: "qenv \<Rightarrow> nat \<Rightarrow> insert_context \<Rightarrow> (insert_context \<times> qerror option) qm" where
  "insert_maildir env i ctx =
     qbind (load_data_if_needed env i) (\<lambda>_.
     qbind (get_queue_name env i) (\<lambda>_.
     qbind (load_meta_if_needed env i) (\<lambda>_.
     qbind (recipient_list env i) (\<lambda>rs.
     qbind (maildir_loop env i rs [] []) (\<lambda>(ok, bad).
     maildir_report env i ctx ok bad)))))"

text \<open>\<^verbatim>\<open>insert_ready_impl\<close>: the context and, when it failed after it changed the context, the error.\<close>

definition insert_ready_impl :: "qenv \<Rightarrow> sched_queue \<Rightarrow> nat \<Rightarrow> insert_context \<Rightarrow> (insert_context \<times> qerror option) qm" where
  "insert_ready_impl env q i ctx =
     (case protocol (sq_config q) of
        Smtp _ \<Rightarrow> insert_via_source env q i ctx
      | LuaProto _ \<Rightarrow> insert_via_source env q i ctx
      | Xfer _ \<Rightarrow> insert_via_source env q i ctx
      | HttpInjectionGenerator \<Rightarrow> insert_via_source env q i ctx
      | DeferredSmtpInjection \<Rightarrow> insert_deferred env i ctx
      | NullProto \<Rightarrow> qbind (spawn_remove env i) (\<lambda>_. qret (ctx, None))
      | Maildir _ _ _ \<Rightarrow> insert_maildir env i ctx)"

section \<open>The queue operations\<close>

text \<open>\<^verbatim>\<open>delivery_suspension_reason\<close>: asked when the toggle is set; the data spool's reason goes first.\<close>

definition delivery_suspension_reason :: "qenv \<Rightarrow> string option qm" where
  "delivery_suspension_reason env =
     qbind (qask (suspend_delivery_when_unhealthy env)) (\<lambda>b.
     if \<not> b then qret None
     else qbind (qask (data_unhealthy_reason env)) (\<lambda>d.
       case d of Some r \<Rightarrow> qret (Some r) | None \<Rightarrow> qask (meta_unhealthy_reason env)))"

text \<open>\<^verbatim>\<open>AdminBounceEntry::log\<close>, then the removal from the spool.\<close>

definition admin_bounce :: "qenv \<Rightarrow> bool \<Rightarrow> nat \<Rightarrow> unit qm" where
  "admin_bounce env suppress_logging i =
     qbind (if suppress_logging then qret () else log_disposition AdminBounce i 551) (\<lambda>_.
     remove_from_spool env i)"

definition check_message_rate_throttle :: "qenv \<Rightarrow> sched_queue \<Rightarrow> nat option qm" where
  "check_message_rate_throttle env q =
     (case max_message_rate (sq_config q) of
        None \<Rightarrow> qret None
      | Some spec \<Rightarrow>
          qbind (qask (\<lambda>t. message_rate_throttle env t (''schedq-'' @ sq_name q @ ''-message-rate'') spec)) (\<lambda>r.
          case r of Inl e \<Rightarrow> qfail e | Inr retry_after \<Rightarrow> qret retry_after))"

text \<open>An event handler sees the message and may change everything but its identity.\<close>

definition apply_event :: "nat \<Rightarrow> message \<Rightarrow> unit qm" where
  "apply_event i m' = upd_msg i (\<lambda>m. m'\<lparr>m_created := m_created m\<rparr>)"

definition call_throttle_insert_ready :: "qenv \<Rightarrow> nat \<Rightarrow> unit qm" where
  "call_throttle_insert_ready env i =
     qbind (get_msg i) (\<lambda>m.
     qbind (qask (\<lambda>t. throttle_insert_ready_event env t m)) (\<lambda>r.
     case r of Inl e \<Rightarrow> qfail e | Inr m' \<Rightarrow> apply_event i m'))"

type_synonym requeue_fun = "nat \<Rightarrow> bool \<Rightarrow> int option \<Rightarrow> insert_context \<Rightarrow> unit qm"

definition log_and_requeue_for_unhealthy_spool :: "requeue_fun \<Rightarrow> nat \<Rightarrow> unit qm" where
  "log_and_requeue_for_unhealthy_spool requeue i =
     qbind (log_disposition Delayed i 451) (\<lambda>_. requeue i True None (ctx_from SpoolUnhealthy))"

text \<open>The end of \<^verbatim>\<open>insert_ready\<close>: the attempt, and what follows a failure.\<close>

definition ready_result ::
  "insert_context \<Rightarrow> (qerror, insert_context \<times> qerror option) result \<Rightarrow> insert_context \<times> qerror option" where
  "ready_result ctx r = (case r of Inl e \<Rightarrow> (ctx, Some e) | Inr (ctx', e) \<Rightarrow> (ctx', e))"

definition after_ready ::
  "qenv \<Rightarrow> requeue_fun \<Rightarrow> nat \<Rightarrow> sched_queue \<Rightarrow> nat \<Rightarrow> insert_context
     \<Rightarrow> (qerror, insert_context \<times> qerror option) result \<Rightarrow> unit qm" where
  "after_ready env requeue n q i ctx r =
     (let (ctx', e) = ready_result ctx r
      in case e of
           None \<Rightarrow> qret ()
         | Some ReadyQueueFull \<Rightarrow> force_into_delayed n env q i (ctx_add ctx' ReadyQueueWasFull)
         | Some (QError _) \<Rightarrow> requeue i True None (ctx_add ctx' FailedToInsertIntoReadyQueue))"

definition attempt_ready :: "qenv \<Rightarrow> requeue_fun \<Rightarrow> nat \<Rightarrow> sched_queue \<Rightarrow> nat \<Rightarrow> insert_context \<Rightarrow> unit qm" where
  "attempt_ready env requeue n q i ctx =
     qbind (qtry (insert_ready_impl env q i ctx)) (after_ready env requeue n q i ctx)"

definition chrono_from_std :: "nat \<Rightarrow> int" where
  "chrono_from_std d = (if chrono_valid (int d) then int d else 60 * chrono_nanos)"

definition insert_ready :: "qenv \<Rightarrow> requeue_fun \<Rightarrow> nat \<Rightarrow> sched_queue \<Rightarrow> nat \<Rightarrow> insert_context \<Rightarrow> unit qm" where
  "insert_ready env requeue n q i ctx =
     qbind (delivery_suspension_reason env) (\<lambda>unhealthy.
     if unhealthy \<noteq> None then log_and_requeue_for_unhealthy_spool requeue i
     else
       qbind (qask (\<lambda>t. bounce_for_queue_name env t (sq_name q))) (\<lambda>b.
       case b of
         Some suppress \<Rightarrow> admin_bounce env suppress i
       | None \<Rightarrow>
           qbind (qask (\<lambda>t. suspend_for_queue_name env t (sq_name q))) (\<lambda>suspended.
           if suspended then
             qbind (log_disposition TransientFailure i 451) (\<lambda>_.
             requeue i True None (ctx_from LoggedTransientFailure))
           else
             qbind (check_message_rate_throttle env q) (\<lambda>throttled.
             case throttled of
               Some delay \<Rightarrow> requeue i False (Some (chrono_from_std delay)) (ctx_add ctx MessageRateThrottle)
             | None \<Rightarrow>
                 qbind (call_throttle_insert_ready env i) (\<lambda>_.
                 qbind (get_due i) (\<lambda>due.
                 qbind (case due of Some d \<Rightarrow> qbind (utc_now env) (\<lambda>now. qret (d > now)) | None \<Rightarrow> qret False) (\<lambda>later.
                 if later then requeue i False None (ctx_add ctx ThrottledByThrottleInsertReadyQueue)
                 else attempt_ready env requeue n q i ctx)))))))"

definition queue_insert :: "qenv \<Rightarrow> requeue_fun \<Rightarrow> nat \<Rightarrow> sched_queue \<Rightarrow> nat \<Rightarrow> insert_context \<Rightarrow> unit qm" where
  "queue_insert env requeue n q i ctx =
     qbind (qask (\<lambda>t. bounce_for_queue_name env t (sq_name q))) (\<lambda>b.
     case b of
       Some suppress \<Rightarrow> admin_bounce env suppress i
     | None \<Rightarrow>
         qbind (qask (is_shutting_down env)) (\<lambda>down.
         if down then
           qbind (save_if_needed_and_log env i None) (\<lambda>_. qmod (\<lambda>w. w\<lparr>w_parked := w_parked w @ [i]\<rparr>))
         else
           qbind (insert_delayed env q i ctx) (\<lambda>delayed.
           if delayed then qret () else insert_ready env requeue n q i ctx)))"

definition requeue_message_internal ::
  "qenv \<Rightarrow> requeue_fun \<Rightarrow> nat \<Rightarrow> sched_queue \<Rightarrow> nat \<Rightarrow> bool \<Rightarrow> int option \<Rightarrow> insert_context \<Rightarrow> unit qm" where
  "requeue_message_internal env requeue n q i increment delay ctx =
     (if increment then
        qbind (increment_attempts_and_update_delay env q i) (\<lambda>keep.
        if keep then queue_insert env requeue n q i ctx else qret ())
      else
        qbind (case delay of Some d \<Rightarrow> delay_by env i d | None \<Rightarrow> delay_with_jitter env i 60) (\<lambda>_.
        qbind (get_due i) (\<lambda>due.
        case due of
          None \<Rightarrow> queue_insert env requeue n q i ctx
        | Some due \<Rightarrow>
            qbind (qexpect (get_max_age (sq_config q))) (\<lambda>max_age.
            qbind (msg_age i due) (\<lambda>due_age.
            if due_age \<ge> max_age then expire env i
            else queue_insert env requeue n q i ctx)))))"

definition resolve :: "qenv \<Rightarrow> string \<Rightarrow> sched_queue qm" where
  "resolve env name =
     qbind (qask (\<lambda>t. resolve_queue env t name)) (\<lambda>r.
     case r of Inl e \<Rightarrow> qfail e | Inr cfg \<Rightarrow> qret \<lparr>sq_name = name, sq_config = cfg\<rparr>)"

text \<open>\<^verbatim>\<open>QueueManager::requeue_message\<close>: the event may move the message to another queue, which makes it
  due at once, or reject it, which bounces it.\<close>

fun requeue_message :: "nat \<Rightarrow> qenv \<Rightarrow> requeue_fun" where
  "requeue_message 0 env i increment delay ctx = (\<lambda>_. Spin)"
| "requeue_message (Suc n) env i increment delay ctx =
     qbind (load_meta_if_needed env i) (\<lambda>_.
     qbind (get_queue_name env i) (\<lambda>name.
     qbind (get_msg i) (\<lambda>m.
     qbind (qask (\<lambda>t. requeue_message_event env t m increment delay ctx)) (\<lambda>r.
     case r of
       Rejected code \<Rightarrow> qbind (log_disposition Bounce i code) (\<lambda>_. remove_from_spool env i)
     | Requeued m' \<Rightarrow>
         qbind (apply_event i m') (\<lambda>_.
         qbind (get_queue_name env i) (\<lambda>name'.
         if name \<noteq> name' then
           qbind (increment_num_attempts i) (\<lambda>_.
           qbind (set_due env i None) (\<lambda>_.
           qbind (resolve env name') (\<lambda>q.
           requeue_message_internal env (requeue_message n env) n q i False (Some 0) ctx)))
         else
           qbind (resolve env name) (\<lambda>q.
           requeue_message_internal env (requeue_message n env) n q i increment delay ctx)))
     | _ \<Rightarrow>
         qbind (resolve env name) (\<lambda>q.
         requeue_message_internal env (requeue_message n env) n q i increment delay ctx)))))"

section \<open>Where a message is\<close>

text \<open>In how many places a message is: the timer queues, the ready queues, the messages removed from the
  spool and the messages parked in it.\<close>

definition placed :: "world \<Rightarrow> nat \<Rightarrow> nat" where
  "placed w j = count_list (map snd (w_timeq w)) j + count_list (w_ready w) j
     + count_list (w_removed w) j + count_list (w_parked w) j"

definition here :: "nat \<Rightarrow> nat \<Rightarrow> nat" where
  "here j i = of_bool (j = i)"

text \<open>A computation that returns \<open>x\<close> puts message \<open>j\<close> into \<open>k x\<close> more places, one that fails into none.\<close>

definition places :: "nat \<Rightarrow> ('a \<Rightarrow> nat) \<Rightarrow> 'a qm \<Rightarrow> bool" where
  "places j k m \<longleftrightarrow> (\<forall>w. case m w of
     Ret x w' \<Rightarrow> placed w' j = placed w j + k x | Fail _ w' \<Rightarrow> placed w' j = placed w j | _ \<Rightarrow> True)"

named_theorems place_intros \<open>where computations put a message\<close>

lemma placesI:
  "(\<And>w. case m w of Ret x w' \<Rightarrow> placed w' j = placed w j + k x | Fail _ w' \<Rightarrow> placed w' j = placed w j | _ \<Rightarrow> True)
     \<Longrightarrow> places j k m"
  by (simp add: places_def)

lemma places_quiet:
  assumes "\<And>w. keeps (same_places w) m"
  shows "places j (\<lambda>_. 0) m"
proof (rule placesI)
  fix w
  have "same_places w w" by (simp add: same_places_def)
  with assms[of w] have "case m w of Ret _ w' \<Rightarrow> same_places w w' | Fail _ w' \<Rightarrow> same_places w w' | _ \<Rightarrow> True"
    unfolding keeps_def by blast
  then show "case m w of Ret x w' \<Rightarrow> placed w' j = placed w j + 0 | Fail _ w' \<Rightarrow> placed w' j = placed w j | _ \<Rightarrow> True"
    by (cases "m w") (simp_all add: same_places_def placed_def)
qed

text \<open>A step that moves nothing, then the rest.\<close>

lemma places_bind:
  assumes "places j (\<lambda>_. 0) m" "\<And>x. places j k (f x)"
  shows "places j k (qbind m f)"
proof (rule placesI)
  fix w
  note m = assms(1)[unfolded places_def, rule_format, of w]
  show "case qbind m f w of Ret x w' \<Rightarrow> placed w' j = placed w j + k x
    | Fail _ w' \<Rightarrow> placed w' j = placed w j | _ \<Rightarrow> True"
  proof (cases "m w")
    case (Ret x w')
    then show ?thesis using m assms(2)[of x, unfolded places_def, rule_format, of w']
      by (simp add: qbind_def split: outcome.splits)
  qed (use m in \<open>simp_all add: qbind_def\<close>)
qed

lemma places_quiet_bind:
  assumes "\<And>w. keeps (same_places w) m" "\<And>x. places j k (f x)"
  shows "places j k (qbind m f)"
  using assms by (intro places_bind places_quiet)

text \<open>A step after which the message may be in its place: then nothing more moves, and nothing fails.\<close>

definition settles :: "'a \<Rightarrow> 'a qm \<Rightarrow> bool" where
  "settles y m \<longleftrightarrow> (\<forall>w. case m w of Ret x w' \<Rightarrow> x = y \<and> same_places w w' | Fail _ _ \<Rightarrow> False | _ \<Rightarrow> True)"

lemma settles_qret: "settles y (qret y)"
  by (simp add: settles_def qret_def same_places_def)

lemma settles_try:
  assumes "\<And>w. keeps (same_places w) m"
  shows "settles y (qbind (qtry m) (\<lambda>_. qret y))"
  unfolding settles_def
proof
  fix w
  have "same_places w w" by (simp add: same_places_def)
  with assms[of w] have "case m w of Ret _ w' \<Rightarrow> same_places w w' | Fail _ w' \<Rightarrow> same_places w w' | _ \<Rightarrow> True"
    unfolding keeps_def by blast
  then show "case qbind (qtry m) (\<lambda>_. qret y) w of Ret x w' \<Rightarrow> x = y \<and> same_places w w'
    | Fail _ _ \<Rightarrow> False | _ \<Rightarrow> True"
    by (cases "m w") (simp_all add: qbind_def qtry_def qret_def)
qed

lemma places_bind_done:
  assumes "places j l m" "\<And>x. (l x = 0 \<and> places j k (f x)) \<or> (\<exists>y. settles y (f x) \<and> k y = l x)"
  shows "places j k (qbind m f)"
proof (rule placesI)
  fix w
  note m = assms(1)[unfolded places_def, rule_format, of w]
  show "case qbind m f w of Ret x w' \<Rightarrow> placed w' j = placed w j + k x
    | Fail _ w' \<Rightarrow> placed w' j = placed w j | _ \<Rightarrow> True"
  proof (cases "m w")
    case (Ret x w')
    then show ?thesis using m assms(2)[of x] unfolding places_def qbind_def settles_def
      by (auto simp: same_places_def placed_def split: outcome.splits dest!: spec[of _ w'])
  qed (use m in \<open>simp_all add: qbind_def\<close>)
qed

lemma places_bind_bool:
  assumes "places j (\<lambda>b. if b = c then h else 0) m" "places j k (f (\<not> c))" "settles y (f c)" "k y = h"
  shows "places j k (qbind m f)"
proof (rule places_bind_done[OF assms(1)])
  fix x
  show "((if x = c then h else 0) = 0 \<and> places j k (f x)) \<or> (\<exists>y. settles y (f x) \<and> k y = (if x = c then h else 0))"
    using assms(2-4) by (cases "x = c") auto
qed

lemma places_if [place_intros]:
  "(b \<Longrightarrow> places j k x) \<Longrightarrow> (\<not> b \<Longrightarrow> places j k y) \<Longrightarrow> places j k (if b then x else y)"
  by simp

lemma places_option [place_intros]:
  "(x = None \<Longrightarrow> places j k f) \<Longrightarrow> (\<And>a. x = Some a \<Longrightarrow> places j k (g a))
     \<Longrightarrow> places j k (case x of None \<Rightarrow> f | Some a \<Rightarrow> g a)"
  by (cases x) auto

lemma places_fail [place_intros]: "places j k (qfail e)" "places j k (Fail err)" "places j k (\<lambda>_. Spin)"
  by (simp_all add: places_def qfail_def)

lemma places_qret: "k x = 0 \<Longrightarrow> places j k (qret x)"
  by (simp add: places_def qret_def)

lemma places_remove [place_intros]: "places j (\<lambda>_. here j i) (remove_from_spool env i)"
  by (simp add: places_def remove_from_spool_def qbind_def qask_def qmod_def placed_def here_def)

lemma places_ready_push [place_intros]: "places j (\<lambda>_. here j i) (ready_push i)"
  by (simp add: places_def ready_push_def qmod_def placed_def here_def)

lemma quiet_save_if_needed [keep_intros]:
  "keeps (same_places w) (save_if_needed env i cfg)" "keeps (same_places w) (save_if_needed_and_log env i cfg)"
  unfolding save_if_needed_and_log_def save_if_needed_def
  by (intro keep_intros; auto intro!: keep_intros split: memory_reduction_policy.splits)+

lemma quiet_did_insert_delayed [keep_intros]: "keeps (same_places w) (did_insert_delayed env q i ctx)"
  unfolding did_insert_delayed_def by (intro keep_intros)

lemma quiet_next_delay [keep_intros]: "keeps (same_places w) (next_delay env q i)"
  unfolding next_delay_def by (intro keep_intros)

lemma quiet_apply_event [keep_intros]: "keeps (same_places w) (apply_event i m)"
  by (simp add: keeps_def apply_event_def upd_msg_def qmod_def same_places_def)

lemma quiet_ready_questions [keep_intros]:
  "keeps (same_places w) (delivery_suspension_reason env)"
  "keeps (same_places w) (check_message_rate_throttle env q)"
  "keeps (same_places w) (call_throttle_insert_ready env i)"
  "keeps (same_places w) (resolve env name)"
  unfolding delivery_suspension_reason_def check_message_rate_throttle_def call_throttle_insert_ready_def
    resolve_def
  by (intro keep_intros; auto intro!: keep_intros split: sum.splits)+

lemma quiet_maildir_loop [keep_intros]: "keeps (same_places w) (maildir_loop env i rs ok bad)"
  by (induction rs arbitrary: ok bad) (auto intro!: keep_intros split: maildir_outcome.splits)

lemma quiet_set_recipient_list [keep_intros]: "keeps (same_places w) (set_recipient_list env i rs)"
  unfolding set_recipient_list_def
  by (intro keep_intros) (simp add: keeps_def upd_msg_def qmod_def same_places_def)

lemma places_timeq_insert: "places j (\<lambda>ok. if ok = True then here j i else 0) (timeq_insert env q i)"
  by (simp add: places_def timeq_insert_def qbind_def get_msg_def qget_def qask_def qmod_def qret_def placed_def
      here_def)

lemma places_insert_delayed: "places j (\<lambda>delayed. if delayed = True then here j i else 0) (insert_delayed env q i ctx)"
proof -
  let ?f = "\<lambda>ok. if ok then qbind (qtry (did_insert_delayed env q i ctx)) (\<lambda>_. qret True) else qret False"
  have "settles ok (?f ok)" for ok
    by (cases ok) (auto intro!: settles_try settles_qret keep_intros)
  then have inner: "places j (\<lambda>delayed. if delayed = True then here j i else 0) (qbind (timeq_insert env q i) ?f)"
    by (intro places_bind_done[OF places_timeq_insert]) blast
  show ?thesis
    unfolding insert_delayed_def by (intro inner places_quiet_bind keep_intros place_intros places_qret; simp)
qed

lemma places_force_into_delayed [place_intros]:
  "places j (\<lambda>_. here j i) (force_into_delayed n env q i ctx)"
proof (induction n)
  case (Suc n)
  have "places j (\<lambda>_. here j i) (qbind (delay_with_jitter env i 60) (\<lambda>_. force_into_delayed n env q i ctx))"
    by (intro places_quiet_bind keep_intros Suc)
  then show ?case
    by (auto intro!: places_bind_bool[OF places_insert_delayed, where y = "()"] settles_qret)
qed (simp add: places_def)

lemma places_expire [place_intros]: "places j (\<lambda>_. here j i) (expire env i)"
  unfolding expire_def by (intro places_quiet_bind keep_intros place_intros)

lemma places_admin_bounce [place_intros]: "places j (\<lambda>_. here j i) (admin_bounce env s i)"
  unfolding admin_bounce_def by (intro places_quiet_bind keep_intros place_intros)

lemma places_spawn_remove [place_intros]: "places j (\<lambda>_. here j i) (spawn_remove env i)"
  unfolding spawn_remove_def by (intro places_quiet_bind keep_intros place_intros)

lemma places_then_ret:
  "places j (\<lambda>_. c) m \<Longrightarrow> k y = c \<Longrightarrow> places j k (qbind m (\<lambda>_. qret y))"
  by (erule places_bind_done) (auto intro: settles_qret)

lemma places_increment_attempts:
  "places j (\<lambda>keep. if keep = False then here j i else 0) (increment_attempts_and_update_delay env q i)"
  unfolding increment_attempts_and_update_delay_def
  by (intro places_quiet_bind[where m = "next_delay env q i"] places_quiet_bind[where m = "get_scheduling env i"]
      places_quiet_bind[where m = "delay_by env i _"] places_quiet_bind[where m = "utc_now env"]
      places_quiet_bind[where m = "qexpect _"] places_quiet_bind[where m = "msg_age i _"]
      keep_intros place_intros places_then_ret[OF places_expire] places_qret; simp)

text \<open>The attempts to make a message ready: it is in its place exactly when there is no error.\<close>

definition ready_count :: "nat \<Rightarrow> nat \<Rightarrow> insert_context \<times> qerror option \<Rightarrow> nat" where
  "ready_count j i = (\<lambda>(_, e). if e = None then here j i else 0)"

lemma places_bail_transient [place_intros]: "places j (ready_count j i) (bail_transient i' code ctx e)"
  unfolding bail_transient_def
  by (intro places_quiet_bind keep_intros places_qret) (simp add: ready_count_def)

lemma places_push_ret [place_intros]:
  "places j (ready_count j i) (qbind (ready_push i) (\<lambda>_. qret (ctx, None)))"
  by (rule places_then_ret[OF places_ready_push]) (simp add: ready_count_def)

lemma places_insert_via_source [place_intros]: "places j (ready_count j i) (insert_via_source env q i ctx)"
  unfolding insert_via_source_def
  by (intro places_quiet_bind[OF keeps_get_msg] places_quiet_bind[OF msg_places.keeps_qask])
    (auto intro!: place_intros split: select_outcome.splits)

lemma places_site_insert [place_intros]: "places j (ready_count j i) (site_insert env i ctx)"
  unfolding site_insert_def
  by (intro places_quiet_bind[OF msg_places.keeps_qask] place_intros)

lemma places_insert_deferred [place_intros]: "places j (ready_count j i) (insert_deferred env i ctx)"
  unfolding insert_deferred_def
  by (intro places_quiet_bind[OF msg_places.keeps_qask] place_intros)

lemma places_remove_ret [place_intros]:
  "places j (ready_count j i) (qbind (spawn_remove env i) (\<lambda>_. qret (ctx, None)))"
  by (rule places_then_ret[OF places_spawn_remove]) (simp add: ready_count_def)

lemma places_maildir_report [place_intros]: "places j (ready_count j i) (maildir_report env i ctx ok bad)"
proof -
  have "places j (ready_count j i)
      (qbind (qtry (set_recipient_list env i bad)) (\<lambda>r.
         qret (c, Some (case r of Inl e \<Rightarrow> e | Inr _ \<Rightarrow> QError ''failed maildir store''))))" for c
    by (intro places_quiet_bind keep_intros places_qret) (simp add: ready_count_def)
  then show ?thesis
    unfolding maildir_report_def by (intro places_remove_ret places_if places_quiet_bind[OF keeps_if]
        places_quiet_bind[OF msg_places.keeps_log] keep_intros)
qed

lemma places_insert_maildir [place_intros]: "places j (ready_count j i) (insert_maildir env i ctx)"
  unfolding insert_maildir_def split_beta
  by (intro place_intros places_quiet_bind keep_intros)

lemma places_insert_ready_impl: "places j (ready_count j i) (insert_ready_impl env q i ctx)"
  unfolding insert_ready_impl_def by (auto intro!: place_intros split: delivery_proto.splits)

text \<open>The rest of the queue operations, for any way to requeue that puts a message into one place.\<close>

definition requeue_places :: "nat \<Rightarrow> requeue_fun \<Rightarrow> bool" where
  "requeue_places j requeue \<longleftrightarrow> (\<forall>i inc d c. places j (\<lambda>_. here j i) (requeue i inc d c))"

lemma requeue_placesD:
  "requeue_places j requeue \<Longrightarrow> places j (\<lambda>_. here j i) (requeue i inc d c)"
  by (simp add: requeue_places_def)

lemma places_try:
  assumes "places j k m" "\<And>x. k x = l (Inr x)" "\<And>e. l (Inl e) = 0"
  shows "places j l (qtry m)"
proof (rule placesI)
  fix w
  show "case qtry m w of Ret x w' \<Rightarrow> placed w' j = placed w j + l x | Fail _ w' \<Rightarrow> placed w' j = placed w j | _ \<Rightarrow> True"
    using assms(1)[unfolded places_def, rule_format, of w] assms(2,3)
    by (cases "m w") (simp_all add: qtry_def)
qed

lemma places_attempt_ready [place_intros]:
  assumes "requeue_places j requeue"
  shows "places j (\<lambda>_. here j i) (attempt_ready env requeue n q i ctx)"
proof -
  define l where "l = (\<lambda>r :: (qerror, insert_context \<times> qerror option) result.
    case r of Inl _ \<Rightarrow> 0 | Inr p \<Rightarrow> ready_count j i p)"
  have "places j l (qtry (insert_ready_impl env q i ctx))"
    by (rule places_try[OF places_insert_ready_impl]) (simp_all add: l_def)
  moreover have "(l r = 0 \<and> places j (\<lambda>_. here j i) (after_ready env requeue n q i ctx r))
      \<or> (\<exists>y. settles y (after_ready env requeue n q i ctx r) \<and> here j i = l r)" for r
  proof (cases "snd (ready_result ctx r)")
    case None
    then have "after_ready env requeue n q i ctx r = qret ()" "l r = here j i"
      by (auto simp: after_ready_def ready_result_def l_def ready_count_def split_beta split: sum.splits)
    then show ?thesis using settles_qret[of "()"] by metis
  next
    case (Some e)
    then have "l r = 0" by (auto simp: ready_result_def l_def ready_count_def split: sum.splits)
    moreover have "places j (\<lambda>_. here j i) (after_ready env requeue n q i ctx r)"
      using Some requeue_placesD[OF assms]
      by (cases e) (auto simp: after_ready_def split_beta intro!: places_force_into_delayed)
    ultimately show ?thesis by blast
  qed
  ultimately show ?thesis
    unfolding attempt_ready_def by (intro places_bind_done)
qed

lemma places_log_requeue [place_intros]:
  "requeue_places j requeue \<Longrightarrow> places j (\<lambda>_. here j i) (log_and_requeue_for_unhealthy_spool requeue i)"
  unfolding log_and_requeue_for_unhealthy_spool_def by (intro places_quiet_bind keep_intros requeue_placesD)

lemma places_insert_ready [place_intros]:
  assumes "requeue_places j requeue"
  shows "places j (\<lambda>_. here j i) (insert_ready env requeue n q i ctx)"
  unfolding insert_ready_def
  by (intro requeue_placesD[OF assms] place_intros assms places_quiet_bind keep_intros)

lemma places_queue_insert [place_intros]:
  assumes "requeue_places j requeue"
  shows "places j (\<lambda>_. here j i) (queue_insert env requeue n q i ctx)"
proof -
  have park: "places j (\<lambda>_. here j i) (qmod (\<lambda>w. w\<lparr>w_parked := w_parked w @ [i]\<rparr>))"
    by (simp add: places_def qmod_def placed_def here_def)
  have delayed: "places j (\<lambda>_. here j i) (qbind (insert_delayed env q i ctx) (\<lambda>delayed.
      if delayed then qret () else insert_ready env requeue n q i ctx))"
    by (auto intro!: places_bind_bool[OF places_insert_delayed, where y = "()"] places_insert_ready assms settles_qret)
  show ?thesis
    unfolding queue_insert_def by (intro park delayed place_intros assms places_quiet_bind keep_intros)
qed

lemma places_requeue_message_internal [place_intros]:
  assumes "requeue_places j requeue"
  shows "places j (\<lambda>_. here j i) (requeue_message_internal env requeue n q i inc d ctx)"
proof -
  have "places j (\<lambda>_. here j i) (qbind (increment_attempts_and_update_delay env q i) (\<lambda>keep.
      if keep then queue_insert env requeue n q i ctx else qret ()))"
    by (auto intro!: places_bind_bool[OF places_increment_attempts, where y = "()"] places_queue_insert assms settles_qret)
  then show ?thesis
    unfolding requeue_message_internal_def
    by (auto intro!: place_intros assms places_quiet_bind keep_intros)
qed

lemma places_requeue_message: "requeue_places j (requeue_message n env)"
proof (induction n)
  case (Suc n)
  note internal = places_requeue_message_internal[OF Suc]
  show ?case
    unfolding requeue_places_def
    by (auto intro!: internal place_intros places_quiet_bind keep_intros split: requeue_outcome.splits)
qed (simp add: requeue_places_def places_def)

section \<open>Removals are logged\<close>

definition final_record :: "nat \<Rightarrow> world \<Rightarrow> bool" where
  "final_record i w \<longleftrightarrow> (\<exists>r \<in> set (w_log w). lr_id r = i \<and> lr_kind r \<in> {Bounce, AdminBounce, Expiration, Delivery})"

text \<open>Every message has a recipient, and the log says why the removed messages are gone.\<close>

definition accounted :: "world \<Rightarrow> bool" where
  "accounted w \<longleftrightarrow> have_recipients w \<and> (\<forall>i \<in> set (w_removed w). final_record i w)"

text \<open>A triple: from a state with \<open>P\<close>, a result with \<open>Q\<close> or a failure with \<open>E\<close>.\<close>

definition triple :: "(world \<Rightarrow> bool) \<Rightarrow> 'a qm \<Rightarrow> ('a \<Rightarrow> world \<Rightarrow> bool) \<Rightarrow> (world \<Rightarrow> bool) \<Rightarrow> bool" where
  "triple P m Q E \<longleftrightarrow> (\<forall>w. P w \<longrightarrow> (case m w of Ret x w' \<Rightarrow> Q x w' | Fail _ w' \<Rightarrow> E w' | _ \<Rightarrow> True))"

lemma keeps_triple: "keeps I m \<longleftrightarrow> triple I m (\<lambda>_. I) I"
  by (simp add: keeps_def triple_def)

lemma triple_bind:
  assumes "triple P m Q E" "\<And>x. triple (Q x) (f x) R E"
  shows "triple P (qbind m f) R E"
  unfolding triple_def
proof (intro allI impI)
  fix w assume "P w"
  then have m: "case m w of Ret x w' \<Rightarrow> Q x w' | Fail _ w' \<Rightarrow> E w' | _ \<Rightarrow> True"
    using assms(1) unfolding triple_def by blast
  show "case qbind m f w of Ret x w' \<Rightarrow> R x w' | Fail _ w' \<Rightarrow> E w' | _ \<Rightarrow> True"
  proof (cases "m w")
    case (Ret x w')
    then show ?thesis using m assms(2)[of x, unfolded triple_def] by (simp add: qbind_def)
  qed (use m in \<open>simp_all add: qbind_def\<close>)
qed

lemma triple_weaken:
  assumes "triple P' m Q' E'" "\<And>w. P w \<Longrightarrow> P' w" "\<And>x w. Q' x w \<Longrightarrow> Q x w" "\<And>w. E' w \<Longrightarrow> E w"
  shows "triple P m Q E"
  unfolding triple_def
proof (intro allI impI)
  fix w assume "P w"
  then have "case m w of Ret x w' \<Rightarrow> Q' x w' | Fail _ w' \<Rightarrow> E' w' | _ \<Rightarrow> True"
    using assms(1,2) unfolding triple_def by blast
  then show "case m w of Ret x w' \<Rightarrow> Q x w' | Fail _ w' \<Rightarrow> E w' | _ \<Rightarrow> True"
    using assms(3,4) by (cases "m w") simp_all
qed

interpretation msg_accounted: message_invariant accounted
proof
qed (auto simp: accounted_def have_recipients_def final_record_def set_msg_def)

text \<open>With the final record of message \<open>i\<close> in the log, removing it is accounted for.\<close>

definition accounted_for :: "nat \<Rightarrow> world \<Rightarrow> bool" where
  "accounted_for i w \<longleftrightarrow> accounted w \<and> final_record i w"

interpretation msg_accounted_for: message_invariant "accounted_for i" for i
proof
qed (auto simp: accounted_for_def accounted_def have_recipients_def final_record_def set_msg_def)

lemma triple_log_final:
  "k \<in> {Bounce, AdminBounce, Expiration, Delivery}
     \<Longrightarrow> triple accounted (log_disposition k i code) (\<lambda>_. accounted_for i) accounted"
  by (auto simp: triple_def log_disposition_def qmod_def accounted_for_def accounted_def have_recipients_def
      final_record_def)

lemma triple_remove: "triple (accounted_for i) (remove_from_spool env i) (\<lambda>_. accounted) accounted"
  by (auto simp: triple_def remove_from_spool_def qbind_def qask_def qmod_def accounted_for_def accounted_def
      have_recipients_def final_record_def)

lemma keeps_log_remove:
  "k \<in> {Bounce, AdminBounce, Expiration, Delivery}
     \<Longrightarrow> keeps accounted (qbind (log_disposition k i code) (\<lambda>_. remove_from_spool env i))"
  unfolding keeps_triple by (rule triple_bind[OF triple_log_final triple_remove])

lemma accounted_queues [keep_intros]:
  "keeps accounted (timeq_insert env q i)" "keeps accounted (ready_push i)"
  unfolding timeq_insert_def ready_push_def
  by (intro keep_intros keeps_qmod; simp add: accounted_def have_recipients_def final_record_def)+

lemma accounted_save [keep_intros]:
  "keeps accounted (save_if_needed env i cfg)" "keeps accounted (save_if_needed_and_log env i cfg)"
  unfolding save_if_needed_and_log_def save_if_needed_def
  by (intro keep_intros; auto intro!: keep_intros split: memory_reduction_policy.splits)+

lemma accounted_delayed [keep_intros]:
  "keeps accounted (did_insert_delayed env q i ctx)" "keeps accounted (insert_delayed env q i ctx)"
  unfolding insert_delayed_def did_insert_delayed_def by (intro keep_intros)+

lemma accounted_force_into_delayed [keep_intros]: "keeps accounted (force_into_delayed n env q i ctx)"
  by (induction n) (auto intro!: keep_intros)

lemma accounted_next_delay [keep_intros]: "keeps accounted (next_delay env q i)"
  unfolding next_delay_def by (intro keep_intros)

lemma accounted_expire [keep_intros]: "keeps accounted (expire env i)"
  unfolding expire_def by (rule keeps_log_remove) simp

lemma accounted_increment_attempts [keep_intros]:
  "keeps accounted (increment_attempts_and_update_delay env q i)"
  unfolding increment_attempts_and_update_delay_def by (intro keep_intros)

lemma accounted_bail_transient [keep_intros]: "keeps accounted (bail_transient i code ctx e)"
  unfolding bail_transient_def by (intro keep_intros)

lemma accounted_sources [keep_intros]:
  "keeps accounted (insert_via_source env q i ctx)" "keeps accounted (site_insert env i ctx)"
  "keeps accounted (insert_deferred env i ctx)"
  unfolding insert_deferred_def site_insert_def insert_via_source_def
  by (intro keep_intros; auto intro!: keep_intros split: select_outcome.splits)+

text \<open>A delivery to maildirs: every recipient is either written or failed, so when none failed the
  \<^verbatim>\<open>Delivery\<close> record is in the log before the removal.\<close>

lemma triple_maildir_loop:
  "triple accounted (maildir_loop env i rs ok bad)
     (\<lambda>p w. accounted w \<and> length (fst p) + length (snd p) = length rs + length ok + length bad) accounted"
proof (induction rs arbitrary: ok bad)
  case (Cons r rs)
  have step: "triple accounted (load_meta_if_needed env i) (\<lambda>_. accounted) accounted"
    "triple accounted (qask f) (\<lambda>_. accounted) accounted" "triple accounted (qerr e) (\<lambda>_. accounted) accounted"
    for f :: "nat \<Rightarrow> 'b" and e
    by (simp_all add: keep_intros flip: keeps_triple)
  have fail: "triple accounted (qfail e) Q accounted" for e and Q :: "address list \<times> address list \<Rightarrow> world \<Rightarrow> bool"
    by (simp add: triple_def qfail_def)
  show ?case
    unfolding maildir_loop.simps
    by (intro triple_bind[OF step(1)] triple_bind[OF step(2)] triple_bind[OF step(3)])
      (use Cons.IH[of "ok @ [r]" bad] Cons.IH[of ok "bad @ [r]"] in
        \<open>auto intro!: fail split: maildir_outcome.splits\<close>)
qed (simp add: triple_def qret_def)

lemma triple_recipient_list:
  "triple accounted (recipient_list env i) (\<lambda>rs w. accounted w \<and> rs \<noteq> []) accounted"
proof -
  have "keeps accounted (load_meta_if_needed env i)" by (intro keep_intros)
  then show ?thesis
    unfolding recipient_list_def with_meta_def keeps_triple
    by (rule triple_bind) (auto simp: triple_def qbind_def get_msg_def qget_def qret_def qfail_def accounted_def
        have_recipients_def split: option.splits)
qed

lemma triple_spawn_remove:
  "triple (accounted_for i) (qbind (spawn_remove env i) (\<lambda>_. qret x)) (\<lambda>_. accounted) accounted"
proof -
  have ask: "triple (accounted_for i) (qask f) (\<lambda>_. accounted_for i) accounted"
    "triple (accounted_for i) (qerr e) (\<lambda>_. accounted_for i) accounted" for f :: "nat \<Rightarrow> string option" and e
    by (rule triple_weaken[of "accounted_for i" _ "\<lambda>_. accounted_for i" "accounted_for i"];
        simp add: accounted_for_def keep_intros flip: keeps_triple)+
  show ?thesis
    unfolding spawn_remove_def
    by (intro triple_bind[where Q = "\<lambda>_. accounted"] triple_bind[OF ask(1)] triple_bind[OF ask(2)] triple_remove)
      (simp add: triple_def qret_def)
qed

lemma accounted_maildir_report:
  assumes "ok \<noteq> [] \<or> bad \<noteq> []"
  shows "keeps accounted (maildir_report env i ctx ok bad)"
proof (cases "bad = []")
  case True
  then have "ok \<noteq> []" using assms by simp
  then show ?thesis unfolding maildir_report_def keeps_triple using True
    by (auto intro!: triple_bind[OF triple_log_final triple_spawn_remove])
next
  case False
  then show ?thesis
    unfolding maildir_report_def
    by (auto intro!: keeps_qbind keeps_qtry keeps_if keeps_qret msg_accounted.keeps_log
        msg_accounted.keeps_set_recipient_list)
qed

lemma accounted_maildir [keep_intros]: "keeps accounted (insert_maildir env i ctx)"
proof -
  have quiet: "triple accounted (load_data_if_needed env i) (\<lambda>_. accounted) accounted"
    "triple accounted (get_queue_name env i) (\<lambda>_. accounted) accounted"
    "triple accounted (load_meta_if_needed env i) (\<lambda>_. accounted) accounted"
    by (simp_all add: keep_intros flip: keeps_triple)
  have report: "triple (\<lambda>w. accounted w \<and> length (fst p) + length (snd p) = length rs)
      (case p of (ok, bad) \<Rightarrow> maildir_report env i ctx ok bad) (\<lambda>_. accounted) accounted"
    if "rs \<noteq> []" for p and rs :: "address list"
  proof (cases "fst p \<noteq> [] \<or> snd p \<noteq> []")
    case True
    then show ?thesis
      using accounted_maildir_report[of "fst p" "snd p" env i ctx] unfolding keeps_triple split_beta triple_def by simp
  qed (use that in \<open>simp add: triple_def\<close>)
  have "triple (\<lambda>w. accounted w \<and> rs \<noteq> []) (qbind (maildir_loop env i rs [] [])
      (\<lambda>(ok, bad). maildir_report env i ctx ok bad)) (\<lambda>_. accounted) accounted" for rs
  proof (cases "rs = []")
    case False
    from triple_bind[OF triple_maildir_loop[of env i rs "[]" "[]", simplified] report[OF False]]
    show ?thesis by (rule triple_weaken) auto
  qed (simp add: triple_def)
  then show ?thesis
    unfolding insert_maildir_def keeps_triple
    by (intro triple_bind[OF quiet(1)] triple_bind[OF quiet(2)] triple_bind[OF quiet(3)]
        triple_bind[OF triple_recipient_list])
qed

text \<open>What is asked of the environment and of the queue for the removals to be logged: the administrative
  bounces do not suppress their records, the queues do not discard, and the event handlers leave a
  message its recipients.\<close>

definition keeps_recipients :: "message \<Rightarrow> bool" where
  "keeps_recipients m \<longleftrightarrow> (\<forall>md. m_metadata m = Some md \<longrightarrow> md_recipient md \<noteq> [])"

definition logs_removals :: "qenv \<Rightarrow> bool" where
  "logs_removals env \<longleftrightarrow>
     (\<forall>t name. bounce_for_queue_name env t name \<noteq> Some True)
     \<and> (\<forall>t name cfg. resolve_queue env t name = Inr cfg \<longrightarrow> protocol cfg \<noteq> NullProto)
     \<and> (\<forall>t m m'. keeps_recipients m \<longrightarrow> throttle_insert_ready_event env t m = Inr m' \<longrightarrow> keeps_recipients m')
     \<and> (\<forall>t m inc d c m'. keeps_recipients m \<longrightarrow> requeue_message_event env t m inc d c = Requeued m'
          \<longrightarrow> keeps_recipients m')"

lemma accounted_insert_ready_impl:
  "protocol (sq_config q) \<noteq> NullProto \<Longrightarrow> keeps accounted (insert_ready_impl env q i ctx)"
  unfolding insert_ready_impl_def by (auto intro!: keep_intros split: delivery_proto.splits)

lemma accounted_apply_event: "keeps_recipients m \<Longrightarrow> keeps accounted (apply_event i m)"
  by (auto simp: keeps_def apply_event_def upd_msg_def qmod_def accounted_def have_recipients_def final_record_def
      keeps_recipients_def)

text \<open>A question whose answers are known to have a property.\<close>

lemma keeps_ask_bind:
  assumes "\<And>w t. I w \<Longrightarrow> I (w\<lparr>w_tick := t\<rparr>)" "\<And>t. keeps I (f (g t))"
  shows "keeps I (qbind (qask g) f)"
  using assms unfolding keeps_def qbind_def qask_def by simp

lemmas accounted_ask_bind = keeps_ask_bind[where I = accounted, OF msg_accounted.inv_tick]

lemma accounted_admin_bounce: "keeps accounted (admin_bounce env False i)"
  unfolding admin_bounce_def using keeps_log_remove by simp

lemma accounted_ready_questions [keep_intros]:
  "keeps accounted (delivery_suspension_reason env)"
  "keeps accounted (check_message_rate_throttle env q)"
  unfolding delivery_suspension_reason_def check_message_rate_throttle_def
  by (intro keep_intros; auto intro!: keep_intros split: sum.splits)+

text \<open>The messages of an accounted state have recipients.\<close>

lemma accounted_get_msg_bind:
  assumes "\<And>m. keeps_recipients m \<Longrightarrow> keeps accounted (f m)"
  shows "keeps accounted (qbind (get_msg i) f)"
  using assms unfolding keeps_def qbind_def get_msg_def qget_def
  by (auto simp: accounted_def have_recipients_def keeps_recipients_def)

lemma accounted_call_throttle:
  assumes "logs_removals env"
  shows "keeps accounted (call_throttle_insert_ready env i)"
  unfolding call_throttle_insert_ready_def
proof (intro accounted_get_msg_bind accounted_ask_bind)
  fix m t assume "keeps_recipients m"
  then have "keeps_recipients m'" if "throttle_insert_ready_event env t m = Inr m'" for m'
    using assms that unfolding logs_removals_def by blast
  then show "keeps accounted (case throttle_insert_ready_event env t m of Inl e \<Rightarrow> qfail e | Inr m' \<Rightarrow> apply_event i m')"
    by (cases "throttle_insert_ready_event env t m") (simp_all add: accounted_apply_event keeps_fail)
qed

lemma accounted_bounce_case:
  assumes "logs_removals env" "keeps accounted rest"
  shows "keeps accounted (qbind (qask (\<lambda>t. bounce_for_queue_name env t name)) (\<lambda>b.
    case b of Some suppress \<Rightarrow> admin_bounce env suppress i | None \<Rightarrow> rest))"
proof (rule accounted_ask_bind)
  fix t
  have "bounce_for_queue_name env t name \<noteq> Some True" using assms(1) by (simp add: logs_removals_def)
  then show "keeps accounted (case bounce_for_queue_name env t name of
      Some suppress \<Rightarrow> admin_bounce env suppress i | None \<Rightarrow> rest)"
    using assms(2) accounted_admin_bounce by (auto split: option.splits)
qed

definition requeue_accounted :: "requeue_fun \<Rightarrow> bool" where
  "requeue_accounted requeue \<longleftrightarrow> (\<forall>i inc d c. keeps accounted (requeue i inc d c))"

lemma requeue_accountedD: "requeue_accounted requeue \<Longrightarrow> keeps accounted (requeue i inc d c)"
  by (simp add: requeue_accounted_def)

lemma accounted_insert_ready:
  assumes "logs_removals env" "requeue_accounted requeue" "protocol (sq_config q) \<noteq> NullProto"
  shows "keeps accounted (insert_ready env requeue n q i ctx)"
proof -
  have attempt: "keeps accounted (attempt_ready env requeue n q i ctx)"
    unfolding attempt_ready_def after_ready_def Let_def split_beta
    by (intro keeps_qbind keeps_qtry accounted_insert_ready_impl assms(3))
      (auto intro!: keep_intros requeue_accountedD[OF assms(2)] split: qerror.splits)
  have unhealthy: "keeps accounted (log_and_requeue_for_unhealthy_spool requeue i)"
    unfolding log_and_requeue_for_unhealthy_spool_def
    by (intro keeps_qbind requeue_accountedD[OF assms(2)] keep_intros)
  show ?thesis
    unfolding insert_ready_def
    by (intro attempt unhealthy requeue_accountedD[OF assms(2)] accounted_bounce_case[OF assms(1)]
        accounted_call_throttle[OF assms(1)] keep_intros)
qed

lemma accounted_queue_insert:
  assumes "logs_removals env" "requeue_accounted requeue" "protocol (sq_config q) \<noteq> NullProto"
  shows "keeps accounted (queue_insert env requeue n q i ctx)"
proof -
  have "keeps accounted (qmod (\<lambda>w. w\<lparr>w_parked := w_parked w @ [i]\<rparr>))"
    by (rule keeps_qmod) (simp add: accounted_def have_recipients_def final_record_def)
  then show ?thesis
    unfolding queue_insert_def
    by (intro accounted_bounce_case[OF assms(1)] accounted_insert_ready[OF assms] keep_intros)
qed

lemma accounted_requeue_message_internal:
  assumes "logs_removals env" "requeue_accounted requeue" "protocol (sq_config q) \<noteq> NullProto"
  shows "keeps accounted (requeue_message_internal env requeue n q i inc d ctx)"
  unfolding requeue_message_internal_def
  by (intro accounted_queue_insert[OF assms] keep_intros)

lemma accounted_resolve_bind:
  assumes "logs_removals env"
    "\<And>q. protocol (sq_config q) \<noteq> NullProto \<Longrightarrow> keeps accounted (f q)"
  shows "keeps accounted (qbind (resolve env name) f)"
proof -
  have "qbind (resolve env name) f = qbind (qask (\<lambda>t. resolve_queue env t name)) (\<lambda>r.
      case r of Inl e \<Rightarrow> qfail e | Inr cfg \<Rightarrow> f \<lparr>sq_name = name, sq_config = cfg\<rparr>)"
    by (auto simp: fun_eq_iff resolve_def qbind_def qask_def qfail_def qret_def split: sum.splits)
  moreover have "keeps accounted (case resolve_queue env t name of
      Inl e \<Rightarrow> qfail e | Inr cfg \<Rightarrow> f \<lparr>sq_name = name, sq_config = cfg\<rparr>)" for t
    using assms by (auto simp: logs_removals_def intro: keep_intros split: sum.splits)
  ultimately show ?thesis by (simp add: accounted_ask_bind)
qed

lemma keeps_requeue_outcome:
  assumes "\<And>m. r = Requeued m \<Longrightarrow> keeps I (f m)" "\<And>c. r = Rejected c \<Longrightarrow> keeps I (g c)"
    "\<And>e. r = EventError e \<Longrightarrow> keeps I (h e)" "\<And>e. r = ConfigError e \<Longrightarrow> keeps I (k e)"
  shows "keeps I (case r of Requeued m \<Rightarrow> f m | Rejected c \<Rightarrow> g c | EventError e \<Rightarrow> h e | ConfigError e \<Rightarrow> k e)"
  using assms by (cases r) simp_all

lemma accounted_requeue_message:
  assumes "logs_removals env"
  shows "requeue_accounted (requeue_message n env)"
proof (induction n)
  case (Suc n)
  note internal = accounted_requeue_message_internal[OF assms Suc]
  have events: "keeps_recipients m \<Longrightarrow> requeue_message_event env t m inc d c = Requeued m' \<Longrightarrow> keeps_recipients m'"
    for t m inc d c m'
    using assms unfolding logs_removals_def by blast
  have "keeps accounted (requeue_message (Suc n) env i inc d ctx)" for i inc d ctx
    unfolding requeue_message.simps
    by (intro keeps_qbind[OF msg_accounted.keeps_load_meta_if_needed] keeps_qbind[OF msg_accounted.keeps_get_queue_name]
        accounted_get_msg_bind accounted_ask_bind keeps_requeue_outcome keeps_qbind[OF accounted_apply_event]
        accounted_resolve_bind[OF assms] internal keeps_log_remove keep_intros; (erule (1) events)?; simp)
  then show ?case by (simp add: requeue_accounted_def)
qed (simp add: requeue_accounted_def keeps_def)

end
