(* ===== verification/Queue_Returns.thy ===== *)
theory Queue_Returns
  imports Scheduled_Queue
begin

text \<open>
  When the operations of a scheduled queue return.  The recursion through \<^verbatim>\<open>requeue_message\<close> and the
  loop of \<^verbatim>\<open>force_into_delayed\<close> end as soon as a requeued message is due in the future; this theory
  shows that one level of requeueing is enough in an environment that is calm: the clock advances by
  less than a second during the operation, the timer queue takes what is due later, and the delays are
  at least a second.
\<close>

section \<open>Computations that return\<close>

definition answers :: "'a qm \<Rightarrow> bool" where
  "answers m \<longleftrightarrow> (\<forall>w. m w \<noteq> Panic \<and> m w \<noteq> Spin)"

named_theorems answer_intros \<open>computations that return or fail\<close>

lemma answers_basic [answer_intros]:
  "answers (qret x)" "answers (qfail e)" "answers (Fail err)" "answers (qget f)" "answers (qmod g)"
  "answers (qask h)" "answers (get_msg i)" "answers (upd_msg i u)" "answers (log_disposition k i c)"
  by (simp_all add: answers_def qret_def qfail_def qget_def qmod_def qask_def get_msg_def upd_msg_def
      log_disposition_def)

lemma answers_qerr [answer_intros]: "answers (qerr e)"
  by (cases e) (simp_all add: qerr_def answer_intros)

lemma answers_qbind [answer_intros]:
  assumes "answers m" "\<And>x. answers (f x)"
  shows "answers (qbind m f)"
  unfolding answers_def
proof
  fix w
  show "qbind m f w \<noteq> Panic \<and> qbind m f w \<noteq> Spin"
    using assms(1)[unfolded answers_def, rule_format, of w] assms(2)[unfolded answers_def, rule_format]
    by (cases "m w") (simp_all add: qbind_def)
qed

lemma answers_qtry [answer_intros]:
  assumes "answers m"
  shows "answers (qtry m)"
  unfolding answers_def
proof
  fix w
  show "qtry m w \<noteq> Panic \<and> qtry m w \<noteq> Spin"
    using assms[unfolded answers_def, rule_format, of w] by (cases "m w") (simp_all add: qtry_def)
qed

lemma answers_if [answer_intros]:
  "(b \<Longrightarrow> answers x) \<Longrightarrow> (\<not> b \<Longrightarrow> answers y) \<Longrightarrow> answers (if b then x else y)"
  by simp

lemma answers_option [answer_intros]:
  "(x = None \<Longrightarrow> answers f) \<Longrightarrow> (\<And>a. x = Some a \<Longrightarrow> answers (g a))
     \<Longrightarrow> answers (case x of None \<Rightarrow> f | Some a \<Rightarrow> g a)"
  by (cases x) auto

lemma answers_load [answer_intros]:
  "answers (load_meta env i)" "answers (load_meta_if_needed env i)" "answers (load_data_if_needed env i)"
  unfolding load_meta_if_needed_def load_meta_def load_data_if_needed_def by (intro answer_intros)+

lemma answers_with_meta [answer_intros]: "(\<And>md. answers (f md)) \<Longrightarrow> answers (with_meta env i f)"
  unfolding with_meta_def by (intro answer_intros)

lemma answers_get_meta [answer_intros]: "answers (get_meta env i key)"
  unfolding get_meta_def by (intro answer_intros)

lemma answers_reading [answer_intros]:
  "answers (get_meta_string env i key)" "answers (first_recipient env i)" "answers (recipient_list env i)"
  "answers (get_scheduling env i)" "answers (get_due i)" "answers (utc_now env)" "answers (get_num_attempts i)"
  "answers (msg_age i t)" "answers (msg_delay env i)" "answers (needs_save i)"
  unfolding get_meta_string_def first_recipient_def recipient_list_def get_scheduling_def get_due_def
    utc_now_def get_num_attempts_def msg_age_def msg_delay_def needs_save_def
  by (intro answer_intros; auto intro!: answer_intros split: meta_value.splits list.splits)+

lemma answers_get_queue_name [answer_intros]: "answers (get_queue_name env i)"
  unfolding get_queue_name_def by (intro answer_intros)

lemma answers_writing [answer_intros]:
  "answers (set_recipient_list env i rs)" "answers (set_due env i d)" "answers (delay_by env i e)"
  "answers (delay_with_jitter env i n)" "answers (increment_num_attempts i)" "answers (store_data env i)"
  "answers (store_meta env i)" "answers (shrink i)" "answers (shrink_data i)" "answers (remove_from_spool env i)"
  unfolding set_recipient_list_def delay_with_jitter_def delay_by_def set_due_def Let_def increment_num_attempts_def
    store_data_def store_meta_def shrink_def shrink_data_def remove_from_spool_def utc_now_def
  by (intro answer_intros)+

lemma answers_save [answer_intros]:
  "answers (save env i)" "answers (save_if_needed env i cfg)" "answers (save_if_needed_and_log env i cfg)"
proof -
  show *: "answers (save env i)"
    unfolding save_def by (intro answer_intros; auto intro!: answer_intros split: sum.splits)
  show "answers (save_if_needed env i cfg)" "answers (save_if_needed_and_log env i cfg)"
    unfolding save_if_needed_and_log_def save_if_needed_def
    by (intro answer_intros *; auto intro!: answer_intros split: memory_reduction_policy.splits)+
qed

lemma answers_insert_delayed [answer_intros]:
  "answers (did_insert_delayed env q i ctx)" "answers (timeq_insert env q i)" "answers (insert_delayed env q i ctx)"
  unfolding insert_delayed_def did_insert_delayed_def timeq_insert_def by (intro answer_intros)+

lemma answers_maildir_loop [answer_intros]: "answers (maildir_loop env i rs ok bad)"
  by (induction rs arbitrary: ok bad) (auto intro!: answer_intros split: maildir_outcome.splits)

lemma answers_removing [answer_intros]:
  "answers (expire env i)" "answers (admin_bounce env b i)" "answers (spawn_remove env i)"
  unfolding expire_def admin_bounce_def spawn_remove_def by (intro answer_intros)+

lemma answers_insert_ready_impl [answer_intros]: "answers (insert_ready_impl env q i ctx)"
  unfolding insert_ready_impl_def insert_via_source_def insert_deferred_def site_insert_def insert_maildir_def
    maildir_report_def bail_transient_def ready_push_def split_beta
  by (auto intro!: answer_intros split: delivery_proto.splits select_outcome.splits)

lemma answers_ready_questions [answer_intros]:
  "answers (delivery_suspension_reason env)" "answers (check_message_rate_throttle env q)"
  "answers (call_throttle_insert_ready env i)" "answers (resolve env name)"
  unfolding delivery_suspension_reason_def check_message_rate_throttle_def call_throttle_insert_ready_def
    apply_event_def resolve_def
  by (intro answer_intros; auto intro!: answer_intros split: sum.splits)+

section \<open>A calm environment\<close>

text \<open>A retry schedule whose delays are at least a second for every attempt, the jitter included.\<close>

definition steady :: "queue_config \<Rightarrow> bool" where
  "steady cfg \<longleftrightarrow> (\<exists>cap. max_retry_interval cfg = Some cap \<and> retry_interval cfg \<le> cap \<and> cap div nanos < 2 ^ 40)
     \<and> 2 * nanos \<le> retry_interval cfg \<and> chrono_valid (int (max_age cfg))"

definition calm :: "qenv \<Rightarrow> bool" where
  "calm env \<longleftrightarrow>
     (\<forall>t t'. now_at env t < now_at env t' + chrono_nanos)
     \<and> (\<forall>t. 1 / 60 \<le> random_at env t \<and> random_at env t < 1)
     \<and> (\<forall>t name m d. m_due m = Some d \<longrightarrow> (\<forall>t'. now_at env t' < d) \<longrightarrow> timeq_accepts env t name m)
     \<and> (\<forall>t m m'. throttle_insert_ready_event env t m = Inr m' \<longrightarrow> m' = m)
     \<and> (\<forall>t m inc d c m'. requeue_message_event env t m inc d c = Requeued m' \<longrightarrow> m' = m)
     \<and> (\<forall>t key spec d. message_rate_throttle env t key spec = Inr (Some d) \<longrightarrow> nanos \<le> d)
     \<and> (\<forall>t name cfg. resolve_queue env t name = Inr cfg \<longrightarrow> steady cfg)"

lemma calmD:
  assumes "calm env"
  shows calm_clock: "now_at env t < now_at env t' + chrono_nanos"
    and calm_random: "1 / 60 \<le> random_at env t" "random_at env t < 1"
    and calm_timeq: "m_due m = Some d \<Longrightarrow> \<forall>t'. now_at env t' < d \<Longrightarrow> timeq_accepts env t name m"
    and calm_throttle_event: "throttle_insert_ready_event env t m = Inr m' \<Longrightarrow> m' = m"
    and calm_requeue_event: "requeue_message_event env t m inc e c = Requeued m' \<Longrightarrow> m' = m"
    and calm_rate: "message_rate_throttle env t key spec = Inr (Some n) \<Longrightarrow> nanos \<le> n"
    and calm_resolve: "resolve_queue env t name = Inr cfg \<Longrightarrow> steady cfg"
  using assms by (auto simp: calm_def)

text \<open>A computation that returns a result with \<open>Q\<close> or fails, from a state with \<open>P\<close>.\<close>

definition run :: "(world \<Rightarrow> bool) \<Rightarrow> 'a qm \<Rightarrow> ('a \<Rightarrow> world \<Rightarrow> bool) \<Rightarrow> bool" where
  "run P m Q \<longleftrightarrow> (\<forall>w. P w \<longrightarrow> (case m w of Ret x w' \<Rightarrow> Q x w' | Fail _ _ \<Rightarrow> True | _ \<Rightarrow> False))"

lemma run_bind:
  assumes "run P m Q" "\<And>x. run (Q x) (f x) R"
  shows "run P (qbind m f) R"
  unfolding run_def
proof (intro allI impI)
  fix w assume "P w"
  then have m: "case m w of Ret x w' \<Rightarrow> Q x w' | Fail _ _ \<Rightarrow> True | _ \<Rightarrow> False"
    using assms(1) unfolding run_def by blast
  show "case qbind m f w of Ret x w' \<Rightarrow> R x w' | Fail _ _ \<Rightarrow> True | _ \<Rightarrow> False"
  proof (cases "m w")
    case (Ret x w')
    then show ?thesis using m assms(2)[of x, unfolded run_def] by (simp add: qbind_def)
  qed (use m in \<open>simp_all add: qbind_def\<close>)
qed

lemma run_weaken: "run P' m Q' \<Longrightarrow> (\<And>w. P w \<Longrightarrow> P' w) \<Longrightarrow> (\<And>x w. Q' x w \<Longrightarrow> Q x w) \<Longrightarrow> run P m Q"
  unfolding run_def by (force split: outcome.splits)

lemma run_answers:
  assumes "answers m"
  shows "run P m (\<lambda>_ _. True)"
  unfolding run_def
proof (intro allI impI)
  fix w show "case m w of Ret _ _ \<Rightarrow> True | Fail _ _ \<Rightarrow> True | _ \<Rightarrow> False"
    using assms[unfolded answers_def, rule_format, of w] by (cases "m w") simp_all
qed

lemma run_keeps:
  assumes "answers m" "keeps I m"
  shows "run I m (\<lambda>_. I)"
  unfolding run_def
proof (intro allI impI)
  fix w assume "I w"
  then have "case m w of Ret _ w' \<Rightarrow> I w' | Fail _ w' \<Rightarrow> I w' | _ \<Rightarrow> True" using assms(2) unfolding keeps_def by blast
  then show "case m w of Ret _ w' \<Rightarrow> I w' | Fail _ _ \<Rightarrow> True | _ \<Rightarrow> False"
    using assms(1)[unfolded answers_def, rule_format, of w] by (cases "m w") simp_all
qed

text \<open>A step that returns and keeps an invariant, then the rest.\<close>

lemma run_step: "answers m \<Longrightarrow> keeps I m \<Longrightarrow> (\<And>x. run I (f x) R) \<Longrightarrow> run I (qbind m f) R"
  by (rule run_bind[OF run_keeps])

lemma run_if: "(b \<Longrightarrow> run P x Q) \<Longrightarrow> (\<not> b \<Longrightarrow> run P y Q) \<Longrightarrow> run P (if b then x else y) Q"
  by simp

lemma run_option:
  "(x = None \<Longrightarrow> run P f Q) \<Longrightarrow> (\<And>a. x = Some a \<Longrightarrow> run P (g a) Q)
     \<Longrightarrow> run P (case x of None \<Rightarrow> f | Some a \<Rightarrow> g a) Q"
  by (cases x) auto

lemma run_qret: "(\<And>w. P w \<Longrightarrow> Q x w) \<Longrightarrow> run P (qret x) Q"
  by (simp add: run_def qret_def)

section \<open>Delays lie in the future\<close>

definition unscheduled :: "nat \<Rightarrow> world \<Rightarrow> bool" where
  "unscheduled i w \<longleftrightarrow> \<not> m_scheduled (w_msg w i)"

interpretation msg_unscheduled: message_invariant "unscheduled i" for i
  by unfold_locales (auto simp: unscheduled_def set_msg_def same_identity_def)

definition due_later :: "qenv \<Rightarrow> nat \<Rightarrow> world \<Rightarrow> bool" where
  "due_later env i w \<longleftrightarrow> (\<exists>d. m_due (w_msg w i) = Some d \<and> (\<forall>t. now_at env t < d))"

lemma run_delay_by:
  assumes "calm env" "chrono_nanos \<le> e"
  shows "run (unscheduled i) (delay_by env i e) (\<lambda>_. due_later env i)"
proof -
  have "now_at env t < now_at env t' + e" for t t'
    using calm_clock[OF assms(1), of t t'] assms(2) by linarith
  then show ?thesis
    by (auto simp: run_def delay_by_def utc_now_def qask_def qbind_def set_due_def get_msg_def qget_def
        upd_msg_def qmod_def qret_def unscheduled_def due_later_def)
qed

lemma run_delay_with_jitter:
  assumes "calm env"
  shows "run (unscheduled i) (delay_with_jitter env i 60) (\<lambda>_. due_later env i)"
proof -
  have "1 \<le> floor (random_at env t * 60)" for t
    using calm_random(1)[OF assms, of t] by (simp add: le_floor_iff field_simps)
  then have "chrono_nanos \<le> floor (random_at env t * 60) * chrono_nanos" for t
    by (simp add: mult.commute[of _ chrono_nanos])
  then show ?thesis
    using run_delay_by[OF assms, unfolded run_def]
    by (auto simp: run_def delay_with_jitter_def qbind_def qask_def unscheduled_def)
qed

text \<open>Inserting a message that is due later delays it.\<close>

lemma run_insert_delayed_later:
  assumes "calm env"
  shows "run (due_later env i) (insert_delayed env q i ctx) (\<lambda>delayed _. delayed)"
proof -
  note accepts = calm_timeq[OF assms]
  show ?thesis
    unfolding run_def
  proof (intro allI impI)
    fix w assume "due_later env i w"
    then obtain d where d: "m_due (w_msg w i) = Some d" "\<forall>t. now_at env t < d" by (auto simp: due_later_def)
    define w' where "w' = w\<lparr>w_tick := Suc (Suc (w_tick w)), w_timeq := w_timeq w @ [(sq_name q, i)]\<rparr>"
    have "insert_delayed env q i ctx w = qbind (qtry (did_insert_delayed env q i ctx)) (\<lambda>_. qret True) w'"
      using d(1) accepts[OF d] d(2)[rule_format, of "w_tick w"] unfolding insert_delayed_def timeq_insert_def
      by (simp add: qbind_def get_due_def get_msg_def qget_def qret_def utc_now_def qask_def qmod_def w'_def not_le)
    moreover have "did_insert_delayed env q i ctx w' \<noteq> Panic \<and> did_insert_delayed env q i ctx w' \<noteq> Spin"
      using answers_insert_delayed(1) unfolding answers_def by blast
    ultimately show "case insert_delayed env q i ctx w of Ret x _ \<Rightarrow> x | Fail _ _ \<Rightarrow> True | _ \<Rightarrow> False"
      by (cases "did_insert_delayed env q i ctx w'") (simp_all add: qbind_def qtry_def qret_def)
  qed
qed

lemma trunc_rat_ge: "x \<le> of_int (trunc_rat x) \<or> 0 \<le> trunc_rat x"
  by (simp add: trunc_rat_def)

text \<open>The delay before a retry of a steady queue is at least a second.\<close>

lemma retry_jitter_ge:
  assumes "0 \<le> scale"
  shows "- (of_nat (retry_interval cfg) / of_nat nanos / 40) \<le> (of_int (retry_jitter cfg scale) :: rat)"
proof -
  define g :: rat where "g = min (of_nat (retry_interval cfg) / of_nat nanos / 20) 60"
  have g: "0 \<le> g" "g \<le> of_nat (retry_interval cfg) / of_nat nanos / 20" by (simp_all add: g_def)
  have "scale * g - g / 2 \<le> of_int (retry_jitter cfg scale) \<or> 0 \<le> retry_jitter cfg scale"
    unfolding retry_jitter_def Let_def g_def[symmetric] by (rule trunc_rat_ge)
  moreover have "0 \<le> scale * g" using assms g(1) by simp
  moreover have "0 \<le> (of_nat (retry_interval cfg) / of_nat nanos / 40 :: rat)" by simp
  ultimately show ?thesis using g(2) by (auto simp: of_int_0_le_iff[symmetric] simp del: of_int_0_le_iff)
qed

lemma steady_delay:
  assumes "steady cfg" "0 \<le> scale" "scale < 1"
  obtains delay d where "delay_for_attempt cfg a = Some delay"
    "try_seconds (delay div chrono_nanos + retry_jitter cfg scale) = Some d" "chrono_nanos \<le> d"
proof -
  obtain cap where cap: "max_retry_interval cfg = Some cap" "retry_interval cfg \<le> cap" "cap div nanos < 2 ^ 40"
    and r: "2 * nanos \<le> retry_interval cfg"
    using assms(1) by (auto simp: steady_def)
  define s where "s = min (retry_interval cfg div nanos * 2 ^ a) (cap div nanos)"
  have rn: "retry_interval cfg div nanos \<le> cap div nanos" using cap(2) by (rule div_le_mono)
  then have s: "retry_interval cfg div nanos \<le> s" "s < 2 ^ 40" using cap(3) by (auto simp: s_def)
  have "delay_for_attempt cfg a = Some (min (int s) MAX_CHRONO_SECONDS * chrono_nanos)"
    unfolding s_def using cap rn by (intro delay_for_attempt_capped_eq) simp_all
  moreover have "min (int s) MAX_CHRONO_SECONDS = int s" using s(2) by (simp add: MAX_CHRONO_SECONDS_def)
  ultimately have delay: "delay_for_attempt cfg a = Some (int s * chrono_nanos)" by simp
  define n where "n = retry_interval cfg div nanos"
  have n: "2 \<le> n" using r by (simp add: n_def)
  have "retry_interval cfg < (n + 1) * nanos" by (simp add: n_def dividend_less_div_times)
  then have "of_nat (retry_interval cfg) / of_nat nanos < (of_nat (n + 1) :: rat)"
    by (simp add: divide_less_eq flip: of_nat_mult of_nat_less_iff[where ?'a = rat])
  then have low: "- (of_nat (n + 1) / 40) \<le> (of_int (retry_jitter cfg scale) :: rat)"
    by (intro order_trans[OF _ retry_jitter_ge[OF assms(2)]] le_imp_neg_le divide_right_mono) simp_all
  have "(1::rat) \<le> of_nat n - of_nat (n + 1) / 40" using n by (simp add: field_simps)
  then have "(1::rat) \<le> of_int (int n + retry_jitter cfg scale)" using low by simp
  then have ge: "1 \<le> int s + retry_jitter cfg scale" using s(1) unfolding n_def[symmetric] by linarith
  have "retry_jitter cfg scale \<le> 60"
  proof -
    define g :: rat where "g = min (of_nat (retry_interval cfg) / of_nat nanos / 20) 60"
    have "0 \<le> g" "g \<le> 60" by (simp_all add: g_def)
    then have "scale * g \<le> 1 * g" using assms(3) by (intro mult_right_mono) simp_all
    then have "scale * g - g / 2 \<le> 60" using \<open>g \<le> 60\<close> \<open>0 \<le> g\<close> by simp
    then have "trunc_rat (scale * g - g / 2) \<le> 60"
      by (auto simp: trunc_rat_def ceiling_le_iff floor_le_iff)
    then show ?thesis unfolding retry_jitter_def Let_def g_def[symmetric] .
  qed
  then have "int s + retry_jitter cfg scale \<le> MAX_CHRONO_SECONDS" using s(2) by (simp add: MAX_CHRONO_SECONDS_def)
  with ge have "try_seconds (int s + retry_jitter cfg scale) = Some ((int s + retry_jitter cfg scale) * chrono_nanos)"
    by (simp add: try_seconds_def MAX_CHRONO_SECONDS_def)
  then show thesis using that[OF delay] ge by simp
qed

section \<open>The operations leave an unscheduled message unscheduled\<close>

lemma unscheduled_queues [keep_intros]:
  "keeps (unscheduled i) (timeq_insert env q k)" "keeps (unscheduled i) (ready_push k)"
  "keeps (unscheduled i) (remove_from_spool env k)"
  unfolding timeq_insert_def ready_push_def remove_from_spool_def
  by (intro keep_intros keeps_qmod; simp add: unscheduled_def)+

lemma unscheduled_save [keep_intros]:
  "keeps (unscheduled i) (save_if_needed env k cfg)" "keeps (unscheduled i) (save_if_needed_and_log env k cfg)"
  unfolding save_if_needed_and_log_def save_if_needed_def
  by (intro keep_intros; auto intro!: keep_intros split: memory_reduction_policy.splits)+

lemma unscheduled_delayed [keep_intros]: "keeps (unscheduled i) (insert_delayed env q k ctx)"
  unfolding insert_delayed_def did_insert_delayed_def by (intro keep_intros)

lemma unscheduled_set_recipient_list [keep_intros]: "keeps (unscheduled i) (set_recipient_list env k rs)"
  unfolding set_recipient_list_def
  by (intro keep_intros) (simp add: keeps_def upd_msg_def qmod_def unscheduled_def)

lemma unscheduled_maildir_loop [keep_intros]: "keeps (unscheduled i) (maildir_loop env k rs ok bad)"
  by (induction rs arbitrary: ok bad) (auto intro!: keep_intros split: maildir_outcome.splits)

lemma unscheduled_insert_ready_impl [keep_intros]: "keeps (unscheduled i) (insert_ready_impl env q k ctx)"
  unfolding insert_ready_impl_def insert_via_source_def insert_deferred_def site_insert_def insert_maildir_def
    maildir_report_def bail_transient_def spawn_remove_def split_beta
  by (auto intro!: keep_intros split: delivery_proto.splits select_outcome.splits)

lemma unscheduled_questions [keep_intros]:
  "keeps (unscheduled i) (delivery_suspension_reason env)" "keeps (unscheduled i) (check_message_rate_throttle env q)"
  "keeps (unscheduled i) (resolve env name)"
  unfolding delivery_suspension_reason_def check_message_rate_throttle_def resolve_def
  by (intro keep_intros; auto intro!: keep_intros split: sum.splits)+

lemma unscheduled_call_throttle:
  assumes "calm env"
  shows "keeps (unscheduled i) (call_throttle_insert_ready env i)"
  by (auto simp: keeps_def call_throttle_insert_ready_def apply_event_def qbind_def get_msg_def qget_def qask_def
      upd_msg_def qmod_def unscheduled_def qfail_def split: sum.splits dest: calm_throttle_event[OF assms])

section \<open>The operations return\<close>

definition returns :: "(world \<Rightarrow> bool) \<Rightarrow> 'a qm \<Rightarrow> bool" where
  "returns P m \<longleftrightarrow> run P m (\<lambda>_ _. True)"

lemma returns_answers: "answers m \<Longrightarrow> returns P m"
  unfolding returns_def by (rule run_answers)

lemma returns_step: "answers m \<Longrightarrow> keeps I m \<Longrightarrow> (\<And>x. returns I (f x)) \<Longrightarrow> returns I (qbind m f)"
  unfolding returns_def by (rule run_step)

lemma returns_bind: "run P m Q \<Longrightarrow> (\<And>x. returns (Q x) (f x)) \<Longrightarrow> returns P (qbind m f)"
  unfolding returns_def by (rule run_bind)

lemma returns_if: "(b \<Longrightarrow> returns P x) \<Longrightarrow> (\<not> b \<Longrightarrow> returns P y) \<Longrightarrow> returns P (if b then x else y)"
  by simp

lemma returns_option:
  "(x = None \<Longrightarrow> returns P f) \<Longrightarrow> (\<And>a. x = Some a \<Longrightarrow> returns P (g a))
     \<Longrightarrow> returns P (case x of None \<Rightarrow> f | Some a \<Rightarrow> g a)"
  by (cases x) auto

text \<open>The second round of \<^verbatim>\<open>force_into_delayed\<close> succeeds.\<close>

lemma returns_force_into_delayed:
  assumes "calm env"
  shows "returns (unscheduled i) (force_into_delayed 2 env q i ctx)"
proof -
  have "returns (due_later env i) (force_into_delayed (Suc 0) env q i ctx)"
    unfolding force_into_delayed.simps
    by (rule returns_bind[OF run_insert_delayed_later[OF assms]]) (auto simp: returns_def run_def qret_def)
  then have "returns (unscheduled i) (force_into_delayed (Suc (Suc 0)) env q i ctx)"
    unfolding force_into_delayed.simps(2)[of "Suc 0"]
    by (intro returns_step[OF _ unscheduled_delayed] returns_if returns_bind[OF run_delay_with_jitter[OF assms]])
      (simp_all add: answer_intros returns_answers)
  then show ?thesis by (simp add: numeral_2_eq_2)
qed

text \<open>A message that is due later is inserted whatever becomes of a requeueing.\<close>

lemma returns_queue_insert_later:
  assumes "calm env"
  shows "returns (due_later env i) (queue_insert env requeue n q i ctx)"
proof -
  have "run (due_later env i) (qask h) (\<lambda>_. due_later env i)" for h :: "nat \<Rightarrow> 'b"
    by (simp add: run_def qask_def due_later_def)
  note ask = returns_bind[OF this]
  have delayed: "returns (due_later env i) (qbind (insert_delayed env q i ctx) (\<lambda>delayed.
      if delayed then qret () else insert_ready env requeue n q i ctx))"
    by (rule returns_bind[OF run_insert_delayed_later[OF assms]]) (auto simp: returns_def run_def qret_def)
  show ?thesis
    unfolding queue_insert_def
    by (intro ask returns_option returns_if delayed returns_answers answer_intros)
qed

lemma run_next_delay:
  assumes "calm env" "steady (sq_config q)"
  shows "run (unscheduled i) (next_delay env q i) (\<lambda>d w. unscheduled i w \<and> chrono_nanos \<le> d)"
  unfolding run_def
proof (intro allI impI)
  fix w assume u: "unscheduled i w"
  have "0 \<le> random_at env (w_tick w)" using calm_random(1)[OF assms(1), of "w_tick w"] by simp
  from steady_delay[OF assms(2) this calm_random(2)[OF assms(1)], of "unat (m_num_attempts (w_msg w i))"]
  obtain delay d where "delay_for_attempt (sq_config q) (unat (m_num_attempts (w_msg w i))) = Some delay"
    "try_seconds (delay div chrono_nanos + retry_jitter (sq_config q) (random_at env (w_tick w))) = Some d"
    "chrono_nanos \<le> d" .
  then show "case next_delay env q i w of Ret d w' \<Rightarrow> unscheduled i w' \<and> chrono_nanos \<le> d | Fail _ _ \<Rightarrow> True | _ \<Rightarrow> False"
    using u by (simp add: next_delay_def qbind_def get_num_attempts_def get_msg_def qget_def qret_def qexpect_def
        increment_num_attempts_def upd_msg_def qmod_def qask_def unscheduled_def)
qed

lemma run_pure: "run (\<lambda>w. P w \<and> c) m Q" if "c \<Longrightarrow> run P m Q"
  using that by (auto simp: run_def)

lemma returns_pure: "returns (\<lambda>w. P w \<and> c) m" if "c \<Longrightarrow> returns P m"
  using that unfolding returns_def by (rule run_pure)

lemma run_fixed: "run P m (\<lambda>_. Q) \<Longrightarrow> (\<And>w. Q w \<Longrightarrow> R w) \<Longrightarrow> run P (qbind m (\<lambda>_. qret x)) (\<lambda>_. R)"
  by (rule run_bind) (auto simp: run_def qret_def)

lemma run_false: "answers m \<Longrightarrow> run P (qbind m (\<lambda>_. qret False)) (\<lambda>keep w. keep \<longrightarrow> Q w)"
  by (rule run_bind[OF run_answers]) (auto simp: run_def qret_def)

lemma run_increment_attempts:
  assumes "calm env" "steady (sq_config q)"
  shows "run (unscheduled i) (increment_attempts_and_update_delay env q i) (\<lambda>keep w. keep \<longrightarrow> due_later env i w)"
proof -
  have rest: "run (unscheduled i) (delay_by env i d) (\<lambda>_ w. due_later env i w)" if "chrono_nanos \<le> d" for d
    by (rule run_delay_by[OF assms(1) that])
  have age: "get_max_age (sq_config q) = Some (int (max_age (sq_config q)))"
    using assms(2) by (simp add: steady_def get_max_age_def)
  have expect: "answers (qexpect (get_max_age (sq_config q)))"
    unfolding age by (simp add: answers_def qexpect_def)
  have due: "run (due_later env i) (case x of Some t \<Rightarrow> if t \<ge> e then qbind (expire env i) (\<lambda>_. qret False) else qret True
      | None \<Rightarrow> qret True) (\<lambda>keep w. keep \<longrightarrow> due_later env i w)" for x e
    by (intro run_option run_if run_false answer_intros run_qret) simp_all
  have keep: "run (due_later env i) (qret True) (\<lambda>keep w. keep \<longrightarrow> due_later env i w)"
    by (rule run_qret) simp
  show ?thesis
    unfolding increment_attempts_and_update_delay_def
    by (rule run_bind[OF run_next_delay[OF assms]], rule run_pure)
      (intro run_step run_option run_if run_false answer_intros expect keep_intros run_bind[OF rest] due keep)
qed

lemma returns_requeue_message_internal:
  assumes "calm env" "steady (sq_config q)" "inc \<or> (\<forall>d. delay = Some d \<longrightarrow> chrono_nanos \<le> d)"
  shows "returns (unscheduled i) (requeue_message_internal env requeue n q i inc delay ctx)"
proof (cases inc)
  case True
  have "returns (\<lambda>w. keep \<longrightarrow> due_later env i w) (if keep then queue_insert env requeue n q i ctx else qret ())" for keep
    using returns_queue_insert_later[OF assms(1)] by (simp add: returns_def run_def qret_def)
  then show ?thesis
    using True by (simp add: requeue_message_internal_def returns_bind[OF run_increment_attempts[OF assms(1,2)]])
next
  case False
  have delayed: "run (unscheduled i) (case delay of Some d \<Rightarrow> delay_by env i d | None \<Rightarrow> delay_with_jitter env i 60)
      (\<lambda>_. due_later env i)"
    using False assms(3) by (auto intro!: run_option run_delay_by run_delay_with_jitter assms(1))
  have age: "get_max_age (sq_config q) = Some (int (max_age (sq_config q)))"
    using assms(2) by (simp add: steady_def get_max_age_def)
  have "run (due_later env i) (get_due i) (\<lambda>_. due_later env i)"
    "run (due_later env i) (qexpect (get_max_age (sq_config q))) (\<lambda>_. due_later env i)"
    "run (due_later env i) (msg_age i t) (\<lambda>_. due_later env i)" for t
    unfolding age
    by (simp_all add: run_def get_due_def msg_age_def get_msg_def qget_def qbind_def qret_def qexpect_def)
  note steps = this[THEN returns_bind]
  show ?thesis
    using False unfolding requeue_message_internal_def
    by (auto intro!: returns_bind[OF delayed] steps returns_queue_insert_later[OF assms(1)] returns_option returns_if
        returns_answers[OF answers_removing(1)])
qed

section \<open>The queue of a message in memory\<close>

lemma with_meta_loaded: "m_metadata (w_msg w i) = Some md \<Longrightarrow> with_meta env i f w = f md w"
  by (simp add: with_meta_def load_meta_if_needed_def qbind_def get_msg_def qget_def qret_def)

definition meta_string :: "metadata \<Rightarrow> string \<Rightarrow> (qerror, string option) result" where
  "meta_string md key = (case md_meta md key of None \<Rightarrow> Inr None | Some MetaNull \<Rightarrow> Inr None
     | Some (MetaString s) \<Rightarrow> Inr (Some s) | _ \<Rightarrow> Inl (QError (''expected '' @ key @ '' to be a string value'')))"

lemma get_meta_string_loaded:
  "m_metadata (w_msg w i) = Some md
     \<Longrightarrow> get_meta_string env i key w = (case meta_string md key of Inl e \<Rightarrow> Fail e w | Inr x \<Rightarrow> Ret x w)"
  by (simp add: get_meta_string_def get_meta_def meta_string_def qbind_def with_meta_loaded qret_def qfail_def
      split: option.split meta_value.split)

text \<open>Reading the queue name of a message in memory changes nothing, and depends on the metadata only.\<close>

lemma get_queue_name_loaded:
  assumes "m_metadata (w_msg w i) = Some md" "m_metadata (w_msg w' i) = Some md"
    "get_queue_name env i w = Ret name w1"
  shows "w1 = w \<and> get_queue_name env i w' = Ret name w'"
  using assms
  by (auto simp: get_queue_name_def get_meta_string_loaded first_recipient_def qbind_def with_meta_loaded qret_def qfail_def
      split: option.splits sum.splits list.splits)

lemma load_meta_if_needed_loads:
  "load_meta_if_needed env i w = Ret x w' \<Longrightarrow> m_metadata (w_msg w' i) \<noteq> None"
  by (auto simp: load_meta_if_needed_def load_meta_def qbind_def get_msg_def qget_def qret_def qask_def qerr_def qfail_def
      upd_msg_def qmod_def split: option.splits if_splits)

lemma apply_event_same: "apply_event i (w_msg w i) w = Ret () w"
  by (simp add: apply_event_def upd_msg_def qmod_def)

text \<open>One level of \<^verbatim>\<open>requeue_message\<close>.\<close>

lemma returns_requeue_message:
  assumes "calm env" "inc \<or> (\<forall>d. delay = Some d \<longrightarrow> chrono_nanos \<le> d)"
  shows "returns (unscheduled i) (requeue_message 1 env i inc delay ctx)"
  unfolding returns_def run_def
proof (intro allI impI)
  let ?good = "\<lambda>r :: unit outcome. r \<noteq> Panic \<and> r \<noteq> Spin"
  fix w assume u: "unscheduled i w"
  note internal = returns_requeue_message_internal[OF assms(1) _ assms(2)]
  have "returns (unscheduled i) (qbind (resolve env name) (\<lambda>q.
      requeue_message_internal env (requeue_message 0 env) 0 q i inc delay ctx))" for name
    using internal calm_resolve[OF assms(1)]
    by (fastforce simp: resolve_def returns_def run_def qbind_def qask_def qfail_def qret_def unscheduled_def
        split: sum.splits)
  then have resolved: "?good (qbind (resolve env name) (\<lambda>q.
      requeue_message_internal env (requeue_message 0 env) 0 q i inc delay ctx) w')" if "unscheduled i w'" for name w'
    using that unfolding returns_def run_def by (force split: outcome.splits)
  have answer: "?good (m w)" if "answers m" for m :: "unit qm" and w using that by (simp add: answers_def)
  have "?good (requeue_message 1 env i inc delay ctx w)"
  proof (cases "load_meta_if_needed env i w")
    case (Ret x w1)
    have u1: "unscheduled i w1"
      using msg_unscheduled.keeps_load_meta_if_needed[of i env i] u Ret unfolding keeps_def by force
    obtain md where md: "m_metadata (w_msg w1 i) = Some md" using load_meta_if_needed_loads[OF Ret] by auto
    show ?thesis
    proof (cases "get_queue_name env i w1")
      case (Ret name w2)
      define w3 where "w3 = w1\<lparr>w_tick := Suc (w_tick w1)\<rparr>"
      have w2: "w2 = w1" "get_queue_name env i w3 = Ret name w3"
        using get_queue_name_loaded[OF md _ Ret, of w3] md by (simp_all add: w3_def)
      have u3: "unscheduled i w3" using u1 by (simp add: w3_def unscheduled_def)
      let ?r = "requeue_message_event env (w_tick w1) (w_msg w1 i) inc delay ctx"
      have step: "requeue_message 1 env i inc delay ctx w = (case ?r of
          Rejected code \<Rightarrow> qbind (log_disposition Bounce i code) (\<lambda>_. remove_from_spool env i) w3
        | _ \<Rightarrow> qbind (resolve env name) (\<lambda>q.
            requeue_message_internal env (requeue_message 0 env) 0 q i inc delay ctx) w3)"
        using \<open>load_meta_if_needed env i w = Ret x w1\<close> Ret w2 calm_requeue_event[OF assms(1), of "w_tick w1" "w_msg w1 i" inc delay ctx]
          apply_event_same[of i w3]
        by (auto simp: qbind_def get_msg_def qget_def qask_def w3_def split: requeue_outcome.splits)
      show ?thesis
        unfolding step using resolved[OF u3] by (auto intro!: answer answer_intros split: requeue_outcome.split)
    qed (use Ret answers_get_queue_name[of env i] in \<open>simp_all add: answers_def qbind_def\<close>)
  qed (use answers_load(2)[of env i] in \<open>simp_all add: answers_def qbind_def\<close>)
  then show "case requeue_message 1 env i inc delay ctx w of Ret _ _ \<Rightarrow> True | Fail _ _ \<Rightarrow> True | _ \<Rightarrow> False"
    by (auto split: outcome.splits)
qed

definition requeue_returns :: "requeue_fun \<Rightarrow> bool" where
  "requeue_returns requeue \<longleftrightarrow> (\<forall>i inc delay ctx. inc \<or> (\<forall>d. delay = Some d \<longrightarrow> chrono_nanos \<le> d)
     \<longrightarrow> returns (unscheduled i) (requeue i inc delay ctx))"

lemma requeue_returnsD:
  assumes "requeue_returns requeue"
  shows "returns (unscheduled i) (requeue i True None ctx)" "returns (unscheduled i) (requeue i False None ctx)"
    "chrono_nanos \<le> d \<Longrightarrow> returns (unscheduled i) (requeue i False (Some d) ctx)"
  using assms unfolding requeue_returns_def by simp_all

lemma returns_attempt_ready:
  assumes "calm env" "requeue_returns requeue"
  shows "returns (unscheduled i) (attempt_ready env requeue 2 q i ctx)"
  unfolding attempt_ready_def
proof (rule returns_step)
  fix r
  obtain c e where r: "ready_result ctx r = (c, e)" by fastforce
  show "returns (unscheduled i) (after_ready env requeue 2 q i ctx r)"
    unfolding after_ready_def r Let_def
    using returns_force_into_delayed[OF assms(1)] requeue_returnsD(1)[OF assms(2)]
    by (auto split: option.split qerror.split intro!: returns_answers answers_basic(1))
qed (intro answer_intros keep_intros)+

lemma chrono_from_std_ge: "nanos \<le> d \<Longrightarrow> chrono_nanos \<le> chrono_from_std d"
  by (auto simp: chrono_from_std_def)

lemma run_check_message_rate_throttle:
  assumes "calm env"
  shows "run (unscheduled i) (check_message_rate_throttle env q)
    (\<lambda>r w. unscheduled i w \<and> (\<forall>d. r = Some d \<longrightarrow> nanos \<le> d))"
  by (auto simp: run_def check_message_rate_throttle_def qbind_def qask_def qret_def qfail_def unscheduled_def
      split: option.splits sum.splits dest: calm_rate[OF assms])

lemma returns_insert_ready:
  assumes "calm env" "requeue_returns requeue"
  shows "returns (unscheduled i) (insert_ready env requeue 2 q i ctx)"
proof -
  note requeue = requeue_returnsD[OF assms(2)]
  have throttle: "answers (call_throttle_insert_ready env i)" by (rule answers_ready_questions)
  have later: "answers (case due of Some d \<Rightarrow> qbind (utc_now env) (\<lambda>now. qret (d > now)) | None \<Rightarrow> qret False)"
    "keeps (unscheduled i) (case due of Some d \<Rightarrow> qbind (utc_now env) (\<lambda>now. qret (d > now)) | None \<Rightarrow> qret False)" for due
    by (intro answer_intros) (intro keep_intros)
  have rate: "returns (unscheduled i) (qbind (check_message_rate_throttle env q) f)"
    if "returns (unscheduled i) (f None)" "\<And>d. nanos \<le> d \<Longrightarrow> returns (unscheduled i) (f (Some d))" for f :: "nat option \<Rightarrow> unit qm"
  proof (rule returns_bind[OF run_check_message_rate_throttle[OF assms(1)]], rule returns_pure)
    fix x :: "nat option" assume "\<forall>d. x = Some d \<longrightarrow> nanos \<le> d"
    then show "returns (unscheduled i) (f x)" using that by (cases x) auto
  qed
  have log: "returns (unscheduled i) (qbind (log_disposition k i c) f)" if "\<And>x. returns (unscheduled i) (f x)"
    for k c and f :: "unit \<Rightarrow> unit qm"
    using that by (intro returns_step) (intro answer_intros keep_intros)+
  have unhealthy: "returns (unscheduled i) (log_and_requeue_for_unhealthy_spool requeue i)"
    unfolding log_and_requeue_for_unhealthy_spool_def by (intro log requeue)
  have ask: "returns (unscheduled i) (qbind (qask h) f)" if "\<And>x. returns (unscheduled i) (f x)"
    for h :: "nat \<Rightarrow> 'x" and f :: "'x \<Rightarrow> unit qm"
    using that by (intro returns_step) (intro answer_intros keep_intros)+
  have ready: "returns (unscheduled i) (qbind (call_throttle_insert_ready env i) (\<lambda>_. qbind (get_due i) (\<lambda>due.
      qbind (case due of Some d \<Rightarrow> qbind (utc_now env) (\<lambda>now. qret (d > now)) | None \<Rightarrow> qret False) (\<lambda>later.
      if later then requeue i False None (ctx_add ctx ThrottledByThrottleInsertReadyQueue)
      else attempt_ready env requeue 2 q i ctx))))"
    by (intro returns_step[OF throttle unscheduled_call_throttle[OF assms(1)]] returns_step[OF later]
        returns_step[OF answers_reading(5) msg_unscheduled.keeps_due(1)] returns_if returns_attempt_ready[OF assms]
        requeue)
  show ?thesis
    unfolding insert_ready_def
    by (intro returns_step[OF answers_ready_questions(1) unscheduled_questions(1)] ask returns_if returns_option unhealthy
        rate log returns_answers[OF answers_removing(2)])
      (simp_all add: requeue chrono_from_std_ge ready)
qed

lemma returns_queue_insert:
  assumes "calm env" "requeue_returns requeue"
  shows "returns (unscheduled i) (queue_insert env requeue 2 q i ctx)"
proof -
  have ask: "returns (unscheduled i) (qbind (qask h) f)" if "\<And>x. returns (unscheduled i) (f x)"
    for h :: "nat \<Rightarrow> 'x" and f :: "'x \<Rightarrow> unit qm"
    using that by (intro returns_step) (intro answer_intros keep_intros)+
  show ?thesis
    unfolding queue_insert_def
    by (intro ask returns_option returns_if returns_step[OF answers_insert_delayed(3) unscheduled_delayed]
        returns_insert_ready[OF assms] returns_answers[OF answers_removing(2)] returns_answers[OF answers_basic(1)]
        returns_answers[OF answers_qbind[OF answers_save(3) answers_basic(5)]])
qed

lemma requeue_returns_once: "calm env \<Longrightarrow> requeue_returns (requeue_message 1 env)"
  unfolding requeue_returns_def by (simp add: returns_requeue_message del: One_nat_def requeue_message.simps)

section \<open>Properties\<close>



text \<open>An administrative bounce of a message removes it and logs it.\<close>

definition bouncing_env :: qenv where
  "bouncing_env = quiet_env\<lparr>bounce_for_queue_name := (\<lambda>_ _. Some False)\<rparr>"

definition example_queue :: sched_queue where
  "example_queue = \<lparr>sq_name = ''y'', sq_config = default_queue_config\<rparr>"


text \<open>C24: In a calm environment \<^verbatim>\<open>Queue::insert\<close> returns for a message without a schedule: one level of
  requeueing and two rounds of \<^verbatim>\<open>force_into_delayed\<close> are enough, and no duration computation panics.
  When it succeeds, the message is in exactly one more place.
\<close>

theorem queue_insert_returns:
  assumes "calm env" "\<not> m_scheduled (w_msg w i)"
  shows "(\<exists>w'. queue_insert env (requeue_message 1 env) 2 q i ctx w = Ret () w' \<and> placed w' i = placed w i + 1)
    \<or> (\<exists>e w'. queue_insert env (requeue_message 1 env) 2 q i ctx w = Fail e w' \<and> placed w' i = placed w i)"
proof -
  let ?r = "queue_insert env (requeue_message 1 env) 2 q i ctx w"
  have "case ?r of Ret _ _ \<Rightarrow> True | Fail _ _ \<Rightarrow> True | _ \<Rightarrow> False"
    using returns_queue_insert[OF assms(1) requeue_returns_once[OF assms(1)]] assms(2)
    unfolding returns_def run_def unscheduled_def by blast
  moreover have "places i (\<lambda>_. here i i) (queue_insert env (requeue_message 1 env) 2 q i ctx)"
    by (rule places_queue_insert[OF places_requeue_message])
  then have "case ?r of Ret _ w' \<Rightarrow> placed w' i = placed w i + here i i
      | Fail _ w' \<Rightarrow> placed w' i = placed w i | _ \<Rightarrow> True"
    unfolding places_def by blast
  ultimately show ?thesis by (cases ?r) (simp_all add: here_def)
qed

text \<open>A ready queue that is full: the message goes back to the timer queue.\<close>

definition full_env :: qenv where
  "full_env = quiet_env\<lparr>select_and_insert := (\<lambda>_ _ _. SelectFull)\<rparr>"

lemma calm_full_env: "calm full_env"
  by (auto simp: calm_def full_env_def quiet_env_def steady_def default_queue_config_def default_retry_interval_def
      default_max_age_def chrono_valid_def)

theorem queue_insert_returns_witness:
  "\<exists>w'. queue_insert full_env (requeue_message 1 full_env) 2 example_queue 7 [Received] example_world = Ret () w'
     \<and> w_timeq w' = [(''y'', 7)] \<and> placed w' 7 = 1"
proof -
  have "case queue_insert full_env (requeue_message 1 full_env) 2 example_queue 7 [Received] example_world of
      Ret _ w' \<Rightarrow> w_timeq w' = [(''y'', 7)] | _ \<Rightarrow> False"
    by (simp add: queue_insert_def insert_delayed_def get_due_def insert_ready_def delivery_suspension_reason_def
        check_message_rate_throttle_def call_throttle_insert_ready_def apply_event_def attempt_ready_def
        insert_ready_impl_def insert_via_source_def after_ready_def ready_result_def numeral_2_eq_2
        delay_with_jitter_def delay_by_def set_due_def utc_now_def timeq_insert_def did_insert_delayed_def
        log_disposition_def save_if_needed_def needs_save_def shrink_def ctx_only_def ctx_contains_def ctx_add_def ctx_note_def
        example_queue_def example_world_def full_env_def quiet_env_def default_queue_config_def spool_simps
        del: requeue_message.simps)
  moreover have "placed example_world 7 = 0" by (simp add: placed_def example_world_def)
  moreover have "\<not> m_scheduled (w_msg example_world 7)" by (simp add: example_world_def)
  ultimately show ?thesis
    using queue_insert_returns[OF calm_full_env, of example_world 7 example_queue "[Received]"]
    by (auto simp del: One_nat_def)
qed

end
