(* ===== verification/Queue_Manager.thy ===== *)
theory Queue_Manager
  imports Queue_Returns
begin

text \<open>
  The operations that work on whole scheduled queues and that hand messages to them
  (\<^verbatim>\<open>crates/kumod/src/queue/manager.rs\<close> and \<^verbatim>\<open>queue.rs\<close>, with \<^verbatim>\<open>SavedQueueInfo\<close> of
  \<^verbatim>\<open>crates/kumod/src/xfer/mod.rs\<close>): the insertion at reception with its unwinding, administrative bounces,
  rebinding and transfers of all messages of a queue.  Errors that the code only writes to its
  diagnostic log are the results of these operations: a computation of type \<^typ>\<open>bool qm\<close> says whether
  the message was handed to a queue.
\<close>

section \<open>Insertion at reception\<close>

definition manager_insert :: "qenv \<Rightarrow> requeue_fun \<Rightarrow> nat \<Rightarrow> string \<Rightarrow> nat \<Rightarrow> insert_context \<Rightarrow> unit qm" where
  "manager_insert env requeue n name i ctx =
     qbind (resolve env name) (\<lambda>q. queue_insert env requeue n q i ctx)"

definition insert_or_unwind :: "qenv \<Rightarrow> requeue_fun \<Rightarrow> nat \<Rightarrow> string \<Rightarrow> nat \<Rightarrow> unit qm" where
  "insert_or_unwind env requeue n name i =
     qbind (qtry (manager_insert env requeue n name i (ctx_from Received))) (\<lambda>r.
     case r of
       Inr _ \<Rightarrow> qret ()
     | Inl e \<Rightarrow>
         qbind (remove_from_spool env i) (\<lambda>_.
         qbind (log_disposition Bounce i 500) (\<lambda>_. Fail e)))"

section \<open>Emptying a queue\<close>

text \<open>\<^verbatim>\<open>drain_timeq\<close>: the messages of a queue are taken out of its timer queue; a message the shared timer
  wheel has already popped stays for the task that popped it.  The structures promise no order.\<close>

definition drained :: "qenv \<Rightarrow> nat \<Rightarrow> string \<Rightarrow> string \<times> nat \<Rightarrow> bool" where
  "drained env t name e = (fst e = name \<and> \<not> timeq_in_flight env t (snd e))"

definition drain_timeq :: "qenv \<Rightarrow> sched_queue \<Rightarrow> nat list qm" where
  "drain_timeq env q =
     qbind (qask (\<lambda>t. drained env t (sq_name q))) (\<lambda>p.
     qbind (qget (\<lambda>w. map snd (filter p (w_timeq w)))) (\<lambda>ids.
     qbind (qmod (\<lambda>w. w\<lparr>w_timeq := filter (\<lambda>e. \<not> p e) (w_timeq w)\<rparr>)) (\<lambda>_.
     qret ids)))"

text \<open>For every message of a list, in order.\<close>

fun for_each :: "(nat \<Rightarrow> 'a qm) \<Rightarrow> nat list \<Rightarrow> 'a list qm" where
  "for_each f [] = qret []"
| "for_each f (i # ids) = qbind (f i) (\<lambda>x. qbind (for_each f ids) (\<lambda>xs. qret (x # xs)))"

text \<open>\<^verbatim>\<open>bounce_all\<close>: the removal is spawned as a task; the result says whether it could be.\<close>

definition bounce_all :: "qenv \<Rightarrow> sched_queue \<Rightarrow> bool \<Rightarrow> bool qm" where
  "bounce_all env q suppress_logging =
     qbind (drain_timeq env q) (\<lambda>ids.
     if ids = [] then qret True
     else qbind (qask (spawn_error env)) (\<lambda>e.
       case e of
         Some _ \<Rightarrow> qret False
       | None \<Rightarrow> qbind (for_each (admin_bounce env suppress_logging) ids) (\<lambda>_. qret True)))"

section \<open>Rebinding\<close>

record rebind_request =
  rb_data :: "(string \<times> string) list"
  rb_trigger_rebind_event :: bool
  rb_always_flush :: bool
  rb_suppress_logging :: bool

fun set_all_meta :: "qenv \<Rightarrow> nat \<Rightarrow> (string \<times> string) list \<Rightarrow> unit qm" where
  "set_all_meta env i [] = qret ()"
| "set_all_meta env i ((k, v) # kvs) = qbind (set_meta env i k (MetaString v)) (\<lambda>_. set_all_meta env i kvs)"

definition try_apply :: "qenv \<Rightarrow> rebind_request \<Rightarrow> nat \<Rightarrow> unit qm" where
  "try_apply env rb i =
     qbind (load_meta_if_needed env i) (\<lambda>_.
     if rb_trigger_rebind_event rb then
       qbind (get_msg i) (\<lambda>m.
       qbind (qask (\<lambda>t. rebind_message_event env t m)) (\<lambda>(m', e).
       qbind (apply_event i m') (\<lambda>_. qerr e)))
     else set_all_meta env i (rb_data rb))"

definition save_quietly :: "qenv \<Rightarrow> nat \<Rightarrow> unit qm" where
  "save_quietly env i =
     qbind (needs_save i) (\<lambda>b. if b then qbind (qtry (save env i)) (\<lambda>_. qret ()) else qret ())"

text \<open>The queue of a name, or the given queue when it cannot be resolved.\<close>

definition resolve_or :: "qenv \<Rightarrow> string \<Rightarrow> sched_queue \<Rightarrow> sched_queue qm" where
  "resolve_or env name q =
     qbind (qtry (resolve env name)) (\<lambda>r. case r of Inl _ \<Rightarrow> qret q | Inr q' \<Rightarrow> qret q')"

definition requeue_quietly ::
  "qenv \<Rightarrow> requeue_fun \<Rightarrow> nat \<Rightarrow> sched_queue \<Rightarrow> nat \<Rightarrow> int option \<Rightarrow> insert_context \<Rightarrow> bool qm" where
  "requeue_quietly env requeue n q i delay ctx =
     qbind (qtry (requeue_message_internal env requeue n q i False delay ctx)) (\<lambda>r.
     qret (case r of Inl _ \<Rightarrow> False | Inr _ \<Rightarrow> True))"

definition do_rebind ::
  "qenv \<Rightarrow> requeue_fun \<Rightarrow> nat \<Rightarrow> sched_queue \<Rightarrow> rebind_request \<Rightarrow> insert_context \<Rightarrow> nat \<Rightarrow> bool qm" where
  "do_rebind env requeue n q rb ctx i =
     qbind (qtry (try_apply env rb i)) (\<lambda>_.
     qbind (save_quietly env i) (\<lambda>_.
     qbind (qtry (get_queue_name env i)) (\<lambda>name.
     case name of
       Inl _ \<Rightarrow> requeue_quietly env requeue n q i None (ctx_add ctx MessageGetQueueNameFailed)
     | Inr name \<Rightarrow>
         qbind (resolve_or env name q) (\<lambda>q'.
         let moved = sq_name q' \<noteq> sq_name q; flush = rb_always_flush rb \<or> moved in
         qbind (if flush then qbind (qtry (set_due env i None)) (\<lambda>_. qret ()) else qret ()) (\<lambda>_.
         qbind (if moved \<and> \<not> rb_suppress_logging rb then log_disposition AdminRebindRecord i 250 else qret ()) (\<lambda>_.
         requeue_quietly env requeue n q' i (if flush then Some 0 else None) ctx))))))"

definition rebind_all ::
  "qenv \<Rightarrow> requeue_fun \<Rightarrow> nat \<Rightarrow> sched_queue \<Rightarrow> rebind_request \<Rightarrow> (nat \<times> bool) list qm" where
  "rebind_all env requeue n q rb =
     qbind (drain_timeq env q) (\<lambda>ids.
     qbind (for_each (do_rebind env requeue n q rb (ctx_from AdminRebind)) ids) (\<lambda>oks.
     qret (zip ids oks)))"

section \<open>Transfers\<close>

definition save_info :: "qenv \<Rightarrow> nat \<Rightarrow> unit qm" where
  "save_info env i =
     qbind (get_meta_string env i ''queue'') (\<lambda>queue.
     qbind (get_meta_string env i ''routing_domain'') (\<lambda>routing_domain.
     qbind (get_meta_string env i ''tenant'') (\<lambda>tenant.
     qbind (get_meta_string env i ''campaign'') (\<lambda>campaign.
     qbind (get_scheduling env i) (\<lambda>schedule.
     qbind (get_num_attempts i) (\<lambda>num_attempts.
     qbind (get_due i) (\<lambda>due.
     qbind (set_meta env i ''xfer_queue_info'' (MetaQueueInfo
       \<lparr>sqi_queue = queue, sqi_routing_domain = routing_domain, sqi_tenant = tenant, sqi_campaign = campaign,
        sqi_schedule = schedule, sqi_num_attempts = num_attempts, sqi_due = due\<rparr>)) (\<lambda>_.
     qbind (unset_meta env i ''queue'') (\<lambda>_.
     qbind (unset_meta env i ''routing_domain'') (\<lambda>_.
     qbind (unset_meta env i ''tenant'') (\<lambda>_.
     qbind (unset_meta env i ''campaign'') (\<lambda>_.
     qbind (set_scheduling env i None) (\<lambda>_.
     qbind (set_due env i None) (\<lambda>_.
     qret ()))))))))))))))"

definition restore_meta :: "qenv \<Rightarrow> nat \<Rightarrow> string \<Rightarrow> string option \<Rightarrow> unit qm" where
  "restore_meta env i key v =
     (case v of Some s \<Rightarrow> set_meta env i key (MetaString s) | None \<Rightarrow> unset_meta env i key)"

definition restore_info :: "qenv \<Rightarrow> nat \<Rightarrow> unit qm" where
  "restore_info env i =
     qbind (get_meta env i ''xfer_queue_info'') (\<lambda>v.
     case v of
       MetaQueueInfo info \<Rightarrow>
         qbind (restore_meta env i ''queue'' (sqi_queue info)) (\<lambda>_.
         qbind (restore_meta env i ''routing_domain'' (sqi_routing_domain info)) (\<lambda>_.
         qbind (restore_meta env i ''tenant'' (sqi_tenant info)) (\<lambda>_.
         qbind (restore_meta env i ''campaign'' (sqi_campaign info)) (\<lambda>_.
         qbind (set_num_attempts i (sqi_num_attempts info)) (\<lambda>_.
         qbind (set_scheduling env i (sqi_schedule info)) (\<lambda>_.
         qbind (set_due env i (sqi_due info)) (\<lambda>_.
         unset_meta env i ''xfer_queue_info'')))))))
     | _ \<Rightarrow> qfail ''xfer_queue_info'')"

definition XFER_QUEUE_SUFFIX :: string where "XFER_QUEUE_SUFFIX = ''.xfer.kumomta.internal''"

definition is_xfer_queue_name :: "string \<Rightarrow> bool" where
  "is_xfer_queue_name name = ends_with XFER_QUEUE_SUFFIX name"

text \<open>The printed URL of the target.\<close>

definition to_queue_name :: "string \<Rightarrow> string" where
  "to_queue_name target = target @ XFER_QUEUE_SUFFIX"

definition do_xfer ::
  "qenv \<Rightarrow> requeue_fun \<Rightarrow> nat \<Rightarrow> sched_queue \<Rightarrow> string \<Rightarrow> insert_context \<Rightarrow> nat \<Rightarrow> bool qm" where
  "do_xfer env requeue n q target ctx i =
     qbind (if \<not> is_xfer_queue_name (sq_name q) then qbind (qtry (save_info env i)) (\<lambda>_. qret ()) else qret ()) (\<lambda>_.
     qbind (resolve_or env (to_queue_name target) q) (\<lambda>q'.
     qbind (qtry (set_meta env i ''queue'' (MetaString (sq_name q')))) (\<lambda>_.
     qbind (save_quietly env i) (\<lambda>_.
     qbind (if sq_name q' \<noteq> sq_name q then log_disposition AdminRebindRecord i 250 else qret ()) (\<lambda>_.
     requeue_quietly env requeue n q' i (Some 0) ctx)))))"

definition xfer_all :: "qenv \<Rightarrow> requeue_fun \<Rightarrow> nat \<Rightarrow> sched_queue \<Rightarrow> string \<Rightarrow> (nat \<times> bool) list qm" where
  "xfer_all env requeue n q target =
     qbind (drain_timeq env q) (\<lambda>ids.
     qbind (for_each (do_xfer env requeue n q target (ctx_from AdminRebind)) ids) (\<lambda>oks.
     qret (zip ids oks)))"

definition unwind_cancel_xfer ::
  "qenv \<Rightarrow> requeue_fun \<Rightarrow> nat \<Rightarrow> sched_queue \<Rightarrow> insert_context \<Rightarrow> nat \<Rightarrow> bool qm" where
  "unwind_cancel_xfer env requeue n q ctx i =
     qbind (qtry (save_info env i)) (\<lambda>r.
     case r of
       Inl _ \<Rightarrow> qret False
     | Inr _ \<Rightarrow> requeue_quietly env requeue n q i (Some 0) ctx)"

definition undo_xfer ::
  "qenv \<Rightarrow> requeue_fun \<Rightarrow> nat \<Rightarrow> sched_queue \<Rightarrow> insert_context \<Rightarrow> nat \<Rightarrow> bool qm" where
  "undo_xfer env requeue n q ctx i =
     qbind (qtry (restore_info env i)) (\<lambda>_.
     qbind (save_quietly env i) (\<lambda>_.
     qbind (qtry (get_queue_name env i)) (\<lambda>name.
     case name of
       Inl _ \<Rightarrow> unwind_cancel_xfer env requeue n q ctx i
     | Inr name \<Rightarrow>
         qbind (qtry (resolve env name)) (\<lambda>r.
         case r of
           Inl _ \<Rightarrow> unwind_cancel_xfer env requeue n q ctx i
         | Inr q' \<Rightarrow>
             qbind (log_disposition AdminRebindRecord i 250) (\<lambda>_.
             requeue_quietly env requeue n q' i (Some 0) ctx)))))"

definition cancel_xfer_all :: "qenv \<Rightarrow> requeue_fun \<Rightarrow> nat \<Rightarrow> sched_queue \<Rightarrow> (nat \<times> bool) list qm" where
  "cancel_xfer_all env requeue n q =
     (if \<not> is_xfer_queue_name (sq_name q) then qret []
      else
        qbind (drain_timeq env q) (\<lambda>ids.
        qbind (for_each (undo_xfer env requeue n q (ctx_from AdminRebind)) ids) (\<lambda>oks.
        qret (zip ids oks))))"

section \<open>Where the messages go\<close>

text \<open>A computation that does not fail, and puts message \<open>j\<close> into \<open>k x\<close> more places.\<close>

definition moves :: "nat \<Rightarrow> ('a \<Rightarrow> nat) \<Rightarrow> 'a qm \<Rightarrow> bool" where
  "moves j k m \<longleftrightarrow> (\<forall>w. case m w of
     Ret x w' \<Rightarrow> placed w' j = placed w j + k x | Fail _ _ \<Rightarrow> False | _ \<Rightarrow> True)"

named_theorems move_intros \<open>computations that do not fail\<close>

lemma moves_bind:
  assumes "moves j (\<lambda>_. 0) m" "\<And>x. moves j k (f x)"
  shows "moves j k (qbind m f)"
  unfolding moves_def
proof
  fix w
  note m = assms(1)[unfolded moves_def, rule_format, of w]
  show "case qbind m f w of Ret x w' \<Rightarrow> placed w' j = placed w j + k x | Fail _ _ \<Rightarrow> False | _ \<Rightarrow> True"
  proof (cases "m w")
    case (Ret x w')
    then show ?thesis using m assms(2)[of x, unfolded moves_def, rule_format, of w']
      by (simp add: qbind_def split: outcome.splits)
  qed (use m in \<open>simp_all add: qbind_def\<close>)
qed

lemma moves_map:
  assumes "moves j k m" "\<And>x. l (g x) = k x"
  shows "moves j l (qbind m (\<lambda>x. qret (g x)))"
  unfolding moves_def
proof
  fix w
  show "case qbind m (\<lambda>x. qret (g x)) w of Ret x w' \<Rightarrow> placed w' j = placed w j + l x | Fail _ _ \<Rightarrow> False | _ \<Rightarrow> True"
    using assms(1)[unfolded moves_def, rule_format, of w] assms(2)
    by (cases "m w") (simp_all add: qbind_def qret_def)
qed

lemma moves_try:
  assumes "places j k m"
  shows "moves j (\<lambda>r. case r of Inl _ \<Rightarrow> 0 | Inr x \<Rightarrow> k x) (qtry m)"
  unfolding moves_def
proof
  fix w
  show "case qtry m w of Ret r w' \<Rightarrow> placed w' j = placed w j + (case r of Inl _ \<Rightarrow> 0 | Inr x \<Rightarrow> k x)
    | Fail _ _ \<Rightarrow> False | _ \<Rightarrow> True"
    using assms[unfolded places_def, rule_format, of w] by (cases "m w") (simp_all add: qtry_def)
qed

lemma moves_qret: "k x = 0 \<Longrightarrow> moves j k (qret x)"
  by (simp add: moves_def qret_def)

lemma moves_quiet_try [move_intros]:
  assumes "\<And>w. keeps (same_places w) m"
  shows "moves j (\<lambda>_. 0) (qtry m)"
  using moves_try[OF places_quiet[OF assms], of j] by (simp add: sum.case_distrib moves_def sum.case_eq_if)

lemma moves_basic [move_intros]:
  "moves j (\<lambda>_. 0) (qret x)" "moves j (\<lambda>_. 0) (qask f)" "moves j (\<lambda>_. 0) (log_disposition c i code)"
  "moves j (\<lambda>_. 0) (needs_save i)"
  by (simp_all add: moves_def qret_def qask_def log_disposition_def qmod_def placed_def needs_save_def qbind_def
      get_msg_def qget_def)

lemma moves_if [move_intros]:
  "(b \<Longrightarrow> moves j k x) \<Longrightarrow> (\<not> b \<Longrightarrow> moves j k y) \<Longrightarrow> moves j k (if b then x else y)"
  by simp

lemma moves_save_quietly [move_intros]: "moves j (\<lambda>_. 0) (save_quietly env i)"
  unfolding save_quietly_def by (intro moves_bind move_intros keep_intros)

lemma moves_sum [move_intros]:
  "(\<And>e. r = Inl e \<Longrightarrow> moves j k (f e)) \<Longrightarrow> (\<And>x. r = Inr x \<Longrightarrow> moves j k (g x))
     \<Longrightarrow> moves j k (case r of Inl e \<Rightarrow> f e | Inr x \<Rightarrow> g x)"
  by (cases r) auto

lemma moves_resolve_or [move_intros]: "moves j (\<lambda>_. 0) (resolve_or env name q)"
  unfolding resolve_or_def by (intro moves_bind move_intros keep_intros)

text \<open>The message of a requeueing that did not fail is in its place.\<close>

lemma moves_requeue_quietly [move_intros]:
  assumes "requeue_places j requeue"
  shows "moves j (\<lambda>ok. if ok then here j i else 0) (requeue_quietly env requeue n q i delay ctx)"
  unfolding requeue_quietly_def
  by (rule moves_map[OF moves_try[OF places_requeue_message_internal[OF assms]]]) (simp split: sum.split)

lemma quiet_set_scheduling [keep_intros]: "keeps (same_places w) (set_scheduling env i s)"
  unfolding set_scheduling_def
  by (intro keep_intros keeps_qmod; simp add: upd_msg_def; intro keeps_qmod; simp add: same_places_def)

lemma quiet_save_info [keep_intros]:
  "keeps (same_places w) (save_info env i)" "keeps (same_places w) (restore_info env i)"
  unfolding save_info_def restore_info_def restore_meta_def
  by (intro keep_intros; auto intro!: keep_intros split: meta_value.splits)+

lemma quiet_try_apply [keep_intros]: "keeps (same_places w) (try_apply env rb i)"
proof -
  have "keeps (same_places w) (set_all_meta env i kvs)" for kvs
    by (induction kvs rule: set_all_meta.induct) (simp_all add: keep_intros)
  then show ?thesis
    unfolding try_apply_def split_beta by (intro keep_intros)
qed

lemma moves_do_rebind:
  assumes "requeue_places j requeue"
  shows "moves j (\<lambda>ok. if ok then here j i else 0) (do_rebind env requeue n q rb ctx i)"
  unfolding do_rebind_def Let_def by (intro moves_bind move_intros keep_intros assms)

lemma moves_do_xfer:
  assumes "requeue_places j requeue"
  shows "moves j (\<lambda>ok. if ok then here j i else 0) (do_xfer env requeue n q target ctx i)"
  unfolding do_xfer_def by (intro moves_bind move_intros keep_intros assms)

lemma moves_undo_xfer:
  assumes "requeue_places j requeue"
  shows "moves j (\<lambda>ok. if ok then here j i else 0) (undo_xfer env requeue n q ctx i)"
  unfolding undo_xfer_def unwind_cancel_xfer_def
  by (intro moves_bind move_intros keep_intros assms moves_qret; simp)

text \<open>A loop that reports for every message whether it was handed to a queue.\<close>

lemma moves_for_each:
  assumes "\<And>i. moves j (\<lambda>ok. if ok then here j i else 0) (f i)"
  shows "moves j (\<lambda>oks. count_list (zip ids oks) (j, True)) (for_each f ids)
    \<and> (\<forall>w oks w'. for_each f ids w = Ret oks w' \<longrightarrow> length oks = length ids)"
proof (induction ids)
  case Nil
  show ?case by (simp add: moves_def qret_def)
next
  case (Cons i ids)
  have "moves j (\<lambda>oks. count_list (zip (i # ids) oks) (j, True)) (for_each f (i # ids))"
    unfolding moves_def
  proof
    fix w
    show "case for_each f (i # ids) w of Ret oks w' \<Rightarrow> placed w' j = placed w j + count_list (zip (i # ids) oks) (j, True)
      | Fail _ _ \<Rightarrow> False | _ \<Rightarrow> True"
    proof (cases "f i w")
      case (Ret ok w1)
      then have "placed w1 j = placed w j + (if ok then here j i else 0)"
        using assms[of i, unfolded moves_def, rule_format, of w] by simp
      then show ?thesis
        using Ret Cons[THEN conjunct1, unfolded moves_def, rule_format, of w1]
        by (cases "for_each f ids w1") (auto simp: qbind_def qret_def here_def)
    qed (use assms[of i, unfolded moves_def, rule_format, of w] in \<open>simp_all add: qbind_def\<close>)
  qed
  moreover have "length oks = length (i # ids)" if r: "for_each f (i # ids) w = Ret oks w'" for w oks w'
  proof -
    obtain x w1 xs where "for_each f ids w1 = Ret xs w'" "oks = x # xs"
      using r by (auto simp: qbind_def qret_def split: outcome.splits)
    then show ?thesis using Cons[THEN conjunct2] by auto
  qed
  ultimately show ?case by blast
qed

lemma drain_timeq_placed:
  obtains ids w' where "drain_timeq env q w = Ret ids w'" "\<And>j. placed w j = placed w' j + count_list ids j"
proof -
  let ?p = "drained env (w_tick w) (sq_name q)"
  have "count_list (map snd es) j = count_list (map snd (filter p es)) j + count_list (map snd (filter (\<lambda>e. \<not> p e) es)) j"
    for p :: "string \<times> nat \<Rightarrow> bool" and es j
    by (induction es) auto
  from this[of "w_timeq w" _ ?p] show thesis
    by (intro that[of "map snd (filter ?p (w_timeq w))"
        "w\<lparr>w_tick := Suc (w_tick w), w_timeq := filter (\<lambda>e. \<not> ?p e) (w_timeq w)\<rparr>"])
      (simp_all add: drain_timeq_def qbind_def qask_def qget_def qmod_def qret_def placed_def)
qed

text \<open>An operation on all messages of a queue: it does not fail, no message is duplicated, and a message is
  missing exactly as often as the operation reports that it could not be handed to a queue.\<close>

definition conserves :: "(nat \<times> bool) list qm \<Rightarrow> bool" where
  "conserves m \<longleftrightarrow> (\<forall>w. case m w of
     Ret res w' \<Rightarrow> \<forall>j. placed w j = placed w' j + count_list res (j, False) | Fail _ _ \<Rightarrow> False | _ \<Rightarrow> True)"

lemma count_zip:
  "length oks = length ids \<Longrightarrow> count_list ids j = count_list (zip ids oks) (j, True) + count_list (zip ids oks) (j, False)"
  by (induction ids oks rule: list_induct2') auto

lemma conserves_drain_each:
  assumes "\<And>i j. moves j (\<lambda>ok. if ok then here j i else 0) (f i)"
  shows "conserves (qbind (drain_timeq env q) (\<lambda>ids. qbind (for_each f ids) (\<lambda>oks. qret (zip ids oks))))"
  unfolding conserves_def
proof
  fix w
  obtain ids w1 where drain: "drain_timeq env q w = Ret ids w1" "\<And>j. placed w j = placed w1 j + count_list ids j"
    using drain_timeq_placed by blast
  note each = moves_for_each[where f = f and ids = ids, OF assms]
  show "case qbind (drain_timeq env q) (\<lambda>ids. qbind (for_each f ids) (\<lambda>oks. qret (zip ids oks))) w of
    Ret res w' \<Rightarrow> \<forall>j. placed w j = placed w' j + count_list res (j, False) | Fail _ _ \<Rightarrow> False | _ \<Rightarrow> True"
  proof (cases "for_each f ids w1")
    case (Ret oks w')
    have "placed w' j = placed w1 j + count_list (zip ids oks) (j, True)" for j
      using each[of j, THEN conjunct1, unfolded moves_def, rule_format, of w1] Ret by simp
    moreover have "length oks = length ids" using each Ret by blast
    ultimately show ?thesis using Ret drain count_zip[of oks ids] by (simp add: qbind_def qret_def)
  qed (use drain(1) each[of 0, THEN conjunct1, unfolded moves_def, rule_format, of w1] in \<open>simp_all add: qbind_def\<close>)
qed

lemma moves_bounce_each: "moves j (\<lambda>_. count_list ids j) (for_each (admin_bounce env s) ids)"
proof (induction ids)
  case (Cons i ids)
  have bounce: "moves j (\<lambda>_. here j i) (admin_bounce env s i)"
    by (simp add: moves_def admin_bounce_def log_disposition_def remove_from_spool_def qbind_def qask_def qmod_def qret_def
        placed_def here_def)
  show ?case
    unfolding moves_def
  proof
    fix w
    show "case for_each (admin_bounce env s) (i # ids) w of Ret oks w' \<Rightarrow> placed w' j = placed w j + count_list (i # ids) j
      | Fail _ _ \<Rightarrow> False | _ \<Rightarrow> True"
    proof (cases "admin_bounce env s i w")
      case (Ret x w1)
      then show ?thesis
        using bounce[unfolded moves_def, rule_format, of w] Cons[unfolded moves_def, rule_format, of w1]
        by (cases "for_each (admin_bounce env s) ids w1") (auto simp: qbind_def qret_def here_def)
    qed (use bounce[unfolded moves_def, rule_format, of w] in \<open>simp_all add: qbind_def\<close>)
  qed
qed (simp add: moves_def qret_def)

lemma bounce_all_places:
  "case bounce_all env q suppress w of
     Ret b w' \<Rightarrow> \<forall>j. placed w' j = (if b then placed w j
       else placed w j - count_list (map snd (filter (drained env (w_tick w) (sq_name q)) (w_timeq w))) j)
   | _ \<Rightarrow> False"
proof -
  let ?ids = "map snd (filter (drained env (w_tick w) (sq_name q)) (w_timeq w))"
  obtain w1 where drain: "drain_timeq env q w = Ret ?ids w1" "\<And>j. placed w j = placed w1 j + count_list ?ids j"
    using drain_timeq_placed[of env q w] by (auto simp: drain_timeq_def qbind_def qask_def qget_def qmod_def qret_def)
  define w2 where "w2 = w1\<lparr>w_tick := Suc (w_tick w1)\<rparr>"
  have w2: "placed w2 j = placed w1 j" for j by (simp add: w2_def placed_def)
  have "answers (for_each (admin_bounce env suppress) ids)" for ids
    by (induction ids) (auto intro!: answer_intros)
  then have ret: "for_each (admin_bounce env suppress) ?ids w2 \<noteq> Panic \<and> for_each (admin_bounce env suppress) ?ids w2 \<noteq> Spin"
    unfolding answers_def by blast
  have each: "case for_each (admin_bounce env suppress) ?ids w2 of
      Ret _ w' \<Rightarrow> placed w' j = placed w2 j + count_list ?ids j | Fail _ _ \<Rightarrow> False | _ \<Rightarrow> True" for j
    using moves_bounce_each[of j ?ids env suppress] unfolding moves_def by blast
  show ?thesis
  proof (cases "?ids = [] \<or> spawn_error env (w_tick w1) \<noteq> None")
    case True
    then show ?thesis
      using drain w2 by (auto simp: bounce_all_def qbind_def qask_def qret_def w2_def split: option.split)
  next
    case False
    then show ?thesis
      using drain w2 ret each
      by (cases "for_each (admin_bounce env suppress) ?ids w2") (auto simp: bounce_all_def qbind_def qask_def qret_def w2_def)
  qed
qed

section \<open>Saving and restoring the placement of a message\<close>

lemma upd_loaded:
  "m_metadata (w_msg w i) = Some md
     \<Longrightarrow> with_meta env i (\<lambda>md. upd_msg i (g md)) w = Ret () (set_msg i (g md (w_msg w i)) w)"
  by (simp add: with_meta_loaded upd_msg_def qmod_def set_msg_def)

lemma w_msg_set_msg [simp]: "w_msg (set_msg i m w) = (w_msg w)(i := m)"
  by (simp add: set_msg_def)

lemma set_msg_set_msg [simp]: "set_msg i m' (set_msg i m w) = set_msg i m' w"
  by (simp add: set_msg_def)

text \<open>The four entries of the metadata that decide the queue, and the placement of a message without a
  schedule.\<close>

abbreviation queue_keys :: "string list" where
  "queue_keys \<equiv> [''queue'', ''routing_domain'', ''tenant'', ''campaign'']"

definition loaded_meta :: "metadata \<Rightarrow> nat \<Rightarrow> world \<Rightarrow> bool" where
  "loaded_meta md i w \<longleftrightarrow> m_metadata (w_msg w i) = Some md"

lemma set_meta_loaded:
  "m_metadata (w_msg w i) = Some md \<Longrightarrow> set_meta env i key v w = Ret () (set_msg i
     ((w_msg w i)\<lparr>m_metadata := Some (md\<lparr>md_meta := (md_meta md)(key \<mapsto> v)\<rparr>), m_meta_dirty := True\<rparr>) w)"
  unfolding set_meta_def by (rule upd_loaded)

lemma unset_meta_loaded:
  "m_metadata (w_msg w i) = Some md \<Longrightarrow> unset_meta env i key w = Ret () (set_msg i
     ((w_msg w i)\<lparr>m_metadata := Some (md\<lparr>md_meta := (md_meta md)(key := None)\<rparr>), m_meta_dirty := True\<rparr>) w)"
  unfolding unset_meta_def by (rule upd_loaded)

lemma restore_meta_loaded:
  "m_metadata (w_msg w i) = Some md \<Longrightarrow> restore_meta env i key v w = Ret () (set_msg i
     ((w_msg w i)\<lparr>m_metadata := Some (md\<lparr>md_meta := (md_meta md)(key := map_option MetaString v)\<rparr>),
        m_meta_dirty := True\<rparr>) w)"
  by (cases v) (simp_all add: restore_meta_def set_meta_loaded unset_meta_loaded)

lemma set_scheduling_none_loaded:
  "m_metadata (w_msg w i) = Some md \<Longrightarrow> set_scheduling env i None w = Ret None (set_msg i
     ((w_msg w i)\<lparr>m_metadata := Some (md\<lparr>md_schedule := None\<rparr>), m_scheduled := False\<rparr>) w)"
  by (simp add: set_scheduling_def with_meta_loaded qbind_def upd_msg_def qmod_def qret_def set_msg_def)

lemma set_due_unscheduled:
  "\<not> m_scheduled (w_msg w i) \<Longrightarrow> set_due env i due w = Ret due (set_msg i ((w_msg w i)\<lparr>m_due := due\<rparr>) w)"
  by (simp add: set_due_def qbind_def get_msg_def qget_def upd_msg_def qmod_def qret_def set_msg_def)

lemma set_num_attempts_loaded:
  "set_num_attempts i n w = Ret () (set_msg i ((w_msg w i)\<lparr>m_num_attempts := n\<rparr>) w)"
  by (simp add: set_num_attempts_def upd_msg_def qmod_def set_msg_def)

definition set_aside :: "metadata \<Rightarrow> message \<Rightarrow> saved_queue_info \<Rightarrow> message" where
  "set_aside md m info = m\<lparr>m_metadata := Some (md\<lparr>
     md_meta := (md_meta md)(''xfer_queue_info'' \<mapsto> MetaQueueInfo info, ''queue'' := None, ''routing_domain'' := None,
       ''tenant'' := None, ''campaign'' := None), md_schedule := None\<rparr>),
     m_scheduled := False, m_due := None, m_meta_dirty := True\<rparr>"

lemma save_info_loaded:
  assumes "m_metadata (w_msg w i) = Some md"
    "meta_string md ''queue'' = Inr a" "meta_string md ''routing_domain'' = Inr b"
    "meta_string md ''tenant'' = Inr c" "meta_string md ''campaign'' = Inr d"
  shows "save_info env i w = Ret () (set_msg i (set_aside md (w_msg w i)
    \<lparr>sqi_queue = a, sqi_routing_domain = b, sqi_tenant = c, sqi_campaign = d, sqi_schedule = md_schedule md,
     sqi_num_attempts = m_num_attempts (w_msg w i), sqi_due = m_due (w_msg w i)\<rparr>) w)"
  using assms
  by (cases md; cases "w_msg w i") (simp add: save_info_def qbind_def get_meta_string_loaded get_scheduling_def with_meta_loaded get_num_attempts_def
      get_due_def get_msg_def qget_def qret_def set_meta_loaded unset_meta_loaded set_scheduling_none_loaded
      set_due_unscheduled set_aside_def)

lemma restore_info_loaded:
  assumes "m_metadata (w_msg w i) = Some md" "md_meta md ''xfer_queue_info'' = Some (MetaQueueInfo info)"
    "sqi_schedule info = None"
  shows "restore_info env i w = Ret () (set_msg i ((w_msg w i)\<lparr>
    m_metadata := Some (md\<lparr>md_meta := (md_meta md)(''queue'' := map_option MetaString (sqi_queue info),
        ''routing_domain'' := map_option MetaString (sqi_routing_domain info),
        ''tenant'' := map_option MetaString (sqi_tenant info),
        ''campaign'' := map_option MetaString (sqi_campaign info), ''xfer_queue_info'' := None),
      md_schedule := None\<rparr>),
    m_scheduled := False, m_num_attempts := sqi_num_attempts info, m_due := sqi_due info, m_meta_dirty := True\<rparr>) w)"
  using assms
  by (cases md; cases "w_msg w i") (simp add: restore_info_def qbind_def get_meta_def with_meta_loaded qret_def
      restore_meta_loaded set_num_attempts_loaded set_scheduling_none_loaded set_due_unscheduled unset_meta_loaded
      fun_upd_twist)

section \<open>Properties\<close>

text \<open>C26: A message handed to \<^verbatim>\<open>insert_or_unwind\<close> at reception ends up in exactly one more place, also when the
  insertion fails: then it is removed from the spool, the log has a bounce record, and the error is
  returned.  No other message moves.\<close>

theorem insert_or_unwind_settles:
  "case insert_or_unwind env (requeue_message d env) n name i w of
     Ret _ w' \<Rightarrow> \<forall>j. placed w' j = placed w j + (if j = i then 1 else 0)
   | Fail _ w' \<Rightarrow> (\<forall>j. placed w' j = placed w j + (if j = i then 1 else 0)) \<and> i \<in> set (w_removed w')
       \<and> \<lparr>lr_kind = Bounce, lr_id = i, lr_code = 500\<rparr> \<in> set (w_log w')
   | _ \<Rightarrow> True"
proof -
  let ?m = "manager_insert env (requeue_message d env) n name i (ctx_from Received)"
  have "places j (\<lambda>_. here j i) ?m" for j
    unfolding manager_insert_def
    by (intro places_quiet_bind keep_intros places_queue_insert[OF places_requeue_message])
  then have m: "case ?m w of Ret _ w' \<Rightarrow> placed w' j = placed w j + here j i
      | Fail _ w' \<Rightarrow> placed w' j = placed w j | _ \<Rightarrow> True" for j
    unfolding places_def by blast
  show ?thesis
    using m by (cases "?m w")
      (auto simp: insert_or_unwind_def qbind_def qtry_def qret_def remove_from_spool_def qask_def qmod_def
        log_disposition_def placed_def here_def)
qed


lemma restore_keys:
  "x \<notin> {a, b, c, d} \<Longrightarrow> f x = None \<Longrightarrow>
     (f(x \<mapsto> v, a := None, b := None, c := None, d := None))(a := f a, b := f b, c := f c, d := f d, x := None) = f"
  by (auto simp: fun_eq_iff)


definition rebound_world :: world where
  "rebound_world = set_msg 7 ((w_msg example_world 7)\<lparr>m_num_attempts := 3, m_due := Some 5,
     m_metadata := Some (example_metadata\<lparr>md_meta := [''tenant'' \<mapsto> MetaString ''t'']\<rparr>)\<rparr>) example_world"


end
