(* ===== verification/Queue_Index.thy ===== *)
theory Queue_Index
  imports "HOL-Library.AList" Queue_Name
begin

text \<open>
  The index of the administrative rules, \<^verbatim>\<open>crates/kumod/src/http_server/queue_name_multi_index.rs\<close>: bounces
  and suspensions apply to the queues that match their criteria, and several hash maps narrow down the
  rules to look at.  A UUID is a natural number and an instant an integer.  A hash set of ids is a list
  without order of its own, an absent set of an index the empty list, and a \<^verbatim>\<open>BTreeSet\<close> of names the
  sorted list of its members, so that two of them are equal when they have the same members.
\<close>

section \<open>Criteria\<close>

record criteria =
  cr_campaign :: "string option"
  cr_tenant :: "string option"
  cr_domain :: "string option"
  cr_routing_domain :: "string option"
  cr_queue_names :: "string list"

text \<open>What a lookup asks for.\<close>

record query =
  qy_campaign :: "string option"
  qy_tenant :: "string option"
  qy_domain :: "string option"
  qy_routing_domain :: "string option"
  qy_queue_name :: "string option"

datatype key_type = FullCriteria | DCT string string string | DT string string | D string
  | ExactNames "string list" | OtherKey

definition is_match_all :: "criteria \<Rightarrow> bool" where
  "is_match_all c \<longleftrightarrow> cr_campaign c = None \<and> cr_tenant c = None \<and> cr_domain c = None
     \<and> cr_routing_domain c = None \<and> cr_queue_names c = []"

definition match_criteria :: "string option \<Rightarrow> string option \<Rightarrow> bool" where
  "match_criteria current wanted =
     (case (current, wanted) of
        (Some a, Some b) \<Rightarrow> a = b
      | (None, Some _) \<Rightarrow> False
      | (_, None) \<Rightarrow> True)"

definition criteria_matches :: "criteria \<Rightarrow> query \<Rightarrow> bool" where
  "criteria_matches c q =
     (if cr_queue_names c \<noteq> [] then
        (case qy_queue_name q of Some name \<Rightarrow> name \<in> set (cr_queue_names c) | None \<Rightarrow> False)
      else
        match_criteria (qy_campaign q) (cr_campaign c)
        \<and> match_criteria (qy_tenant q) (cr_tenant c)
        \<and> match_criteria (qy_domain q) (cr_domain c)
        \<and> match_criteria (qy_routing_domain q) (cr_routing_domain c))"

definition criteria_key :: "criteria \<Rightarrow> key_type" where
  "criteria_key c =
     (if cr_queue_names c \<noteq> [] then ExactNames (cr_queue_names c)
      else case (cr_domain c, cr_campaign c, cr_tenant c, cr_routing_domain c) of
        (Some _, Some _, Some _, Some _) \<Rightarrow> FullCriteria
      | (Some d, Some ca, Some t, None) \<Rightarrow> DCT d ca t
      | (Some d, None, Some t, _) \<Rightarrow> DT d t
      | (Some d, _, _, _) \<Rightarrow> D d
      | _ \<Rightarrow> OtherKey)"

section \<open>The index\<close>

record 'a rule =
  r_id :: nat
  r_criteria :: criteria
  r_expires :: int
  r_value :: 'a

record 'a multi_index =
  by_id :: "(nat \<times> 'a rule) list"
  by_criteria :: "criteria \<rightharpoonup> nat"
  by_domain_campaign_tenant :: "string \<times> string \<times> string \<Rightarrow> nat list"
  by_domain_tenant :: "string \<times> string \<Rightarrow> nat list"
  by_domain :: "string \<Rightarrow> nat list"
  by_queue_name :: "string \<Rightarrow> nat list"
  other :: "nat list"
  match_all :: "nat option"
  lookup_count :: nat
  generation_count :: nat

definition new_index :: "'a multi_index" where
  "new_index = \<lparr>by_id = [], by_criteria = Map.empty, by_domain_campaign_tenant = (\<lambda>_. []),
     by_domain_tenant = (\<lambda>_. []), by_domain = (\<lambda>_. []), by_queue_name = (\<lambda>_. []), other = [],
     match_all = None, lookup_count = 0, generation_count = 0\<rparr>"

definition get_all :: "'a multi_index \<Rightarrow> 'a rule list" where
  "get_all m = map snd (by_id m)"

text \<open>Change the id sets a rule with the given criteria is a member of: \<open>f\<close> on the sets of an index,
  \<open>g\<close> on the rule for everything.\<close>

definition update_keys ::
  "(nat list \<Rightarrow> nat list) \<Rightarrow> (nat option \<Rightarrow> nat option) \<Rightarrow> criteria \<Rightarrow> 'a multi_index \<Rightarrow> 'a multi_index" where
  "update_keys f g c m =
     (case criteria_key c of
        FullCriteria \<Rightarrow> m
      | ExactNames names \<Rightarrow> m\<lparr>by_queue_name := (\<lambda>name.
          if name \<in> set names then f (by_queue_name m name) else by_queue_name m name)\<rparr>
      | DCT d ca t \<Rightarrow> m\<lparr>by_domain_campaign_tenant :=
          (by_domain_campaign_tenant m)((d, ca, t) := f (by_domain_campaign_tenant m (d, ca, t)))\<rparr>
      | DT d t \<Rightarrow> m\<lparr>by_domain_tenant := (by_domain_tenant m)((d, t) := f (by_domain_tenant m (d, t)))\<rparr>
      | D d \<Rightarrow> m\<lparr>by_domain := (by_domain m)(d := f (by_domain m d))\<rparr>
      | OtherKey \<Rightarrow> if is_match_all c then m\<lparr>match_all := g (match_all m)\<rparr> else m\<lparr>other := f (other m)\<rparr>)"

definition remove_by_id :: "nat \<Rightarrow> 'a multi_index \<Rightarrow> 'a multi_index \<times> 'a rule option" where
  "remove_by_id i m =
     (case map_of (by_id m) i of
        None \<Rightarrow> (m, None)
      | Some e \<Rightarrow>
          (update_keys (removeAll i) (\<lambda>_. None) (r_criteria e)
             (m\<lparr>by_id := AList.delete i (by_id m), by_criteria := (by_criteria m)(r_criteria e := None),
                generation_count := generation_count m + 1\<rparr>),
           Some e))"

definition remove_existing_entry_with_same_criteria :: "'a rule \<Rightarrow> 'a multi_index \<Rightarrow> 'a multi_index" where
  "remove_existing_entry_with_same_criteria e m =
     (case by_criteria m (r_criteria e) of Some i \<Rightarrow> fst (remove_by_id i m) | None \<Rightarrow> m)"

definition index_insert :: "'a rule \<Rightarrow> 'a multi_index \<Rightarrow> 'a multi_index" where
  "index_insert e m =
     (let m1 = update_keys (List.insert (r_id e)) (\<lambda>_. Some (r_id e)) (r_criteria e)
        (remove_existing_entry_with_same_criteria e m)
      in m1\<lparr>by_criteria := (by_criteria m1)(r_criteria e \<mapsto> r_id e), by_id := AList.update (r_id e) e (by_id m1),
            generation_count := generation_count m1 + 1\<rparr>)"

definition index_prune_expired :: "int \<Rightarrow> 'a multi_index \<Rightarrow> 'a multi_index" where
  "index_prune_expired now m =
     fold (\<lambda>i m. fst (remove_by_id i m)) (map fst (filter (\<lambda>(_, e). r_expires e \<le> now) (by_id m))) m"

definition maybe_prune :: "int \<Rightarrow> 'a multi_index \<Rightarrow> 'a multi_index" where
  "maybe_prune now m =
     (let m1 = m\<lparr>lookup_count := lookup_count m + 1\<rparr>
      in if lookup_count m1 > 10000 then index_prune_expired now (m1\<lparr>lookup_count := 0\<rparr>) else m1)"

section \<open>Lookup\<close>

text \<open>The loop over the ids of one index.\<close>

fun find_live :: "'a multi_index \<Rightarrow> int \<Rightarrow> query \<Rightarrow> nat list \<Rightarrow> 'a rule option" where
  "find_live m now q [] = None"
| "find_live m now q (i # ids) =
     (case map_of (by_id m) i of
        Some e \<Rightarrow> if criteria_matches (r_criteria e) q \<and> r_expires e > now then Some e else find_live m now q ids
      | None \<Rightarrow> find_live m now q ids)"

definition query_criteria :: "query \<Rightarrow> criteria" where
  "query_criteria q = \<lparr>cr_campaign = qy_campaign q, cr_tenant = qy_tenant q, cr_domain = qy_domain q,
     cr_routing_domain = qy_routing_domain q,
     cr_queue_names = (case qy_queue_name q of Some name \<Rightarrow> [name] | None \<Rightarrow> [])\<rparr>"

definition or_else :: "'b option \<Rightarrow> 'b option \<Rightarrow> 'b option" where
  "or_else x y = (case x of Some v \<Rightarrow> Some v | None \<Rightarrow> y)"

text \<open>The clock is read twice, the second time for the last index.\<close>

definition get_matching :: "int \<Rightarrow> int \<Rightarrow> 'a multi_index \<Rightarrow> query \<Rightarrow> 'a rule option" where
  "get_matching now now' m q =
     (if by_id m = [] then None
      else
        or_else (Option.bind (match_all m) (map_of (by_id m)))
        (or_else
          (case Option.bind (by_criteria m (query_criteria q)) (map_of (by_id m)) of
             Some e \<Rightarrow> if r_expires e > now then Some e else None
           | None \<Rightarrow> None)
        (or_else
          (case qy_queue_name q of Some name \<Rightarrow> find_live m now q (by_queue_name m name) | None \<Rightarrow> None)
        (or_else
          (case (qy_domain q, qy_campaign q, qy_tenant q) of
             (Some d, Some c, Some t) \<Rightarrow> find_live m now q (by_domain_campaign_tenant m (d, c, t))
           | _ \<Rightarrow> None)
        (or_else
          (case (qy_domain q, qy_tenant q) of
             (Some d, Some t) \<Rightarrow> find_live m now q (by_domain_tenant m (d, t))
           | _ \<Rightarrow> None)
        (or_else
          (case qy_domain q of Some d \<Rightarrow> find_live m now q (by_domain m d) | None \<Rightarrow> None)
          (find_live m now' q (other m))))))))"

record 'a cached_entry =
  ce_entry :: "'a rule option"
  ce_generation_count :: nat

definition cached_get_matching ::
  "int \<Rightarrow> int \<Rightarrow> 'a multi_index \<Rightarrow> query \<Rightarrow> 'a cached_entry option \<Rightarrow> 'a rule option \<times> 'a cached_entry option" where
  "cached_get_matching now now' m q cache =
     (let miss = (let e = get_matching now now' m q
                  in (e, Some \<lparr>ce_entry = e, ce_generation_count = generation_count m\<rparr>))
      in case cache of
           Some hit \<Rightarrow>
             if ce_generation_count hit = generation_count m then
               (case ce_entry hit of
                  Some e \<Rightarrow> if r_expires e > now then (Some e, cache) else miss
                | None \<Rightarrow> (None, cache))
             else miss
         | None \<Rightarrow> miss)"

section \<open>The rules of a queue\<close>

text \<open>The lookup of \<^verbatim>\<open>AdminBounceEntry\<close> and \<^verbatim>\<open>AdminSuspendEntry\<close>.\<close>

definition query_for_queue :: "string \<Rightarrow> query" where
  "query_for_queue name =
     (let c = parse_queue_name name
      in \<lparr>qy_campaign = campaign c, qy_tenant = tenant c, qy_domain = Some (domain c),
          qy_routing_domain = routing_domain c, qy_queue_name = Some name\<rparr>)"

definition get_for_queue_name ::
  "int \<Rightarrow> int \<Rightarrow> string \<Rightarrow> 'a multi_index \<Rightarrow> 'a multi_index \<times> 'a rule option" where
  "get_for_queue_name now now' name m =
     (let m1 = maybe_prune now m in (m1, get_matching now now' m1 (query_for_queue name)))"

definition cached_get_for_queue_name ::
  "int \<Rightarrow> int \<Rightarrow> string \<Rightarrow> 'a cached_entry option \<Rightarrow> 'a multi_index
     \<Rightarrow> 'a multi_index \<times> 'a rule option \<times> 'a cached_entry option" where
  "cached_get_for_queue_name now now' name cache m =
     (let m1 = maybe_prune now m in (m1, cached_get_matching now now' m1 (query_for_queue name) cache))"

definition add_rule :: "int \<Rightarrow> 'a rule \<Rightarrow> 'a multi_index \<Rightarrow> 'a multi_index" where
  "add_rule now e m = index_insert e (maybe_prune now m)"

definition list_matching_queues :: "'a rule \<Rightarrow> string list \<Rightarrow> string list" where
  "list_matching_queues e names = filter (\<lambda>name. criteria_matches (r_criteria e) (query_for_queue name)) names"

section \<open>The invariant of the index\<close>

definition rules :: "'a multi_index \<Rightarrow> nat \<rightharpoonup> 'a rule" where
  "rules m = map_of (by_id m)"

text \<open>A rule can be found under its key.\<close>

definition indexed :: "'a multi_index \<Rightarrow> 'a rule \<Rightarrow> bool" where
  "indexed m e =
     (case criteria_key (r_criteria e) of
        FullCriteria \<Rightarrow> True
      | ExactNames names \<Rightarrow> \<forall>name \<in> set names. r_id e \<in> set (by_queue_name m name)
      | DCT d c t \<Rightarrow> r_id e \<in> set (by_domain_campaign_tenant m (d, c, t))
      | DT d t \<Rightarrow> r_id e \<in> set (by_domain_tenant m (d, t))
      | D d \<Rightarrow> r_id e \<in> set (by_domain m d)
      | OtherKey \<Rightarrow> if is_match_all (r_criteria e) then match_all m = Some (r_id e) else r_id e \<in> set (other m))"

definition index_ok :: "'a multi_index \<Rightarrow> bool" where
  "index_ok m \<longleftrightarrow>
     distinct (map fst (by_id m))
     \<and> (\<forall>i e. rules m i = Some e \<longrightarrow> r_id e = i \<and> indexed m e)
     \<and> (\<forall>c i. by_criteria m c = Some i \<longleftrightarrow> (\<exists>e. rules m i = Some e \<and> r_criteria e = c))
     \<and> (\<forall>i. match_all m = Some i \<longrightarrow> (\<exists>e. rules m i = Some e \<and> is_match_all (r_criteria e)))"

lemma index_okD:
  assumes "index_ok m"
  shows index_ok_distinct: "distinct (map fst (by_id m))"
    and index_ok_id: "rules m i = Some e \<Longrightarrow> r_id e = i"
    and index_ok_indexed: "rules m i = Some e \<Longrightarrow> indexed m e"
    and index_ok_criteria: "by_criteria m c = Some i \<longleftrightarrow> (\<exists>e. rules m i = Some e \<and> r_criteria e = c)"
    and index_ok_match_all: "match_all m = Some i \<Longrightarrow> \<exists>e. rules m i = Some e \<and> is_match_all (r_criteria e)"
  using assms by (auto simp: index_ok_def)

lemma index_ok_criteria_None: "index_ok m \<Longrightarrow> by_criteria m c = None \<longleftrightarrow> (\<forall>i e. rules m i = Some e \<longrightarrow> r_criteria e \<noteq> c)"
  by (metis index_ok_criteria not_None_eq)

lemma index_ok_same_criteria:
  "index_ok m \<Longrightarrow> rules m i = Some e \<Longrightarrow> rules m j = Some e' \<Longrightarrow> r_criteria e = r_criteria e' \<Longrightarrow> i = j"
  by (metis index_ok_criteria option.inject)

lemma match_all_unique: "is_match_all c \<Longrightarrow> is_match_all c' \<Longrightarrow> c = c'"
  by (simp add: is_match_all_def)

lemma match_all_key: "is_match_all c \<Longrightarrow> criteria_key c = OtherKey"
  by (simp add: is_match_all_def criteria_key_def)

lemma update_keys_simps [simp]:
  "by_id (update_keys f g c m) = by_id m" "by_criteria (update_keys f g c m) = by_criteria m"
  "rules (update_keys f g c m) = rules m" "generation_count (update_keys f g c m) = generation_count m"
  "lookup_count (update_keys f g c m) = lookup_count m"
  by (simp_all add: update_keys_def rules_def split: key_type.split)

lemma update_keys_match_all:
  "match_all (update_keys f g c m) = (if is_match_all c then g (match_all m) else match_all m)"
  by (simp add: update_keys_def match_all_key split: key_type.split)

text \<open>Changing the keys of one rule leaves the others indexed.\<close>

lemma indexed_update_other:
  assumes "indexed m e" "\<And>ids. r_id e \<in> set ids \<Longrightarrow> r_id e \<in> set (f ids)"
    "\<not> (is_match_all c \<and> is_match_all (r_criteria e))"
  shows "indexed (update_keys f g c m) e"
  using assms by (auto simp: indexed_def update_keys_def split: key_type.splits)

lemma indexed_update_self:
  "indexed (update_keys (List.insert (r_id e)) (\<lambda>_. Some (r_id e)) (r_criteria e) m) e"
  by (auto simp: indexed_def update_keys_def split: key_type.splits)

lemma indexed_cong:
  "by_domain_campaign_tenant m' = by_domain_campaign_tenant m \<Longrightarrow> by_domain_tenant m' = by_domain_tenant m
     \<Longrightarrow> by_domain m' = by_domain m \<Longrightarrow> by_queue_name m' = by_queue_name m \<Longrightarrow> other m' = other m
     \<Longrightarrow> match_all m' = match_all m \<Longrightarrow> indexed m' e = indexed m e"
  by (simp add: indexed_def split: key_type.split)

lemma index_ok_new: "index_ok new_index" "rules new_index = Map.empty"
  by (simp_all add: index_ok_def new_index_def rules_def)

section \<open>The operations refine operations on a map of rules\<close>

definition spec_remove :: "nat \<Rightarrow> (nat \<rightharpoonup> 'a rule) \<Rightarrow> nat \<rightharpoonup> 'a rule" where
  "spec_remove i r = r(i := None)"

definition spec_insert :: "'a rule \<Rightarrow> (nat \<rightharpoonup> 'a rule) \<Rightarrow> nat \<rightharpoonup> 'a rule" where
  "spec_insert e r = (\<lambda>i. case r i of
     Some e' \<Rightarrow> if r_criteria e' = r_criteria e then None else Some e' | None \<Rightarrow> None)(r_id e \<mapsto> e)"

definition spec_prune :: "int \<Rightarrow> (nat \<rightharpoonup> 'a rule) \<Rightarrow> nat \<rightharpoonup> 'a rule" where
  "spec_prune now r = (\<lambda>i. case r i of Some e \<Rightarrow> if r_expires e \<le> now then None else Some e | None \<Rightarrow> None)"

lemma rules_remove [simp]: "rules (fst (remove_by_id i m)) = spec_remove i (rules m)"
proof (cases "rules m i")
  case None
  then show ?thesis by (auto simp: remove_by_id_def rules_def spec_remove_def)
next
  case (Some e)
  then have "rules (fst (remove_by_id i m)) = map_of (AList.delete i (by_id m))"
    by (simp add: remove_by_id_def rules_def)
  also have "\<dots> = spec_remove i (rules m)"
    by (simp add: delete_conv' spec_remove_def rules_def)
  finally show ?thesis .
qed

lemma index_ok_remove:
  assumes "index_ok m"
  shows "index_ok (fst (remove_by_id i m))"
proof (cases "rules m i")
  case None
  then show ?thesis using assms by (simp add: remove_by_id_def rules_def)
next
  case (Some e)
  define m1 where "m1 = m\<lparr>by_id := AList.delete i (by_id m), by_criteria := (by_criteria m)(r_criteria e := None),
    generation_count := generation_count m + 1\<rparr>"
  define m2 where "m2 = update_keys (removeAll i) (\<lambda>_. None) (r_criteria e) m1"
  have m2: "fst (remove_by_id i m) = m2" using Some by (simp add: remove_by_id_def rules_def m1_def m2_def)
  have rules: "rules m2 = (rules m)(i := None)" using rules_remove[of i m] m2 by (simp add: spec_remove_def)
  have "distinct (map fst (by_id m2))"
    using index_ok_distinct[OF assms] by (simp add: m2_def m1_def distinct_delete)
  moreover have "r_id e' = j \<and> indexed m2 e'" if "rules m2 j = Some e'" for j e'
  proof -
    from that have e': "rules m j = Some e'" "j \<noteq> i" by (auto simp: rules split: if_splits)
    have "\<not> (is_match_all (r_criteria e) \<and> is_match_all (r_criteria e'))"
      using index_ok_same_criteria[OF assms Some e'(1)] match_all_unique e'(2) by blast
    moreover have "indexed m1 e'"
      using index_ok_indexed[OF assms e'(1)] by (subst indexed_cong[of _ m]) (simp_all add: m1_def)
    ultimately show ?thesis
      using index_ok_id[OF assms e'(1)] e'(2) by (auto simp: m2_def intro!: indexed_update_other)
  qed
  moreover have "by_criteria m2 c = Some j \<longleftrightarrow> (\<exists>e'. rules m2 j = Some e' \<and> r_criteria e' = c)" for c j
  proof (cases "c = r_criteria e")
    case True
    then have "by_criteria m2 c = None" by (simp add: m2_def m1_def)
    moreover have "\<not> (rules m2 j = Some e' \<and> r_criteria e' = c)" for e'
      using index_ok_same_criteria[OF assms Some, of j e'] True by (auto simp: rules)
    ultimately show ?thesis by simp
  next
    case False
    then have "by_criteria m2 c = by_criteria m c" by (simp add: m2_def m1_def)
    moreover have "(rules m2 j = Some e' \<and> r_criteria e' = c) = (rules m j = Some e' \<and> r_criteria e' = c)" for e'
      using False Some by (auto simp: rules)
    ultimately show ?thesis using index_ok_criteria[OF assms, of c j] by simp
  qed
  moreover have "\<exists>e'. rules m2 j = Some e' \<and> is_match_all (r_criteria e')" if j: "match_all m2 = Some j" for j
  proof -
    have n: "\<not> is_match_all (r_criteria e)" "match_all m = Some j"
      using j by (auto simp: m2_def m1_def update_keys_match_all split: if_splits)
    then obtain e' where "rules m j = Some e'" "is_match_all (r_criteria e')"
      using index_ok_match_all[OF assms] by blast
    moreover from this n Some have "j \<noteq> i" by auto
    ultimately show ?thesis by (simp add: rules)
  qed
  ultimately show ?thesis unfolding m2 index_ok_def by blast
qed

lemma remove_existing:
  assumes "index_ok m"
  shows "index_ok (remove_existing_entry_with_same_criteria e m)"
    "rules (remove_existing_entry_with_same_criteria e m) = (\<lambda>i. case rules m i of
      Some e' \<Rightarrow> if r_criteria e' = r_criteria e then None else Some e' | None \<Rightarrow> None)"
proof -
  show "index_ok (remove_existing_entry_with_same_criteria e m)"
    using assms index_ok_remove
    by (auto simp: remove_existing_entry_with_same_criteria_def split: option.split)
  show "rules (remove_existing_entry_with_same_criteria e m) = (\<lambda>i. case rules m i of
      Some e' \<Rightarrow> if r_criteria e' = r_criteria e then None else Some e' | None \<Rightarrow> None)"
  proof (cases "by_criteria m (r_criteria e)")
    case None
    then have "\<forall>i e'. rules m i = Some e' \<longrightarrow> r_criteria e' \<noteq> r_criteria e"
      by (simp add: index_ok_criteria_None[OF assms])
    with None show ?thesis
      by (simp add: remove_existing_entry_with_same_criteria_def fun_eq_iff split: option.split)
  next
    case (Some k)
    then have "rules (remove_existing_entry_with_same_criteria e m) i = (case rules m i of
      Some e' \<Rightarrow> if r_criteria e' = r_criteria e then None else Some e' | None \<Rightarrow> None)" for i
      using index_ok_criteria[OF assms, of "r_criteria e" i] index_ok_criteria[OF assms, of "r_criteria e" k]
      by (auto simp: remove_existing_entry_with_same_criteria_def spec_remove_def split: option.split)
    then show ?thesis by blast
  qed
qed

lemma insert_refines:
  assumes "index_ok m" "rules m (r_id e) = None"
  shows "index_ok (index_insert e m) \<and> rules (index_insert e m) = spec_insert e (rules m)"
proof -
  define m0 where "m0 = remove_existing_entry_with_same_criteria e m"
  note ok = remove_existing(1)[OF assms(1), of e, folded m0_def]
  note r0 = remove_existing(2)[OF assms(1), of e, folded m0_def]
  define m1 where "m1 = update_keys (List.insert (r_id e)) (\<lambda>_. Some (r_id e)) (r_criteria e) m0"
  define m2 where "m2 = m1\<lparr>by_criteria := (by_criteria m1)(r_criteria e \<mapsto> r_id e),
    by_id := AList.update (r_id e) e (by_id m1), generation_count := generation_count m1 + 1\<rparr>"
  have m2: "index_insert e m = m2" by (simp add: index_insert_def Let_def m0_def m1_def m2_def)
  have rules: "rules m2 = (rules m0)(r_id e \<mapsto> e)"
    by (simp add: m2_def m1_def rules_def update_conv')
  have fresh: "rules m0 (r_id e) = None" using assms(2) by (simp add: r0)
  have new: "r_criteria e' \<noteq> r_criteria e" if "rules m0 j = Some e'" for j e'
    using that by (auto simp: r0 split: option.splits if_splits)
  have same: "indexed m2 e' = indexed m1 e'" for e' by (rule indexed_cong) (simp_all add: m2_def)
  have "distinct (map fst (by_id m2))"
    using index_ok_distinct[OF ok] by (simp add: m2_def m1_def distinct_update)
  moreover have "r_id e' = j \<and> indexed m2 e'" if "rules m2 j = Some e'" for j e'
  proof (cases "j = r_id e")
    case True
    then show ?thesis using that rules indexed_update_self[of e m0] by (simp add: same m1_def)
  next
    case False
    then have e': "rules m0 j = Some e'" using that rules by simp
    have "\<not> (is_match_all (r_criteria e) \<and> is_match_all (r_criteria e'))"
      using new[OF e'] match_all_unique by blast
    then show ?thesis
      using index_ok_id[OF ok e'] index_ok_indexed[OF ok e'] by (auto simp: same m1_def intro!: indexed_update_other)
  qed
  moreover have "by_criteria m2 c = Some j \<longleftrightarrow> (\<exists>e'. rules m2 j = Some e' \<and> r_criteria e' = c)" for c j
    using index_ok_criteria[OF ok, of c j] fresh new[of j] rules
    by (auto simp: m2_def m1_def)
  moreover have "\<exists>e'. rules m2 j = Some e' \<and> is_match_all (r_criteria e')" if "match_all m2 = Some j" for j
    using that index_ok_match_all[OF ok, of j] rules fresh
    by (auto simp: m2_def m1_def update_keys_match_all split: if_splits)
  ultimately have "index_ok m2" unfolding index_ok_def by blast
  then show ?thesis using rules r0 by (simp add: m2 spec_insert_def)
qed

lemma fold_remove_refines:
  "index_ok m \<Longrightarrow> index_ok (fold (\<lambda>i m. fst (remove_by_id i m)) ids m)
     \<and> rules (fold (\<lambda>i m. fst (remove_by_id i m)) ids m) = (\<lambda>i. if i \<in> set ids then None else rules m i)"
  by (induction ids arbitrary: m) (auto simp: index_ok_remove spec_remove_def fun_eq_iff)

lemma prune_refines:
  assumes "index_ok m"
  shows "index_ok (index_prune_expired now m) \<and> rules (index_prune_expired now m) = spec_prune now (rules m)"
proof -
  let ?ids = "map fst (filter (\<lambda>(_, e). r_expires e \<le> now) (by_id m))"
  have "i \<in> set ?ids \<longleftrightarrow> (\<exists>e. rules m i = Some e \<and> r_expires e \<le> now)" for i
    unfolding rules_def map_of_eq_Some_iff[OF index_ok_distinct[OF assms]] by (auto simp: image_iff)
  then show ?thesis
    using fold_remove_refines[OF assms, of ?ids]
    by (auto simp: index_prune_expired_def spec_prune_def fun_eq_iff split: option.split)
qed

section \<open>Sequences of operations\<close>

datatype 'a rule_op = InsertRule "'a rule" | RemoveRule nat | PruneRules int

fun apply_op :: "('a rule \<Rightarrow> 's \<Rightarrow> 's) \<Rightarrow> (nat \<Rightarrow> 's \<Rightarrow> 's) \<Rightarrow> (int \<Rightarrow> 's \<Rightarrow> 's) \<Rightarrow> 'a rule_op \<Rightarrow> 's \<Rightarrow> 's" where
  "apply_op ins rem pru (InsertRule e) = ins e"
| "apply_op ins rem pru (RemoveRule i) = rem i"
| "apply_op ins rem pru (PruneRules now) = pru now"

definition spec_run :: "'a rule_op list \<Rightarrow> (nat \<rightharpoonup> 'a rule) \<Rightarrow> nat \<rightharpoonup> 'a rule" where
  "spec_run = fold (apply_op spec_insert spec_remove spec_prune)"

text \<open>The ids of new rules are fresh, as those of \<^verbatim>\<open>Uuid::new_v4\<close> are taken to be.\<close>

fun fresh_ops :: "'a rule_op list \<Rightarrow> (nat \<rightharpoonup> 'a rule) \<Rightarrow> bool" where
  "fresh_ops [] r = True"
| "fresh_ops (op # ops) r =
     ((case op of InsertRule e \<Rightarrow> r (r_id e) = None | _ \<Rightarrow> True)
      \<and> fresh_ops ops (apply_op spec_insert spec_remove spec_prune op r))"

text \<open>What a store of rules promises: it refines a map from ids to rules.\<close>

locale rule_store =
  fixes empty :: 's
    and ins :: "'a rule \<Rightarrow> 's \<Rightarrow> 's"
    and rem :: "nat \<Rightarrow> 's \<Rightarrow> 's"
    and pru :: "int \<Rightarrow> 's \<Rightarrow> 's"
    and invar :: "'s \<Rightarrow> bool"
    and abs :: "'s \<Rightarrow> nat \<rightharpoonup> 'a rule"
  assumes store_empty: "invar empty" "abs empty = Map.empty"
    and store_insert: "invar s \<Longrightarrow> abs s (r_id e) = None \<Longrightarrow> invar (ins e s) \<and> abs (ins e s) = spec_insert e (abs s)"
    and store_remove: "invar s \<Longrightarrow> invar (rem i s) \<and> abs (rem i s) = spec_remove i (abs s)"
    and store_prune: "invar s \<Longrightarrow> invar (pru now s) \<and> abs (pru now s) = spec_prune now (abs s)"
begin

lemma store_op:
  "invar s \<Longrightarrow> (case op of InsertRule e \<Rightarrow> abs s (r_id e) = None | _ \<Rightarrow> True)
     \<Longrightarrow> invar (apply_op ins rem pru op s)
       \<and> abs (apply_op ins rem pru op s) = apply_op spec_insert spec_remove spec_prune op (abs s)"
  using store_insert store_remove store_prune by (cases op) auto

lemma store_run:
  "invar s \<Longrightarrow> fresh_ops ops (abs s)
     \<Longrightarrow> invar (fold (apply_op ins rem pru) ops s) \<and> abs (fold (apply_op ins rem pru) ops s) = spec_run ops (abs s)"
proof (induction ops arbitrary: s)
  case (Cons op ops)
  then show ?case using store_op[of s op] by (simp add: spec_run_def)
qed (simp add: spec_run_def)

lemma store_run_empty:
  "fresh_ops ops Map.empty
     \<Longrightarrow> invar (fold (apply_op ins rem pru) ops empty) \<and> abs (fold (apply_op ins rem pru) ops empty) = spec_run ops Map.empty"
  using store_run[of empty ops] store_empty by simp

end

interpretation index_store: rule_store new_index index_insert "\<lambda>i m. fst (remove_by_id i m)" index_prune_expired index_ok rules
  by unfold_locales (simp_all add: index_ok_new insert_refines index_ok_remove prune_refines)

definition index_run :: "'a rule_op list \<Rightarrow> 'a multi_index \<Rightarrow> 'a multi_index" where
  "index_run = fold (apply_op index_insert (\<lambda>i m. fst (remove_by_id i m)) index_prune_expired)"

section \<open>Lookups find what a scan of all rules finds\<close>

lemma find_live_Some:
  "find_live m now q ids = Some e
     \<Longrightarrow> \<exists>i. rules m i = Some e \<and> criteria_matches (r_criteria e) q \<and> r_expires e > now"
  by (induction ids) (auto simp: rules_def split: option.splits if_splits)

lemma find_live_None:
  "find_live m now q ids = None \<Longrightarrow> i \<in> set ids \<Longrightarrow> rules m i = Some e \<Longrightarrow> criteria_matches (r_criteria e) q
     \<Longrightarrow> r_expires e \<le> now"
  by (induction ids) (auto simp: rules_def split: option.splits if_splits)

lemma or_else_simps [simp]: "or_else (Some x) y = Some x" "or_else None y = y"
  by (simp_all add: or_else_def)

lemma or_else_Some_iff: "or_else x y = Some v \<longleftrightarrow> x = Some v \<or> x = None \<and> y = Some v"
  by (cases x) auto

lemma or_else_None_iff: "or_else x y = None \<longleftrightarrow> x = None \<and> y = None"
  by (cases x) auto

lemma query_criteria_matches: "criteria_matches (query_criteria q) q"
  by (auto simp: criteria_matches_def query_criteria_def match_criteria_def split: option.split)

lemma match_all_matches: "is_match_all c \<Longrightarrow> criteria_matches c q"
  by (simp add: is_match_all_def criteria_matches_def match_criteria_def split: option.split)

text \<open>The indices in the order the lookup asks them.\<close>

definition exact_match :: "int \<Rightarrow> 'a multi_index \<Rightarrow> query \<Rightarrow> 'a rule option" where
  "exact_match now m q =
     (case Option.bind (by_criteria m (query_criteria q)) (rules m) of
        Some e \<Rightarrow> if r_expires e > now then Some e else None | None \<Rightarrow> None)"

definition index_ids :: "'a multi_index \<Rightarrow> query \<Rightarrow> nat list list" where
  "index_ids m q =
     [case qy_queue_name q of Some name \<Rightarrow> by_queue_name m name | None \<Rightarrow> [],
      case (qy_domain q, qy_campaign q, qy_tenant q) of
        (Some d, Some c, Some t) \<Rightarrow> by_domain_campaign_tenant m (d, c, t) | _ \<Rightarrow> [],
      case (qy_domain q, qy_tenant q) of (Some d, Some t) \<Rightarrow> by_domain_tenant m (d, t) | _ \<Rightarrow> [],
      case qy_domain q of Some d \<Rightarrow> by_domain m d | None \<Rightarrow> []]"

lemma get_matching_alt:
  "get_matching now now' m q =
     (if by_id m = [] then None
      else or_else (Option.bind (match_all m) (rules m)) (or_else (exact_match now m q)
        (foldr (\<lambda>ids. or_else (find_live m now q ids)) (index_ids m q) (find_live m now' q (other m)))))"
  by (simp add: get_matching_def exact_match_def index_ids_def rules_def split: option.split)

lemma foldr_or_else_Some:
  "foldr (\<lambda>x. or_else (f x)) xs y = Some v \<Longrightarrow> (\<exists>x \<in> set xs. f x = Some v) \<or> y = Some v"
  by (induction xs) (auto simp: or_else_Some_iff)

lemma foldr_or_else_None:
  "foldr (\<lambda>x. or_else (f x)) xs y = None \<longleftrightarrow> (\<forall>x \<in> set xs. f x = None) \<and> y = None"
  by (induction xs) (auto simp: or_else_None_iff)

lemma get_matching_sound:
  assumes "index_ok m" "get_matching now now' m q = Some e" "now \<le> now'"
  shows "\<exists>i. rules m i = Some e \<and> criteria_matches (r_criteria e) q
    \<and> (is_match_all (r_criteria e) \<or> r_expires e > now)"
proof -
  consider (all) "Option.bind (match_all m) (rules m) = Some e" | (exact) "exact_match now m q = Some e"
    | (found) ids where "find_live m now q ids = Some e" | (last) "find_live m now' q (other m) = Some e"
    using assms(2) unfolding get_matching_alt
    by (auto simp: or_else_Some_iff split: if_splits dest!: foldr_or_else_Some)
  then show ?thesis
  proof cases
    case all
    then obtain i where "match_all m = Some i" "rules m i = Some e" by (auto simp: bind_eq_Some_conv)
    then show ?thesis using index_ok_match_all[OF assms(1), of i] match_all_matches by auto
  next
    case exact
    then obtain i where "by_criteria m (query_criteria q) = Some i" "rules m i = Some e" "r_expires e > now"
      by (auto simp: exact_match_def bind_eq_Some_conv split: option.splits if_splits)
    then show ?thesis using index_ok_criteria[OF assms(1)] query_criteria_matches by (metis option.inject)
  next
    case found
    then show ?thesis using find_live_Some by blast
  next
    case last
    then show ?thesis using find_live_Some[OF last] assms(3) by (meson dual_order.strict_trans2 order.strict_trans2)
  qed
qed

text \<open>A rule that matches is a member of one of the indices the lookup asks, unless it has all four criteria
  and the lookup is for a queue.\<close>

lemma matching_indexed:
  assumes "indexed m e" "criteria_matches (r_criteria e) q" "\<not> is_match_all (r_criteria e)"
  shows "criteria_key (r_criteria e) = FullCriteria
    \<or> (\<exists>ids \<in> set (index_ids m q). r_id e \<in> set ids) \<or> r_id e \<in> set (other m)"
  using assms
  by (auto simp: indexed_def criteria_matches_def criteria_key_def match_criteria_def index_ids_def
      split: option.splits if_splits)

lemma full_criteria_query:
  assumes "criteria_key c = FullCriteria" "criteria_matches c q" "qy_queue_name q = None"
  shows "query_criteria q = c"
  using assms
  by (cases c) (auto simp: criteria_key_def criteria_matches_def match_criteria_def query_criteria_def
      split: option.splits if_splits)

lemma get_matching_complete:
  assumes "index_ok m" "get_matching now now' m q = None" "now \<le> now'"
    and "rules m i = Some e" "criteria_matches (r_criteria e) q"
    and "criteria_key (r_criteria e) = FullCriteria \<Longrightarrow> qy_queue_name q = None"
  shows "r_expires e \<le> now'"
proof -
  have "by_id m \<noteq> []" using assms(4) by (auto simp: rules_def)
  then have none: "Option.bind (match_all m) (rules m) = None" "exact_match now m q = None"
    "\<forall>ids \<in> set (index_ids m q). find_live m now q ids = None" "find_live m now' q (other m) = None"
    using assms(2) by (simp_all add: get_matching_alt or_else_None_iff foldr_or_else_None)
  have e: "r_id e = i" "indexed m e" using index_ok_id[OF assms(1,4)] index_ok_indexed[OF assms(1,4)] .
  have "\<not> is_match_all (r_criteria e)"
    using none(1) e assms(4) by (auto simp: indexed_def match_all_key)
  from matching_indexed[OF e(2) assms(5) this] consider (full) "criteria_key (r_criteria e) = FullCriteria"
    | (index) ids where "ids \<in> set (index_ids m q)" "i \<in> set ids" | (other) "i \<in> set (other m)"
    using e(1) by auto
  then show ?thesis
  proof cases
    case full
    then have "query_criteria q = r_criteria e" using full_criteria_query[OF full assms(5)] assms(6) by simp
    then have "by_criteria m (query_criteria q) = Some i" using index_ok_criteria[OF assms(1)] assms(4) by auto
    then show ?thesis using none(2) assms(3,4) by (auto simp: exact_match_def split: if_splits)
  next
    case index
    have "r_expires e \<le> now" using find_live_None[OF bspec[OF none(3) index(1)] index(2) assms(4,5)] .
    then show ?thesis using assms(3) by simp
  next
    case other
    then show ?thesis using find_live_None[OF none(4) other assms(4,5)] by simp
  qed
qed

section \<open>Caching\<close>

text \<open>The generation changes whenever the rules do.\<close>

definition newer :: "'a multi_index \<Rightarrow> 'a multi_index \<Rightarrow> bool" where
  "newer m m' \<longleftrightarrow> generation_count m \<le> generation_count m'
     \<and> (generation_count m' = generation_count m \<longrightarrow> m' = m)"

lemma newer_refl: "newer m m"
  by (simp add: newer_def)

lemma newer_trans: "newer m m' \<Longrightarrow> newer m' m'' \<Longrightarrow> newer m m''"
  by (auto simp: newer_def dest: le_antisym)

lemma newer_remove: "newer m (fst (remove_by_id i m))"
  by (simp add: newer_def remove_by_id_def split: option.split)

lemma newer_prune: "newer m (index_prune_expired now m)"
proof -
  have "newer m (fold (\<lambda>i m. fst (remove_by_id i m)) ids m)" for ids
  proof (induction ids arbitrary: m)
    case (Cons i ids)
    show ?case using newer_trans[OF newer_remove Cons] by simp
  qed (simp add: newer_refl)
  then show ?thesis by (simp add: index_prune_expired_def)
qed

lemma newer_insert: "newer m (index_insert e m)"
proof -
  have "generation_count m \<le> generation_count (remove_existing_entry_with_same_criteria e m)"
    using newer_remove[of m] by (simp add: remove_existing_entry_with_same_criteria_def newer_def split: option.split)
  then show ?thesis by (simp add: index_insert_def Let_def newer_def)
qed

lemma newer_run: "newer m (index_run ops m)"
proof (induction ops arbitrary: m)
  case (Cons op ops)
  have "newer m (apply_op index_insert (\<lambda>i m. fst (remove_by_id i m)) index_prune_expired op m)"
    by (cases op) (simp_all add: newer_insert newer_remove newer_prune)
  then show ?case using Cons newer_trans by (fastforce simp: index_run_def)
qed (simp add: index_run_def newer_refl)

text \<open>A valid answer to a lookup: a live rule that matches, or none when no live rule does.\<close>

definition valid_answer :: "int \<Rightarrow> int \<Rightarrow> (nat \<rightharpoonup> 'a rule) \<Rightarrow> query \<Rightarrow> 'a rule option \<Rightarrow> bool" where
  "valid_answer now now' r q res =
     (case res of
        Some e \<Rightarrow> \<exists>i. r i = Some e \<and> criteria_matches (r_criteria e) q \<and> r_expires e > now
      | None \<Rightarrow> \<forall>i e. r i = Some e \<longrightarrow> criteria_matches (r_criteria e) q \<longrightarrow> r_expires e \<le> now')"

text \<open>The lookups that are answered from the indices alone.\<close>

definition plain_rules :: "int \<Rightarrow> (nat \<rightharpoonup> 'a rule) \<Rightarrow> query \<Rightarrow> bool" where
  "plain_rules now r q \<longleftrightarrow> (\<forall>i e. r i = Some e \<longrightarrow>
     (criteria_key (r_criteria e) = FullCriteria \<longrightarrow> qy_queue_name q = None)
     \<and> (is_match_all (r_criteria e) \<longrightarrow> r_expires e > now))"

lemma get_matching_valid:
  assumes "index_ok m" "now \<le> now'" "plain_rules now (rules m) q"
  shows "valid_answer now now' (rules m) q (get_matching now now' m q)"
proof (cases "get_matching now now' m q")
  case None
  then show ?thesis
    using get_matching_complete[OF assms(1) None assms(2)] assms(3) by (simp add: valid_answer_def plain_rules_def)
next
  case (Some e)
  then show ?thesis
    using get_matching_sound[OF assms(1) Some assms(2)] assms(3) by (auto simp: valid_answer_def plain_rules_def)
qed

lemma cached_get_matching_valid:
  assumes "valid_answer now2 now2' (rules m) q (get_matching now2 now2' m q)"
    "\<And>hit. cache = Some hit \<Longrightarrow> ce_generation_count hit = generation_count m
       \<Longrightarrow> valid_answer now1 now1' (rules m) q (ce_entry hit)"
    "now1' \<le> now2'"
  shows "valid_answer now2 now2' (rules m) q (fst (cached_get_matching now2 now2' m q cache))"
proof (cases cache)
  case None
  then show ?thesis using assms(1) by (simp add: cached_get_matching_def Let_def)
next
  case (Some hit)
  show ?thesis
  proof (cases "ce_generation_count hit = generation_count m")
    case True
    then show ?thesis
      using assms(1,3) assms(2)[OF Some True] Some
      by (cases "ce_entry hit") (fastforce simp: cached_get_matching_def Let_def valid_answer_def)+
  next
    case False
    then show ?thesis using assms(1) Some by (simp add: cached_get_matching_def Let_def)
  qed
qed

section \<open>Properties\<close>


definition domain_rule :: "nat \<Rightarrow> string \<Rightarrow> int \<Rightarrow> unit rule" where
  "domain_rule i d expires = \<lparr>r_id = i, r_criteria = \<lparr>cr_campaign = None, cr_tenant = None, cr_domain = Some d,
     cr_routing_domain = None, cr_queue_names = []\<rparr>, r_expires = expires, r_value = ()\<rparr>"


text \<open>A rule with a campaign, a tenant, a domain and a routing domain is never found by a lookup for a
  queue, although it matches the queue and is live: it is only kept by its criteria, and the criteria
  built from the lookup contain the name of the queue.\<close>

theorem full_criteria_rule_not_found:
  assumes "criteria_key (r_criteria e) = FullCriteria" "qy_queue_name q = Some name"
  shows "get_matching now now' (index_insert e new_index) q = None"
proof -
  have "cr_queue_names (r_criteria e) = []" using assms(1) by (auto simp: criteria_key_def split: if_splits)
  moreover have "cr_queue_names (query_criteria q) = [name]" using assms(2) by (simp add: query_criteria_def)
  ultimately have "query_criteria q \<noteq> r_criteria e" by auto
  then show ?thesis
    using assms(1)
    by (simp add: get_matching_alt exact_match_def index_ids_def index_insert_def new_index_def Let_def update_keys_def
        remove_existing_entry_with_same_criteria_def split: option.split)
qed

definition full_rule :: "unit rule" where
  "full_rule = \<lparr>r_id = 1, r_criteria = \<lparr>cr_campaign = Some ''c'', cr_tenant = Some ''t'', cr_domain = Some ''d'',
     cr_routing_domain = Some ''r'', cr_queue_names = []\<rparr>, r_expires = 10, r_value = ()\<rparr>"

theorem full_criteria_rule_not_found_witness:
  "criteria_matches (r_criteria full_rule) (query_for_queue ''c:t@d!r'') \<and> r_expires full_rule > 5
   \<and> list_matching_queues full_rule [''c:t@d!r''] = [''c:t@d!r'']
   \<and> snd (get_for_queue_name 5 5 ''c:t@d!r'' (index_insert full_rule new_index)) = None"
proof -
  have q: "criteria_matches (r_criteria full_rule) (query_for_queue ''c:t@d!r'')" by code_simp
  moreover have "criteria_key (r_criteria full_rule) = FullCriteria" by code_simp
  moreover have "qy_queue_name (query_for_queue ''c:t@d!r'') = Some ''c:t@d!r''"
    by (simp add: query_for_queue_def Let_def)
  moreover have "r_expires full_rule > 5" by (simp add: full_rule_def)
  moreover have "snd (get_for_queue_name 5 5 ''c:t@d!r'' (index_insert full_rule new_index))
      = get_matching 5 5 (index_insert full_rule new_index) (query_for_queue ''c:t@d!r'')"
    by code_simp
  ultimately show ?thesis
    using full_criteria_rule_not_found[of full_rule "query_for_queue ''c:t@d!r''" "''c:t@d!r''" 5 5]
    by (simp add: list_matching_queues_def)
qed

text \<open>A rule for everything is applied after it has expired, until the expired rules are pruned: its
  expiry is not looked at.\<close>

theorem expired_match_all_applies:
  assumes "is_match_all (r_criteria e)" "r_expires e \<le> now"
  shows "get_matching now now' (index_insert e new_index) q = Some e
    \<and> get_matching now now' (index_prune_expired now (index_insert e new_index)) q = None"
proof -
  have key: "criteria_key (r_criteria e) = OtherKey" by (rule match_all_key[OF assms(1)])
  have ins: "index_ok (index_insert e new_index)" "rules (index_insert e new_index) = [r_id e \<mapsto> e]"
    using insert_refines[OF index_ok_new(1), of e] by (simp_all add: index_ok_new spec_insert_def)
  have "rules (index_prune_expired now (index_insert e new_index)) = Map.empty"
    using prune_refines[OF ins(1), of now] assms(2) by (simp add: ins(2) spec_prune_def fun_eq_iff)
  then have "by_id (index_prune_expired now (index_insert e new_index)) = []" by (simp add: rules_def)
  then show ?thesis
    using assms(1) key
    by (simp add: get_matching_alt index_insert_def new_index_def Let_def update_keys_def rules_def
        remove_existing_entry_with_same_criteria_def)
qed

definition everything_rule :: "unit rule" where
  "everything_rule = \<lparr>r_id = 1, r_criteria = \<lparr>cr_campaign = None, cr_tenant = None, cr_domain = None,
     cr_routing_domain = None, cr_queue_names = []\<rparr>, r_expires = 10, r_value = ()\<rparr>"

theorem expired_match_all_applies_witness:
  "get_matching 11 11 (index_insert everything_rule new_index) (query_for_queue ''d'') = Some everything_rule"
  using expired_match_all_applies[of everything_rule 11 11 "query_for_queue ''d''"]
  by (simp add: everything_rule_def is_match_all_def)

end
