(* ===== verification/Egress_Source.thy ===== *)
theory Egress_Source
  imports Queue_World
begin

text \<open>
  The selection of an egress source, \<^verbatim>\<open>crates/kumod/src/egress_source.rs\<close>: weighted round robin over the
  sources of a pool, and the loop that tries sources until one takes the message.  Weights and indices
  are natural numbers: the code only takes maxima, greatest common divisors and saturating differences
  of its \<^verbatim>\<open>u32\<close> weights.
\<close>

section \<open>Weighted round robin\<close>

record pool_entry =
  pe_name :: string
  pe_weight :: nat

record egress_pool =
  ep_name :: string
  ep_entries :: "pool_entry list"

text \<open>\<^verbatim>\<open>IndexAndWeight\<close>.\<close>

type_synonym index_and_weight = "nat \<times> nat"

text \<open>\<^verbatim>\<open>CachedReadyQueueNameEntry\<close>: a name with the time its records expire and the generation of the queue's
  configuration it was computed for, or a failure that is remembered until some time.\<close>

datatype cached_name = Hit string "nat option" nat | Negative nat

record source_selector =
  ss_name :: string
  ss_entries :: "pool_entry list"
  ss_index_and_weight :: index_and_weight
  ss_ready_names :: "string \<rightharpoonup> cached_name"

definition new_selector :: "egress_pool \<Rightarrow> source_selector" where
  "new_selector pool =
     \<lparr>ss_name = ep_name pool, ss_entries = filter (\<lambda>e. pe_weight e \<noteq> 0) (ep_entries pool),
      ss_index_and_weight = (0, 0), ss_ready_names = Map.empty\<rparr>"

definition equivalent :: "source_selector \<Rightarrow> egress_pool \<Rightarrow> bool" where
  "equivalent s pool \<longleftrightarrow> ss_name s = ep_name pool \<and> ss_entries s = ep_entries pool"

text \<open>When the configuration of a queue is refreshed, its selector is kept only while it is equivalent to the pool.\<close>

definition refresh_selector :: "source_selector \<Rightarrow> egress_pool \<Rightarrow> source_selector" where
  "refresh_selector s pool = (if \<not> equivalent s pool then new_selector pool else s)"

text \<open>One round of the loop: the next index, and the next weight when the index wraps around.\<close>

definition advance :: "nat \<Rightarrow> nat \<Rightarrow> nat \<Rightarrow> index_and_weight \<Rightarrow> index_and_weight" where
  "advance n divisor max_weight s =
     (let i = (fst s + 1) mod n
      in if i = 0 then
           (let c = snd s - divisor in (i, if c = 0 then max_weight else c))
         else (i, snd s))"

text \<open>The loop runs until an entry has at least the current weight; \<^const>\<open>None\<close> says that it does not end.\<close>

partial_function (option) next_loop :: "nat list \<Rightarrow> nat \<Rightarrow> nat \<Rightarrow> index_and_weight \<Rightarrow> index_and_weight option" where
  "next_loop ws divisor max_weight s =
     (let s' = advance (length ws) divisor max_weight s
      in if ws ! fst s' \<ge> snd s' then Some s' else next_loop ws divisor max_weight s')"

definition weights_gcd :: "nat list \<Rightarrow> nat" where
  "weights_gcd ws = foldl gcd 0 ws"

definition weights_max :: "nat list \<Rightarrow> nat" where
  "weights_max ws = foldl max 0 ws"

text \<open>\<^verbatim>\<open>next_impl\<close>: the position of the chosen entry, if any, and the new state.\<close>

definition next_impl :: "nat list \<Rightarrow> index_and_weight \<Rightarrow> (nat option \<times> index_and_weight) option" where
  "next_impl ws s =
     (if ws = [] then Some (None, s)
      else if length ws = 1 then Some (Some 0, s)
      else if weights_max ws = 0 then Some (None, s)
      else map_option (\<lambda>s'. (Some (fst s'), s')) (next_loop ws (weights_gcd ws) (weights_max ws) s))"

section \<open>Trying the sources\<close>

text \<open>What is asked about the sources: whether one is suspended for its health and for how long, the name
  of its ready queue and when that expires, whether it is suspended by the administrator, whether it
  resolves, has room, and for how long it is throttled; and the time and the generation of the queue's
  configuration.\<close>

record source_env =
  se_now :: nat
  se_generation :: nat
  se_suspension :: "string \<Rightarrow> nat option"
  se_compute_name :: "string \<Rightarrow> (string \<times> nat option) option"
  se_admin_suspension :: "string \<Rightarrow> int option"
  se_resolve_error :: "string \<Rightarrow> string option"
  se_has_room :: "string \<Rightarrow> bool"
  se_throttle :: "string \<Rightarrow> (string, nat option) result"

text \<open>A duration from the standard library, or a minute when it is too long for \<^verbatim>\<open>chrono\<close>.\<close>

definition chrono_or_minute :: "nat \<Rightarrow> int" where
  "chrono_or_minute d = (if chrono_valid (int d) then int d else 60 * chrono_nanos)"

definition note_delay :: "int \<Rightarrow> int option \<Rightarrow> int option" where
  "note_delay d md = Some (min (case md of Some d' \<Rightarrow> d' | None \<Rightarrow> d) d)"

text \<open>The cached name, unless the configuration has changed or its time is over: then it is dropped.\<close>

definition name_is_stale :: "source_env \<Rightarrow> cached_name \<Rightarrow> bool" where
  "name_is_stale env c =
     (case c of
        Hit name until generation \<Rightarrow>
          se_generation env \<noteq> generation \<or> (case until of Some deadline \<Rightarrow> deadline \<le> se_now env | None \<Rightarrow> False)
      | Negative expires_at \<Rightarrow> expires_at \<le> se_now env)"

definition get_ready_queue_for_source ::
  "source_env \<Rightarrow> string \<Rightarrow> (string \<rightharpoonup> cached_name) \<Rightarrow> cached_name option \<times> (string \<rightharpoonup> cached_name)" where
  "get_ready_queue_for_source env source m =
     (case m source of
        None \<Rightarrow> (None, m)
      | Some c \<Rightarrow> if name_is_stale env c then (None, m(source := None)) else (Some c, m))"

definition compute_ready_queue_name ::
  "source_env \<Rightarrow> string \<Rightarrow> (string \<rightharpoonup> cached_name) \<Rightarrow> cached_name \<times> (string \<rightharpoonup> cached_name)" where
  "compute_ready_queue_name env source m =
     (case get_ready_queue_for_source env source m of
        (Some c, m') \<Rightarrow> (c, m')
      | (None, m') \<Rightarrow>
          (let c = (case se_compute_name env source of
                      Some (name, until) \<Rightarrow> Hit name until (se_generation env)
                    | None \<Rightarrow> Negative (se_now env + 60 * nat chrono_nanos))
           in (c, m'(source \<mapsto> c))))"

text \<open>The suspension of one pathway: the health of the source first, then the administrator's word on its
  ready queue; a pathway without a name has no such suspension.\<close>

definition pathway_suspension ::
  "source_env \<Rightarrow> string \<Rightarrow> (string \<rightharpoonup> cached_name) \<Rightarrow> int option \<times> (string \<rightharpoonup> cached_name)" where
  "pathway_suspension env source m =
     (case se_suspension env source of
        Some remaining \<Rightarrow> (Some (chrono_or_minute remaining), m)
      | None \<Rightarrow>
          (let (c, m') = compute_ready_queue_name env source m
           in case c of
                Hit name until generation \<Rightarrow> (se_admin_suspension env name, m')
              | Negative expires_at \<Rightarrow> (None, m')))"

text \<open>The loop that leaves out the suspended pathways.\<close>

fun filter_suspended ::
  "source_env \<Rightarrow> pool_entry list \<Rightarrow> int option \<Rightarrow> (string \<rightharpoonup> cached_name)
     \<Rightarrow> pool_entry list \<times> int option \<times> (string \<rightharpoonup> cached_name)" where
  "filter_suspended env [] md m = ([], md, m)"
| "filter_suspended env (e # es) md m =
     (case pathway_suspension env (pe_name e) m of
        (Some d, m') \<Rightarrow> filter_suspended env es (note_delay d md) m'
      | (None, m') \<Rightarrow>
          (let (es', md', m'') = filter_suspended env es md m' in (e # es', md', m'')))"

definition source_result :: "bool \<Rightarrow> int option \<Rightarrow> select_outcome" where
  "source_result is_full md =
     (if is_full then SelectFull else case md of Some d \<Rightarrow> SourceDelay d | None \<Rightarrow> NoSources)"

text \<open>Every round leaves out at least the entry it has tried.\<close>

lemma filter_name_shorter:
  "i < length es \<Longrightarrow> length (filter (\<lambda>e. pe_name e \<noteq> pe_name (es ! i)) es) < length es"
  by (rule length_filter_less[of "es ! i"]) simp_all

function select_loop ::
  "source_env \<Rightarrow> pool_entry list \<Rightarrow> int option \<Rightarrow> bool \<Rightarrow> index_and_weight
     \<Rightarrow> (select_outcome \<times> index_and_weight) option" where
  "select_loop env es md is_full s =
     (case next_impl (map pe_weight es) s of
        None \<Rightarrow> None
      | Some (None, s') \<Rightarrow> Some (source_result is_full md, s')
      | Some (Some i, s') \<Rightarrow>
          if i < length es then
            (let name = pe_name (es ! i); rest = filter (\<lambda>e. pe_name e \<noteq> name) es
             in case se_resolve_error env name of
                  Some err \<Rightarrow> Some (FailedResolve err, s')
                | None \<Rightarrow>
                    if \<not> se_has_room env name then select_loop env rest md True s'
                    else (case se_throttle env name of
                            Inl err \<Rightarrow> Some (SelectError err, s')
                          | Inr None \<Rightarrow> Some (Inserted, s')
                          | Inr (Some d) \<Rightarrow>
                              select_loop env rest (if chrono_valid (int d) then note_delay (int d) md else md) is_full s'))
          else None)"
  by pat_completeness auto

termination
  by (relation "measure (\<lambda>(env, es, md, is_full, s). length es)") (simp_all add: filter_name_shorter)

declare select_loop.simps [simp del]

definition select_source :: "source_env \<Rightarrow> source_selector \<Rightarrow> (select_outcome \<times> source_selector) option" where
  "select_source env ss =
     (if ss_entries ss = [] then Some (NoSources, ss)
      else
        (let (es, md, m) = filter_suspended env (ss_entries ss) None (ss_ready_names ss)
         in map_option (\<lambda>(r, s). (r, ss\<lparr>ss_index_and_weight := s, ss_ready_names := m\<rparr>))
              (select_loop env es md False (ss_index_and_weight ss))))"

section \<open>The round robin loop ends\<close>

lemma foldl_max_bounds: "a \<le> foldl max a ws \<and> (\<forall>w \<in> set ws. w \<le> foldl max a ws) \<and> foldl max a ws \<in> insert a (set ws)"
  for a :: nat
  by (induction ws arbitrary: a) (fastforce simp: max_def)+

lemma weights_max_in: "weights_max ws \<noteq> 0 \<Longrightarrow> weights_max ws \<in> set ws"
  using foldl_max_bounds[of 0 ws] by (auto simp: weights_max_def)

lemma weights_max_ge: "w \<in> set ws \<Longrightarrow> w \<le> weights_max ws"
  using foldl_max_bounds[of 0 ws] by (auto simp: weights_max_def)

lemma foldl_gcd_dvd: "foldl gcd a ws dvd a \<and> (\<forall>w \<in> set ws. foldl gcd a ws dvd w)" for a :: nat
  by (induction ws arbitrary: a) (auto dest: dvd_trans[of _ "gcd _ _"])

lemma weights_gcd_dvd: "w \<in> set ws \<Longrightarrow> weights_gcd ws dvd w"
  using foldl_gcd_dvd[of 0 ws] by (simp add: weights_gcd_def)

lemma weights_gcd_pos: "weights_max ws \<noteq> 0 \<Longrightarrow> 0 < weights_gcd ws"
  using weights_gcd_dvd[OF weights_max_in, of ws] by (auto intro!: Nat.gr0I)

definition chosen :: "nat list \<Rightarrow> index_and_weight \<Rightarrow> bool" where
  "chosen ws s \<longleftrightarrow> ws ! fst s \<ge> snd s"

lemma next_loop_unfold:
  "next_loop ws d mx s =
     (if chosen ws (advance (length ws) d mx s) then Some (advance (length ws) d mx s)
      else next_loop ws d mx (advance (length ws) d mx s))"
  by (subst next_loop.simps) (simp add: Let_def chosen_def)

lemma next_loop_reaches:
  "chosen ws ((advance (length ws) d mx ^^ Suc k) s)
     \<Longrightarrow> \<exists>s' j. next_loop ws d mx s = Some s' \<and> chosen ws s' \<and> s' = (advance (length ws) d mx ^^ Suc j) s"
proof (induction k arbitrary: s)
  case 0
  then show ?case by (intro exI[of _ "advance (length ws) d mx s"] exI[of _ 0]) (simp add: next_loop_unfold[of _ _ _ s])
next
  case (Suc k)
  let ?a = "advance (length ws) d mx"
  show ?case
  proof (cases "chosen ws (?a s)")
    case True
    then show ?thesis by (intro exI[of _ "?a s"] exI[of _ 0]) (simp add: next_loop_unfold[of _ _ _ s])
  next
    case False
    have "chosen ws ((?a ^^ Suc k) (?a s))" using Suc.prems by (simp add: funpow_swap1)
    from Suc.IH[OF this] obtain s' j where
      "next_loop ws d mx (?a s) = Some s'" "chosen ws s'" "s' = (?a ^^ Suc j) (?a s)" by blast
    then show ?thesis
      using False next_loop_unfold[of ws d mx s] by (intro exI[of _ s'] exI[of _ "Suc j"]) (simp add: funpow_swap1)
  qed
qed

lemma advance_index: "0 < n \<Longrightarrow> fst (advance n d mx s) < n"
  by (simp add: advance_def Let_def)

lemma advance_run: "i + k < n \<Longrightarrow> (advance n d mx ^^ k) (i, c) = (i + k, c)"
  by (induction k) (simp_all add: advance_def Let_def)

definition next_level :: "nat \<Rightarrow> nat \<Rightarrow> nat \<Rightarrow> nat" where
  "next_level d mx c = (if c - d = 0 then mx else c - d)"

lemma advance_wrap: "0 < n \<Longrightarrow> advance n d mx (n - 1, c) = (0, next_level d mx c)"
  by (simp add: advance_def Let_def next_level_def)

lemma reaches_zero:
  assumes "0 < n"
  shows "\<exists>k c'. (advance n d mx ^^ Suc k) (i, c) = (0, c') \<and> c' = next_level d mx c"
proof -
  have from_below: "\<exists>k. (advance n d mx ^^ Suc k) (i, c) = (0, next_level d mx c)" if "i < n" for i
  proof -
    have "(advance n d mx ^^ (n - 1 - i)) (i, c) = (n - 1, c)" using that by (subst advance_run) simp_all
    then have "(advance n d mx ^^ Suc (n - 1 - i)) (i, c) = (0, next_level d mx c)"
      using advance_wrap[OF assms] by simp
    then show ?thesis by blast
  qed
  show ?thesis
  proof (cases "(i + 1) mod n = 0")
    case True
    then have "(advance n d mx ^^ Suc 0) (i, c) = (0, next_level d mx c)"
      by (simp add: advance_def Let_def next_level_def)
    then show ?thesis by blast
  next
    case False
    then have step: "advance n d mx (i, c) = ((i + 1) mod n, c)" by (simp add: advance_def Let_def)
    obtain k where "(advance n d mx ^^ Suc k) ((i + 1) mod n, c) = (0, next_level d mx c)"
      using from_below[of "(i + 1) mod n"] assms by auto
    then have "(advance n d mx ^^ Suc (Suc k)) (i, c) = (0, next_level d mx c)"
      using step by (simp add: funpow_swap1)
    then show ?thesis by blast
  qed
qed

lemma eventually_chosen:
  assumes "ws \<noteq> []" "mx \<in> set ws" "0 < d"
  shows "\<exists>k. chosen ws ((advance (length ws) d mx ^^ Suc k) (i, c))"
proof (induction c arbitrary: i rule: less_induct)
  case (less c)
  let ?a = "advance (length ws) d mx"
  obtain k where k: "(?a ^^ Suc k) (i, c) = (0, next_level d mx c)"
    using reaches_zero[of "length ws" d mx i c] assms(1) by auto
  show ?case
  proof (cases "next_level d mx c \<le> mx")
    case True
    obtain j where j: "j < length ws" "ws ! j = mx" using assms(2) by (auto simp: in_set_conv_nth)
    have "(?a ^^ (j + Suc k)) (i, c) = (j, next_level d mx c)"
      unfolding funpow_add comp_apply k using advance_run[of 0 j "length ws"] j(1) by simp
    then show ?thesis using True j(2) by (intro exI[of _ "j + k"]) (simp add: chosen_def)
  next
    case False
    then have "next_level d mx c < c" using assms(3) by (auto simp: next_level_def split: if_splits)
    from less[OF this, of 0] obtain j where "chosen ws ((?a ^^ Suc j) (0, next_level d mx c))" by blast
    then have "chosen ws ((?a ^^ (Suc j + Suc k)) (i, c))" using k by (simp only: funpow_add comp_apply)
    then show ?thesis by (intro exI[of _ "j + Suc k"]) simp
  qed
qed

text \<open>The choice of a source always returns, and names a position of the list.\<close>

lemma next_impl_returns:
  "\<exists>r s'. next_impl ws s = Some (r, s') \<and> (case r of Some i \<Rightarrow> i < length ws | None \<Rightarrow> ws = [] \<or> weights_max ws = 0)"
proof (cases "length ws \<le> 1 \<or> weights_max ws = 0")
  case True
  then show ?thesis by (cases ws) (auto simp: next_impl_def)
next
  case False
  then have ne: "ws \<noteq> []" by auto
  obtain k where "chosen ws ((advance (length ws) (weights_gcd ws) (weights_max ws) ^^ Suc k) (fst s, snd s))"
    using eventually_chosen[OF ne weights_max_in weights_gcd_pos] False by blast
  then obtain s' j where "next_loop ws (weights_gcd ws) (weights_max ws) s = Some s'"
    "s' = (advance (length ws) (weights_gcd ws) (weights_max ws) ^^ Suc j) s"
    using next_loop_reaches by fastforce
  then show ?thesis using False ne advance_index[of "length ws"] by (auto simp: next_impl_def)
qed

section \<open>The round robin is fair\<close>

text \<open>A number of picks in a row from the same entries.\<close>

fun picks :: "nat list \<Rightarrow> nat \<Rightarrow> index_and_weight \<Rightarrow> (nat list \<times> index_and_weight) option" where
  "picks ws 0 s = Some ([], s)"
| "picks ws (Suc m) s =
     (case next_impl ws s of
        Some (Some i, s') \<Rightarrow> map_option (\<lambda>(is, s''). (i # is, s'')) (picks ws m s')
      | _ \<Rightarrow> None)"

lemma picks_append:
  "picks ws a s = Some (is, t) \<Longrightarrow> picks ws b t = Some (js, u) \<Longrightarrow> picks ws (a + b) s = Some (is @ js, u)"
  by (induction a arbitrary: s "is") (cases u; auto split: option.splits prod.splits)+

text \<open>The states the loop runs through, chosen or not.\<close>

fun trajectory :: "(index_and_weight \<Rightarrow> index_and_weight) \<Rightarrow> index_and_weight \<Rightarrow> index_and_weight list \<Rightarrow> bool" where
  "trajectory f s [] = True"
| "trajectory f s (t # ts) = (t = f s \<and> trajectory f t ts)"

lemma trajectory_append:
  "trajectory f s (ts @ us) \<longleftrightarrow> trajectory f s ts \<and> trajectory f (last (s # ts)) us"
  by (induction ts arbitrary: s) auto

lemma picks_trajectory:
  assumes "1 < length ws" "weights_max ws \<noteq> 0"
  shows "\<lbrakk>trajectory (advance (length ws) (weights_gcd ws) (weights_max ws)) s ts; ts \<noteq> []; chosen ws (last ts)\<rbrakk>
    \<Longrightarrow> picks ws (length (filter (chosen ws) ts)) s = Some (map fst (filter (chosen ws) ts), last ts)"
proof (induction ts arbitrary: s)
  case Nil
  then show ?case by simp
next
  case (Cons t ts)
  let ?a = "advance (length ws) (weights_gcd ws) (weights_max ws)"
  have t: "t = ?a s" and rest: "trajectory ?a t ts" using Cons.prems(1) by auto
  have loop: "next_impl ws s = map_option (\<lambda>s'. (Some (fst s'), s')) (next_loop ws (weights_gcd ws) (weights_max ws) s)" for s
    using assms by (auto simp: next_impl_def)
  show ?case
  proof (cases "chosen ws t")
    case True
    then have "next_impl ws s = Some (Some (fst t), t)"
      using loop[of s] next_loop_unfold[of ws _ _ s] t by simp
    then show ?thesis using True Cons.IH[OF rest] Cons.prems(3) by (cases "ts = []") simp_all
  next
    case False
    then have ne: "ts \<noteq> []" using Cons.prems(3) by auto
    then have last: "chosen ws (last ts)" using Cons.prems(3) by simp
    then have "filter (chosen ws) ts \<noteq> []" using ne by (auto simp: filter_empty_conv)
    then obtain m where m: "length (filter (chosen ws) ts) = Suc m"
      by (cases "length (filter (chosen ws) ts)") simp_all
    have "next_impl ws s = next_impl ws t" using False loop next_loop_unfold[of ws _ _ s] t by simp
    then have "picks ws (Suc m) s = picks ws (Suc m) t" by simp
    then show ?thesis using False ne Cons.IH[OF rest ne last] m by simp
  qed
qed

text \<open>A pass over the entries at one level of the weight.\<close>

definition pass_over :: "nat \<Rightarrow> nat \<Rightarrow> index_and_weight list" where
  "pass_over n c = map (\<lambda>i. (i, c)) [0..<n]"

lemma trajectory_run: "i + k < n \<Longrightarrow> trajectory (advance n d mx) (i, c) (map (\<lambda>j. (j, c)) [Suc i..<Suc (i + k)])"
proof (induction k arbitrary: i)
  case (Suc k)
  have "trajectory (advance n d mx) (Suc i, c) (map (\<lambda>j. (j, c)) [Suc (Suc i)..<Suc (Suc i + k)])"
    using Suc.IH[of "Suc i"] Suc.prems by simp
  moreover have "advance n d mx (i, c) = (Suc i, c)" using Suc.prems by (simp add: advance_def Let_def)
  ultimately show ?case by (simp add: upt_conv_Cons del: upt_Suc)
qed simp

lemma trajectory_pass:
  assumes "0 < n"
  shows "trajectory (advance n d mx) (n - 1, c) (pass_over n (next_level d mx c))"
    and "last (s # pass_over n c') = (n - 1, c')"
proof -
  have "pass_over n c' = (0, c') # map (\<lambda>j. (j, c')) [Suc 0..<Suc (0 + (n - 1))]" for c'
    using assms by (simp add: pass_over_def upt_conv_Cons del: upt_Suc)
  then show "trajectory (advance n d mx) (n - 1, c) (pass_over n (next_level d mx c))"
    using advance_wrap[OF assms] trajectory_run[of 0 "n - 1" n] assms by simp
  show "last (s # pass_over n c') = (n - 1, c')"
    using assms by (simp add: pass_over_def last_map)
qed

text \<open>The levels from the highest weight down to twice the divisor.\<close>

fun levels_down :: "nat \<Rightarrow> nat \<Rightarrow> nat list" where
  "levels_down d 0 = []"
| "levels_down d (Suc q) = d * (Suc (Suc q)) # levels_down d q"

lemma trajectory_levels:
  "0 < n \<Longrightarrow> 0 < d \<Longrightarrow> next_level d mx c = d * Suc q
     \<Longrightarrow> trajectory (advance n d mx) (n - 1, c) (concat (map (pass_over n) (levels_down d q)) @ [(0, d)])"
proof (induction q arbitrary: c)
  case 0
  then show ?case using advance_wrap[of n d mx c] by simp
next
  case (Suc q)
  have "next_level d mx (d * Suc (Suc q)) = d * Suc q"
    using Suc.prems(2) by (simp add: next_level_def)
  from Suc.IH[OF Suc.prems(1,2) this] trajectory_pass(1)[OF Suc.prems(1), of d mx c] trajectory_pass(2)[OF Suc.prems(1)]
  show ?case using Suc.prems(3) by (simp only: levels_down.simps list.map concat.simps append_assoc trajectory_append)
qed

text \<open>How often an entry is chosen on the way.\<close>

lemma distinct_count_list: "distinct xs \<Longrightarrow> count_list xs x = (if x \<in> set xs then 1 else 0)"
  by (induction xs) auto

lemma count_pass:
  "i < n \<Longrightarrow> count_list (map fst (filter (chosen ws) (pass_over n c))) i = (if c \<le> ws ! i then 1 else 0)"
proof -
  assume i: "i < n"
  have "count_list (map fst (filter (chosen ws) (pass_over n c))) i = count_list (filter (\<lambda>j. c \<le> ws ! j) [0..<n]) i"
    by (simp add: pass_over_def filter_map comp_def chosen_def)
  also have "\<dots> = (if c \<le> ws ! i then 1 else 0)"
    using i by (simp add: distinct_count_list)
  finally show ?thesis .
qed

lemma count_levels:
  "i < n \<Longrightarrow> count_list (map fst (filter (chosen ws) (concat (map (pass_over n) cs)))) i = length (filter (\<lambda>c. c \<le> ws ! i) cs)"
  by (induction cs) (simp_all add: count_pass)

lemma levels_below: "0 < d \<Longrightarrow> length (filter (\<lambda>c. c \<le> d * w) (levels_down d q)) = min (w - 1) q"
proof (induction q)
  case (Suc q)
  have "d * Suc (Suc q) \<le> d * w \<longleftrightarrow> Suc (Suc q) \<le> w" using Suc.prems by (simp del: mult_Suc_right)
  then show ?case using Suc by (auto simp: min_def simp del: mult_Suc_right)
qed simp

lemma weight_multiple:
  assumes x: "x \<in> set ws" and pos: "\<forall>w \<in> set ws. 0 < w" and q: "weights_max ws = weights_gcd ws * Suc q"
  shows "\<exists>w. x = weights_gcd ws * Suc w \<and> w \<le> q"
proof -
  obtain w where w: "x = weights_gcd ws * w" using weights_gcd_dvd[OF x] by (auto elim: dvdE)
  have "weights_gcd ws * w \<le> weights_gcd ws * Suc q" "0 < weights_gcd ws * w"
    using weights_max_ge[OF x] pos x w q by auto
  then have "w \<le> Suc q" "0 < w" by (auto simp del: mult_Suc_right)
  then show ?thesis using w by (intro exI[of _ "w - 1"]) simp
qed

text \<open>One full turn from the first entry at the lowest level, in which entry \<^term>\<open>i\<close> is chosen once for every
  multiple of the divisor up to its weight.\<close>

lemma full_turn:
  assumes len: "1 < length ws" and pos: "\<forall>w \<in> set ws. 0 < w" and c: "c \<in> {0, weights_gcd ws}"
  defines "d \<equiv> weights_gcd ws"
  shows "\<exists>m is. picks ws m (0, c) = Some (is, (0, d)) \<and> set is \<subseteq> {..<length ws}
    \<and> (\<forall>i < length ws. count_list is i = ws ! i div d)"
proof -
  let ?n = "length ws" and ?mx = "weights_max ws"
  have mem: "ws ! 0 \<in> set ws" using len by (intro nth_mem) linarith
  have mx0: "?mx \<noteq> 0" using weights_max_ge[OF mem] pos mem by force
  have d0: "0 < d" using weights_gcd_pos[OF mx0] by (simp add: d_def)
  obtain q where q: "?mx = d * Suc q"
    using weights_gcd_dvd[OF weights_max_in[OF mx0]] mx0 d_def by (metis dvdE mult_0_right old.nat.exhaust)
  define us where "us = map (\<lambda>j. (j, c)) [Suc 0..<?n]"
  define ts where "ts = us @ concat (map (pass_over ?n) (levels_down d q)) @ [(0, d)]"
  have level: "next_level d ?mx c = d * Suc q" using c q d_def by (auto simp: next_level_def)
  have n: "Suc (?n - 1) = ?n" "0 + (?n - 1) < ?n" "0 < ?n" using len by linarith+
  have "trajectory (advance ?n d ?mx) (0, c) us"
    using trajectory_run[OF n(2), of d ?mx c] n(1) by (simp add: us_def del: upt_Suc)
  moreover have "last ((0, c) # us) = (?n - 1, c)" using len by (simp add: us_def last_map)
  moreover have "trajectory (advance ?n d ?mx) (?n - 1, c) (concat (map (pass_over ?n) (levels_down d q)) @ [(0, d)])"
    by (rule trajectory_levels[OF n(3) d0 level])
  ultimately have traj: "trajectory (advance ?n d ?mx) (0, c) ts"
    by (simp only: ts_def trajectory_append)
  have weight: "\<exists>w. ws ! i = d * Suc w \<and> w \<le> q" if "i < ?n" for i
    using weight_multiple[OF nth_mem[OF that] pos] q d_def by simp
  have last: "last ts = (0, d)" "chosen ws (0, d)" "ts \<noteq> []"
    using weight[OF n(3)] by (auto simp: ts_def chosen_def)
  have ok: "chosen ws (i, c)" if "i < ?n" for i using weight[OF that] c d_def by (auto simp: chosen_def)
  have "picks ws (length (filter (chosen ws) ts)) (0, c) = Some (map fst (filter (chosen ws) ts), (0, d))"
    using picks_trajectory[OF len mx0 traj[unfolded d_def]] last by simp
  moreover have "count_list (map fst (filter (chosen ws) ts)) i = ws ! i div d" if i: "i < ?n" for i
  proof -
    obtain w where w: "ws ! i = d * Suc w" "w \<le> q" using weight[OF i] by blast
    have "filter (chosen ws) us = us" using ok by (auto simp: us_def)
    then have "count_list (map fst (filter (chosen ws) us)) i = (if i = 0 then 0 else 1)"
      using i by (auto simp: us_def comp_def distinct_count_list simp del: upt_Suc)
    moreover have "length (filter (\<lambda>c. c \<le> ws ! i) (levels_down d q)) = w"
      using levels_below[OF d0, of "Suc w" q] w by simp
    ultimately show ?thesis
      using count_levels[OF i, of ws "levels_down d q"] last(2) w d0 by (simp add: ts_def)
  qed
  moreover have "set (map fst (filter (chosen ws) ts)) \<subseteq> {..<?n}"
    using len by (auto simp: ts_def us_def pass_over_def)
  ultimately show ?thesis by blast
qed

lemma length_count_lists: "set xs \<subseteq> {..<n} \<Longrightarrow> length xs = (\<Sum>i < n. count_list xs i)" for xs :: "nat list"
  by (rule sum_count_set[of xs "{..<n}", symmetric]) simp_all

text \<open>The length of a turn is the sum of the weights over the divisor.\<close>

definition turn_length :: "nat list \<Rightarrow> nat" where
  "turn_length ws = (\<Sum>w \<leftarrow> ws. w div weights_gcd ws)"

lemma picks_length: "picks ws m s = Some (is, t) \<Longrightarrow> length is = m"
  by (induction m arbitrary: s "is") (auto split: option.splits prod.splits)

lemma full_turn_exact:
  assumes "1 < length ws" "\<forall>w \<in> set ws. 0 < w" "c \<in> {0, weights_gcd ws}"
  shows "\<exists>is. picks ws (turn_length ws) (0, c) = Some (is, (0, weights_gcd ws))
    \<and> (\<forall>i < length ws. count_list is i = ws ! i div weights_gcd ws)"
proof -
  from full_turn[OF assms] obtain m "is" where m: "picks ws m (0, c) = Some (is, (0, weights_gcd ws))"
    and sub: "set is \<subseteq> {..<length ws}" and count: "\<forall>i < length ws. count_list is i = ws ! i div weights_gcd ws"
    by blast
  have "m = (\<Sum>i < length ws. ws ! i div weights_gcd ws)"
    using picks_length[OF m] length_count_lists[OF sub] count by simp
  also have "\<dots> = turn_length ws"
    by (simp add: turn_length_def sum_list_sum_nth atLeast0LessThan)
  finally show ?thesis using m count by blast
qed

lemma turns_exact:
  assumes "1 < length ws" "\<forall>w \<in> set ws. 0 < w"
  shows "\<exists>is c. picks ws (k * turn_length ws) (0, 0) = Some (is, (0, c)) \<and> c \<in> {0, weights_gcd ws}
    \<and> (\<forall>i < length ws. count_list is i = k * (ws ! i div weights_gcd ws))"
proof (induction k)
  case (Suc k)
  then obtain "is" c where k: "picks ws (k * turn_length ws) (0, 0) = Some (is, (0, c))" "c \<in> {0, weights_gcd ws}"
    "\<forall>i < length ws. count_list is i = k * (ws ! i div weights_gcd ws)" by blast
  obtain js where j: "picks ws (turn_length ws) (0, c) = Some (js, (0, weights_gcd ws))"
    "\<forall>i < length ws. count_list js i = ws ! i div weights_gcd ws"
    using full_turn_exact[OF assms k(2)] by blast
  have "picks ws (Suc k * turn_length ws) (0, 0) = Some (is @ js, (0, weights_gcd ws))"
    using picks_append[OF k(1) j(1)] by (simp add: add.commute)
  then show ?case using k(3) j(2) by (intro exI[of _ "is @ js"] exI[of _ "weights_gcd ws"]) simp
qed simp

text \<open>C29: weighted round robin is exactly fair.  For a pool with at least two sources of a weight other than zero,
  let \<^verbatim>\<open>g\<close> be the greatest common divisor of the weights.  From a new selector, every whole number
  \<^verbatim>\<open>k\<close> of turns (a turn has as many picks as the sum of the weights over \<^verbatim>\<open>g\<close>) returns, and chooses each source
  exactly \<^verbatim>\<open>k\<close> times its weight over \<^verbatim>\<open>g\<close>: a source with twice the weight is chosen twice as often.\<close>

theorem round_robin_is_fair:
  assumes "ss = new_selector pool" "1 < length (ss_entries ss)"
  defines "ws \<equiv> map pe_weight (ss_entries ss)"
  shows "\<exists>is s. picks ws (k * turn_length ws) (ss_index_and_weight ss) = Some (is, s)
    \<and> (\<forall>i < length ws. count_list is i * weights_gcd ws = k * pe_weight (ss_entries ss ! i))"
proof -
  have len: "1 < length ws" and pos: "\<forall>w \<in> set ws. 0 < w"
    using assms(1,2) by (auto simp: ws_def new_selector_def)
  obtain "is" c where r: "picks ws (k * turn_length ws) (0, 0) = Some (is, (0, c))"
    and count: "\<forall>i < length ws. count_list is i = k * (ws ! i div weights_gcd ws)"
    using turns_exact[OF len pos] by blast
  have "count_list is i * weights_gcd ws = k * pe_weight (ss_entries ss ! i)" if "i < length ws" for i
    using count that weights_gcd_dvd[OF nth_mem[OF that]] by (simp add: ws_def mult.assoc dvd_div_mult_self)
  then show ?thesis using r assms(1) by (auto simp: new_selector_def)
qed

text \<open>The hypotheses of \<^verbatim>\<open>round_robin_is_fair\<close> hold for a pool with the weights four, two and six, and a source
  that is switched off: twelve picks are two turns.\<close>

definition example_pool :: egress_pool where
  "example_pool = \<lparr>ep_name = ''pool'', ep_entries =
     [\<lparr>pe_name = ''a'', pe_weight = 4\<rparr>, \<lparr>pe_name = ''b'', pe_weight = 2\<rparr>, \<lparr>pe_name = ''off'', pe_weight = 0\<rparr>,
      \<lparr>pe_name = ''c'', pe_weight = 6\<rparr>]\<rparr>"

theorem round_robin_is_fair_witness:
  "turn_length [4, 2, 6] = 6
   \<and> (\<exists>is s. picks [4, 2, 6] 12 (0, 0) = Some (is, s)
        \<and> count_list is 0 = 4 \<and> count_list is 1 = 2 \<and> count_list is 2 = 6)"
proof -
  have sel: "new_selector example_pool =
      \<lparr>ss_name = ''pool'', ss_entries = [\<lparr>pe_name = ''a'', pe_weight = 4\<rparr>, \<lparr>pe_name = ''b'', pe_weight = 2\<rparr>,
         \<lparr>pe_name = ''c'', pe_weight = 6\<rparr>], ss_index_and_weight = (0, 0), ss_ready_names = Map.empty\<rparr>"
    by (simp add: new_selector_def example_pool_def)
  have g: "weights_gcd [4, 2, 6] = 2" by code_simp
  have t: "turn_length [4, 2, 6] = 6" by (simp add: turn_length_def g)
  from round_robin_is_fair[of "new_selector example_pool" example_pool 2, OF refl]
  obtain "is" s where "picks [4, 2, 6] 12 (0, 0) = Some (is, s)"
    and c: "\<And>i. i < 3 \<Longrightarrow> count_list is i * 2 = 2 * pe_weight (ss_entries (new_selector example_pool) ! i)"
    by (auto simp: sel g t)
  moreover have "count_list is 0 = 4" "count_list is 1 = 2" "count_list is 2 = 6"
    using c[of 0] c[of 1] c[of 2] by (simp_all add: sel)
  ultimately show ?thesis using t by blast
qed

section \<open>What the selection answers\<close>

definition least_delay :: "int set \<Rightarrow> int option" where
  "least_delay D = (if D = {} then None else Some (Min D))"

lemma note_least_delay: "finite D \<Longrightarrow> note_delay d (least_delay D) = least_delay (insert d D)"
  by (auto simp: note_delay_def least_delay_def min.commute)

text \<open>A source is usable when it has room and is not throttled.\<close>

definition usable :: "source_env \<Rightarrow> string \<Rightarrow> bool" where
  "usable env name \<longleftrightarrow> se_has_room env name \<and> se_throttle env name = Inr None"

definition throttle_delays :: "source_env \<Rightarrow> pool_entry list \<Rightarrow> int set" where
  "throttle_delays env es =
     set (concat (map (\<lambda>e. case se_throttle env (pe_name e) of
                             Inr (Some d) \<Rightarrow> if se_has_room env (pe_name e) \<and> chrono_valid (int d) then [int d] else []
                           | _ \<Rightarrow> []) es))"

definition answers :: "source_env \<Rightarrow> pool_entry list \<Rightarrow> bool" where
  "answers env es \<longleftrightarrow>
     (\<forall>e \<in> set es. se_resolve_error env (pe_name e) = None \<and> (\<exists>r. se_throttle env (pe_name e) = Inr r))"

text \<open>The answer for some candidates, whichever is tried first.\<close>

definition select_answer :: "source_env \<Rightarrow> pool_entry list \<Rightarrow> int set \<Rightarrow> bool \<Rightarrow> select_outcome" where
  "select_answer env es D is_full =
     (if \<exists>e \<in> set es. usable env (pe_name e) then Inserted
      else source_result (is_full \<or> (\<exists>e \<in> set es. \<not> se_has_room env (pe_name e))) (least_delay (D \<union> throttle_delays env es)))"

lemma throttle_delays_finite: "finite (throttle_delays env es)"
  unfolding throttle_delays_def by (rule finite_set)

lemma weights_max_pos: "es \<noteq> [] \<Longrightarrow> \<forall>e \<in> set es. 0 < pe_weight e \<Longrightarrow> 0 < weights_max (map pe_weight es)"
  using weights_max_ge[of "pe_weight (hd es)" "map pe_weight es"] by (cases es) auto

text \<open>Leaving out a full source, and leaving out a throttled one.\<close>

lemma select_answer_full:
  assumes "e \<in> set es" "\<not> se_has_room env (pe_name e)"
  shows "select_answer env es D is_full = select_answer env (filter (\<lambda>e'. pe_name e' \<noteq> pe_name e) es) D True"
  using assms by (auto simp: select_answer_def source_result_def usable_def)

lemma select_answer_throttled:
  assumes e: "e \<in> set es" "se_has_room env (pe_name e)" "se_throttle env (pe_name e) = Inr (Some d)"
  defines "rest \<equiv> filter (\<lambda>e'. pe_name e' \<noteq> pe_name e) es"
  shows "select_answer env es D is_full =
    select_answer env rest (if chrono_valid (int d) then insert (int d) D else D) is_full"
proof -
  have split: "x \<in> set es \<longleftrightarrow> x \<in> set rest \<or> x \<in> set es \<and> pe_name x = pe_name e" for x by (auto simp: rest_def)
  have "throttle_delays env es = throttle_delays env rest \<union> (if chrono_valid (int d) then {int d} else {})"
    using e(1,2,3) by (auto simp: throttle_delays_def rest_def split: sum.splits option.splits if_splits)
  moreover have "(\<exists>x \<in> set es. usable env (pe_name x)) \<longleftrightarrow> (\<exists>x \<in> set rest. usable env (pe_name x))"
    using e by (auto simp: rest_def usable_def)
  moreover have "(\<exists>x \<in> set es. \<not> se_has_room env (pe_name x)) \<longleftrightarrow> (\<exists>x \<in> set rest. \<not> se_has_room env (pe_name x))"
    using e by (auto simp: rest_def)
  moreover have "D \<union> (throttle_delays env rest \<union> (if chrono_valid (int d) then {int d} else {}))
      = (if chrono_valid (int d) then insert (int d) D else D) \<union> throttle_delays env rest" by auto
  ultimately show ?thesis unfolding select_answer_def by simp
qed

text \<open>One round of the loop, by what the tried source answers.\<close>

lemma select_loop_round:
  assumes "next_impl (map pe_weight es) s = Some (Some i, s')" "i < length es" "se_resolve_error env (pe_name (es ! i)) = None"
  defines "rest \<equiv> filter (\<lambda>e. pe_name e \<noteq> pe_name (es ! i)) es"
  shows "\<not> se_has_room env (pe_name (es ! i)) \<Longrightarrow> select_loop env es md is_full s = select_loop env rest md True s'"
    and "usable env (pe_name (es ! i)) \<Longrightarrow> select_loop env es md is_full s = Some (Inserted, s')"
    and "se_has_room env (pe_name (es ! i)) \<Longrightarrow> se_throttle env (pe_name (es ! i)) = Inr (Some d)
      \<Longrightarrow> select_loop env es md is_full s
           = select_loop env rest (if chrono_valid (int d) then note_delay (int d) md else md) is_full s'"
  using assms(1-3) by (subst select_loop.simps, simp add: Let_def usable_def rest_def)+

lemma select_loop_answer:
  "\<lbrakk>\<forall>e \<in> set es. 0 < pe_weight e; answers env es; finite D\<rbrakk>
     \<Longrightarrow> \<exists>s'. select_loop env es (least_delay D) is_full s = Some (select_answer env es D is_full, s')"
proof (induction "length es" arbitrary: es D is_full s rule: less_induct)
  case less
  obtain r s' where r: "next_impl (map pe_weight es) s = Some (r, s')"
    and ok: "case r of Some i \<Rightarrow> i < length es | None \<Rightarrow> es = [] \<or> weights_max (map pe_weight es) = 0"
    using next_impl_returns[of "map pe_weight es" s] by (auto split: option.splits)
  show ?case
  proof (cases r)
    case None
    then have "es = []" using ok weights_max_pos[OF _ less.prems(1)] by (cases "es = []") auto
    then show ?thesis using r None by (subst select_loop.simps) (simp add: select_answer_def throttle_delays_def)
  next
    case (Some i)
    define rest where "rest = filter (\<lambda>e. pe_name e \<noteq> pe_name (es ! i)) es"
    have i: "i < length es" and e: "es ! i \<in> set es" using ok Some by auto
    have res: "se_resolve_error env (pe_name (es ! i)) = None" using less.prems(2) e by (auto simp: answers_def)
    note round = select_loop_round[OF r[unfolded Some] i res, folded rest_def]
    have IH: "\<exists>s'. select_loop env rest (least_delay D) f t = Some (select_answer env rest D f, s')"
      if "finite D" for f t D
      using less.hyps[of rest] filter_name_shorter[OF i] less.prems that by (auto simp: rest_def answers_def)
    consider (full) "\<not> se_has_room env (pe_name (es ! i))" | (free) "usable env (pe_name (es ! i))"
      | (throttled) d where "se_has_room env (pe_name (es ! i))" "se_throttle env (pe_name (es ! i)) = Inr (Some d)"
      using less.prems(2) e by (auto simp: answers_def usable_def) (metis option.exhaust)
    then show ?thesis
    proof cases
      case full
      then show ?thesis using round(1) IH[OF less.prems(3)] select_answer_full[OF e full] by (simp add: rest_def)
    next
      case free
      then have "select_answer env es D is_full = Inserted" using e by (auto simp: select_answer_def)
      then show ?thesis using round(2)[OF free] by simp
    next
      case throttled
      define D' where "D' = (if chrono_valid (int d) then insert (int d) D else D)"
      have "(if chrono_valid (int d) then note_delay (int d) (least_delay D) else least_delay D) = least_delay D'"
        using note_least_delay[OF less.prems(3)] by (simp add: D'_def)
      then show ?thesis
        using round(3)[OF throttled] IH[of D'] less.prems(3) select_answer_throttled[OF e throttled, folded rest_def D'_def]
        by (simp add: D'_def split: if_splits)
    qed
  qed
qed

text \<open>Asking about one pathway does not change what is known of another, nor of itself.\<close>

definition fresh_name :: "source_env \<Rightarrow> string \<Rightarrow> cached_name" where
  "fresh_name env source =
     (case se_compute_name env source of
        Some (name, until) \<Rightarrow> Hit name until (se_generation env)
      | None \<Rightarrow> Negative (se_now env + 60 * nat chrono_nanos))"

lemma compute_name_cases:
  "compute_ready_queue_name env source m =
     (case m source of
        Some c \<Rightarrow> if name_is_stale env c then (fresh_name env source, m(source \<mapsto> fresh_name env source)) else (c, m)
      | None \<Rightarrow> (fresh_name env source, m(source \<mapsto> fresh_name env source)))"
  by (simp add: compute_ready_queue_name_def get_ready_queue_for_source_def fresh_name_def Let_def split: option.split)

lemma compute_name_stable:
  "fst (compute_ready_queue_name env a (snd (compute_ready_queue_name env b m))) = fst (compute_ready_queue_name env a m)"
  by (cases "a = b") (auto simp: compute_name_cases split: option.split)

lemma pathway_suspension_cases:
  "fst (pathway_suspension env source m) =
     (case se_suspension env source of
        Some remaining \<Rightarrow> Some (chrono_or_minute remaining)
      | None \<Rightarrow> (case fst (compute_ready_queue_name env source m) of
                  Hit name until generation \<Rightarrow> se_admin_suspension env name | Negative _ \<Rightarrow> None))"
  "snd (pathway_suspension env source m) =
     (if se_suspension env source = None then snd (compute_ready_queue_name env source m) else m)"
  by (simp_all add: pathway_suspension_def split: option.split cached_name.split prod.split)

lemma suspension_stable:
  "fst (pathway_suspension env a (snd (pathway_suspension env b m))) = fst (pathway_suspension env a m)"
  by (simp add: pathway_suspension_cases compute_name_stable split: option.split)

lemma filter_suspended_result:
  "finite D \<Longrightarrow> \<exists>m'. filter_suspended env es (least_delay D) m =
     (filter (\<lambda>e. fst (pathway_suspension env (pe_name e) m) = None) es,
      least_delay (D \<union> {d. \<exists>e \<in> set es. fst (pathway_suspension env (pe_name e) m) = Some d}), m')"
proof (induction es arbitrary: D m)
  case (Cons e es)
  obtain r m' where p: "pathway_suspension env (pe_name e) m = (r, m')" by fastforce
  have stable: "fst (pathway_suspension env a m') = fst (pathway_suspension env a m)" for a
    using suspension_stable[of env a "pe_name e" m] p by simp
  show ?case
  proof (cases r)
    case None
    then show ?thesis using Cons.IH[OF Cons.prems, of m'] p by (auto simp: stable)
  next
    case (Some d)
    have "insert d D \<union> {x. \<exists>e \<in> set es. fst (pathway_suspension env (pe_name e) m) = Some x}
        = D \<union> {x. \<exists>e' \<in> set (e # es). fst (pathway_suspension env (pe_name e') m) = Some x}"
      using p Some by auto
    then show ?thesis
      using Cons.IH[of "insert d D" m'] Cons.prems p Some by (simp add: stable note_least_delay)
  qed
qed simp

lemma finite_suspensions: "finite {d. \<exists>e \<in> set es. f e = Some d}"
proof -
  have "{d. \<exists>e \<in> set es. f e = Some d} \<subseteq> the ` f ` set es" by force
  then show ?thesis by (rule finite_subset) simp
qed


text \<open>The hypotheses of \<^verbatim>\<open>select_source_answers\<close> hold for the example pool when its first source is suspended for five
  seconds, its second is throttled for two and its third for nine.\<close>

definition example_source_env :: source_env where
  "example_source_env =
     \<lparr>se_now = 0, se_generation = 0,
      se_suspension = (\<lambda>n. if n = ''a'' then Some 5 else None),
      se_compute_name = (\<lambda>n. Some (n, None)), se_admin_suspension = (\<lambda>_. None),
      se_resolve_error = (\<lambda>_. None), se_has_room = (\<lambda>_. True),
      se_throttle = (\<lambda>n. Inr (Some (if n = ''b'' then 2 else 9)))\<rparr>"


text \<open>a refresh of the configuration with an unchanged pool keeps the state of the round robin exactly when no
  entry of the pool is switched off with a zero weight.  A pool with such an entry is never equivalent
  to its selector, so that every refresh starts the round robin over and forgets the names of the ready
  queues.\<close>

theorem refresh_keeps_selector:
  "refresh_selector (new_selector pool\<lparr>ss_index_and_weight := s, ss_ready_names := m\<rparr>) pool =
     (if list_all (\<lambda>e. pe_weight e \<noteq> 0) (ep_entries pool)
      then new_selector pool\<lparr>ss_index_and_weight := s, ss_ready_names := m\<rparr> else new_selector pool)"
  by (auto simp: refresh_selector_def equivalent_def new_selector_def filter_id_conv list_all_iff)

end
