(* ===== verification/Dmarc_Record.thy ===== *)
theory Dmarc_Record
  imports Kumo_Prelude
begin

text \<open>
  The DMARC record, \<^verbatim>\<open>crates/kumo-dmarc/src/types\<close>: its tags and their values, and the parser of the TXT
  record.  The parser's messages are discarded by its caller, so errors are a datatype that names
  what is wrong.
\<close>

section \<open>Values of the tags\<close>

datatype mode = Relaxed | Strict

datatype policy = PolicyNone | PolicyQuarantine | PolicyReject

datatype report_format = Afrf

record report_failure =
  rf_all_pass :: bool
  rf_any_pass :: bool
  rf_dkim :: bool
  rf_spf :: bool

record feedback_address =
  fa_uri :: string
  fa_size :: "nat option"

datatype dmarc_parse_error =
    InvalidMode string | InvalidPolicy string | InvalidFormat string | InvalidReportFailure string
  | EmptyFeedbackAddress | EmptySize string | InvalidSize string
  | InvalidPart string | InvalidKey string | InvalidPct string | InvalidRi string | MissingPolicy string

definition mode_from_str :: "string \<Rightarrow> (dmarc_parse_error, mode) result" where
  "mode_from_str v =
     (if v = ''r'' then Inr Relaxed else if v = ''s'' then Inr Strict else Inl (InvalidMode v))"

fun mode_char :: "mode \<Rightarrow> char" where
  "mode_char Relaxed = CHR ''r''"
| "mode_char Strict = CHR ''s''"

definition policy_from_str :: "string \<Rightarrow> (dmarc_parse_error, policy) result" where
  "policy_from_str v =
     (if v = ''none'' then Inr PolicyNone else if v = ''quarantine'' then Inr PolicyQuarantine
      else if v = ''reject'' then Inr PolicyReject else Inl (InvalidPolicy v))"

definition format_from_str :: "string \<Rightarrow> (dmarc_parse_error, report_format) result" where
  "format_from_str v = (if v = ''afrf'' then Inr Afrf else Inl (InvalidFormat v))"

definition report_failure_default :: report_failure where
  "report_failure_default = \<lparr>rf_all_pass = False, rf_any_pass = False, rf_dkim = False, rf_spf = False\<rparr>"

fun report_failure_loop :: "string \<Rightarrow> string list \<Rightarrow> report_failure \<Rightarrow> (dmarc_parse_error, report_failure) result" where
  "report_failure_loop v [] rf = Inr rf"
| "report_failure_loop v (part # parts) rf =
     (let p = trim part in
      if p = ''0'' then report_failure_loop v parts (rf\<lparr>rf_all_pass := True\<rparr>)
      else if p = ''1'' then report_failure_loop v parts (rf\<lparr>rf_any_pass := True\<rparr>)
      else if p = ''d'' then report_failure_loop v parts (rf\<lparr>rf_dkim := True\<rparr>)
      else if p = ''s'' then report_failure_loop v parts (rf\<lparr>rf_spf := True\<rparr>)
      else Inl (InvalidReportFailure v))"

definition report_failure_from_str :: "string \<Rightarrow> (dmarc_parse_error, report_failure) result" where
  "report_failure_from_str v = report_failure_loop v (split_on CHR '':'' v) report_failure_default"

definition show_report_failure :: "report_failure \<Rightarrow> string" where
  "show_report_failure rf =
     join '':'' (map (\<lambda>(_, c). [c])
       (filter fst [(rf_all_pass rf, CHR ''0''), (rf_any_pass rf, CHR ''1''), (rf_dkim rf, CHR ''d''), (rf_spf rf, CHR ''s'')]))"

text \<open>A size has a number and a unit; the shift drops the bits above the sixty-fourth.\<close>

definition size_power :: "string \<Rightarrow> nat" where
  "size_power s =
     (if s = [] then 0
      else if last s = CHR ''k'' then 10 else if last s = CHR ''m'' then 20
      else if last s = CHR ''g'' then 30 else if last s = CHR ''t'' then 40 else 0)"

definition feedback_address_from_str :: "string \<Rightarrow> (dmarc_parse_error, feedback_address) result" where
  "feedback_address_from_str s0 =
     (let s = trim s0 in
      if s = [] then Inl EmptyFeedbackAddress
      else case rsplit_once CHR ''!'' (trim s) of
        None \<Rightarrow> Inr \<lparr>fa_uri = s, fa_size = None\<rparr>
      | Some (uri, sz) \<Rightarrow>
          (let sz = trim sz in
           if sz = [] then Inl (EmptySize s)
           else
             (let power = size_power sz;
                  digits = (if power = 0 then sz else butlast sz)
              in case parse_uint u64_max digits of
                   None \<Rightarrow> Inl (InvalidSize s)
                 | Some n \<Rightarrow> Inr \<lparr>fa_uri = uri, fa_size = Some ((n * 2 ^ power) mod 2 ^ 64)\<rparr>)))"

section \<open>The record\<close>

record dmarc_record =
  align_dkim :: mode
  align_spf :: mode
  report_failure :: report_failure
  dmarc_policy :: policy
  subdomain_policy :: "policy option"
  rate :: nat
  report_format :: report_format
  interval :: nat
  aggregate_feedback :: "feedback_address list"
  message_failure :: "feedback_address list"
  tags :: "string \<rightharpoonup> string"

definition dmarc_record_new :: dmarc_record where
  "dmarc_record_new =
     \<lparr>align_dkim = Relaxed, align_spf = Relaxed, report_failure = report_failure_default,
      dmarc_policy = PolicyNone, subdomain_policy = None, rate = 100, report_format = Afrf, interval = 86400,
      aggregate_feedback = [], message_failure = [], tags = Map.empty\<rparr>"

definition parse_addresses :: "string \<Rightarrow> (dmarc_parse_error, feedback_address list) result" where
  "parse_addresses v = collect_results (map feedback_address_from_str (split_on CHR '','' v))"

text \<open>The effect of one tag.\<close>

definition set_tag :: "string \<Rightarrow> string \<Rightarrow> dmarc_record \<Rightarrow> (dmarc_parse_error, dmarc_record) result" where
  "set_tag key v r =
     (if key = ''p'' then rbind (policy_from_str v) (\<lambda>p. Inr (r\<lparr>dmarc_policy := p\<rparr>))
      else if key = ''adkim'' then rbind (mode_from_str v) (\<lambda>m. Inr (r\<lparr>align_dkim := m\<rparr>))
      else if key = ''aspf'' then rbind (mode_from_str v) (\<lambda>m. Inr (r\<lparr>align_spf := m\<rparr>))
      else if key = ''fo'' then rbind (report_failure_from_str v) (\<lambda>f. Inr (r\<lparr>report_failure := f\<rparr>))
      else if key = ''pct'' then rbind (ok_or (parse_uint u8_max v) (InvalidPct v)) (\<lambda>n. Inr (r\<lparr>rate := n\<rparr>))
      else if key = ''rf'' then rbind (format_from_str v) (\<lambda>f. Inr (r\<lparr>report_format := f\<rparr>))
      else if key = ''ri'' then rbind (ok_or (parse_uint u32_max v) (InvalidRi v)) (\<lambda>n. Inr (r\<lparr>interval := n\<rparr>))
      else if key = ''rua'' then
        rbind (parse_addresses v) (\<lambda>as. Inr (r\<lparr>aggregate_feedback := aggregate_feedback r @ as\<rparr>))
      else if key = ''ruf'' then
        rbind (parse_addresses v) (\<lambda>as. Inr (r\<lparr>message_failure := message_failure r @ as\<rparr>))
      else if key = ''sp'' then rbind (policy_from_str v) (\<lambda>p. Inr (r\<lparr>subdomain_policy := Some p\<rparr>))
      else Inl (InvalidKey key))"

text \<open>The loop over the parts; the flags say whether the version and the policy have been seen.\<close>

fun from_str_loop ::
  "string list \<Rightarrow> bool \<Rightarrow> bool \<Rightarrow> dmarc_record \<Rightarrow> (dmarc_parse_error, dmarc_record \<times> bool) result" where
  "from_str_loop [] version policy r = Inr (r, policy)"
| "from_str_loop (part0 # parts) version policy r =
     (let part = trim part0 in
      if part = [] then from_str_loop parts version policy r
      else case split_once CHR ''='' part of
        None \<Rightarrow> Inl (InvalidPart part)
      | Some (key0, value0) \<Rightarrow>
          (let key = trim key0; v = trim value0 in
           if \<not> version then
             (if key = ''v'' \<and> v = ''DMARC1'' then from_str_loop parts True policy r else Inl (InvalidKey key))
           else rbind (set_tag key v (r\<lparr>tags := (tags r)(key \<mapsto> v)\<rparr>)) (\<lambda>r'.
                  from_str_loop parts version (policy \<or> key = ''p'') r')))"

definition dmarc_record_from_str :: "string \<Rightarrow> (dmarc_parse_error, dmarc_record) result" where
  "dmarc_record_from_str s =
     rbind (from_str_loop (split_on CHR '';'' s) False False dmarc_record_new) (\<lambda>(r, policy).
       if policy then Inr r else Inl (MissingPolicy s))"

section \<open>Printing and parsing what to report\<close>

lemma report_failure_print_parse:
  "rf \<noteq> report_failure_default \<Longrightarrow> report_failure_from_str (show_report_failure rf) = Inr rf"
  by (cases rf; rename_tac a b c d; case_tac a; case_tac b; case_tac c; case_tac d)
    (simp_all add: report_failure_default_def report_failure_from_str_def show_report_failure_def
      trim_def trim_start_def trim_end_def is_whitespace_def)

interpretation report_failure_codec: codec show_report_failure report_failure_from_str Inr "\<lambda>rf. rf \<noteq> report_failure_default"
  by unfold_locales (simp_all add: report_failure_print_parse)

section \<open>A record says what its tags say\<close>

text \<open>The key and the value of every part that is not blank.\<close>

definition part_pair :: "string \<Rightarrow> string \<times> string" where
  "part_pair part = (case split_once CHR ''='' part of Some (k, v) \<Rightarrow> (trim k, trim v) | None \<Rightarrow> (part, []))"

definition part_pairs :: "string list \<Rightarrow> (string \<times> string) list" where
  "part_pairs parts = map part_pair (filter (\<lambda>p. p \<noteq> []) (map trim parts))"

lemma part_pairs_simps:
  "part_pairs [] = []"
  "trim p = [] \<Longrightarrow> part_pairs (p # ps) = part_pairs ps"
  "split_once CHR ''='' (trim p) = Some (k, v) \<Longrightarrow> part_pairs (p # ps) = (trim k, trim v) # part_pairs ps"
  by (auto simp: part_pairs_def part_pair_def)

text \<open>The value of a field is that of its tag, or the default without the tag.\<close>

definition tag_sets :: "('e, 'a) result option \<Rightarrow> 'a \<Rightarrow> 'a \<Rightarrow> bool" where
  "tag_sets parsed dflt x = (case parsed of Some p \<Rightarrow> p = Inr x | None \<Rightarrow> x = dflt)"

definition reflects_tags :: "dmarc_record \<Rightarrow> bool" where
  "reflects_tags r \<longleftrightarrow>
     tag_sets (map_option policy_from_str (tags r ''p'')) PolicyNone (dmarc_policy r)
     \<and> tag_sets (map_option mode_from_str (tags r ''adkim'')) Relaxed (align_dkim r)
     \<and> tag_sets (map_option mode_from_str (tags r ''aspf'')) Relaxed (align_spf r)
     \<and> tag_sets (map_option report_failure_from_str (tags r ''fo'')) report_failure_default (report_failure r)
     \<and> tag_sets (map_option (\<lambda>v. ok_or (parse_uint u8_max v) ()) (tags r ''pct'')) 100 (rate r)
     \<and> tag_sets (map_option (\<lambda>v. ok_or (parse_uint u32_max v) ()) (tags r ''ri'')) 86400 (interval r)
     \<and> tag_sets (map_option (\<lambda>v. rbind (policy_from_str v) (\<lambda>p. Inr (Some p))) (tags r ''sp'')) None (subdomain_policy r)"

lemma tag_sets_simps [simp]: "tag_sets (Some (Inr x)) dflt x" "tag_sets None dflt dflt"
  by (simp_all add: tag_sets_def)

lemma reflects_new: "reflects_tags dmarc_record_new"
  by (simp add: reflects_tags_def dmarc_record_new_def tag_sets_def)

lemma set_tag_tags: "set_tag key v r = Inr r' \<Longrightarrow> tags r' = tags r"
  by (auto simp: set_tag_def rbind_Inr_iff split: if_splits)

lemma set_tag_known:
  "set_tag key v r = Inr r' \<Longrightarrow> key \<in> {''p'', ''adkim'', ''aspf'', ''fo'', ''pct'', ''rf'', ''ri'', ''rua'', ''ruf'', ''sp''}"
  by (auto simp: set_tag_def split: if_splits)

lemma set_tag_reflects:
  assumes "reflects_tags r" and s: "set_tag key v (r\<lparr>tags := (tags r)(key \<mapsto> v)\<rparr>) = Inr r'"
  shows "reflects_tags r'"
proof -
  have "key = ''p'' \<or> key = ''adkim'' \<or> key = ''aspf'' \<or> key = ''fo'' \<or> key = ''pct'' \<or> key = ''rf'' \<or> key = ''ri''
      \<or> key = ''rua'' \<or> key = ''ruf'' \<or> key = ''sp''"
    using set_tag_known[OF s] by simp
  then show ?thesis
    using s assms(1) by (elim disjE; clarsimp simp: set_tag_def reflects_tags_def rbind_Inr_iff)
qed

lemma from_str_loop_tags:
  "from_str_loop parts True pol r = Inr (r', pol') \<Longrightarrow> reflects_tags r
     \<Longrightarrow> reflects_tags r' \<and> tags r' = tags r ++ map_of (rev (part_pairs parts))
       \<and> (pol' \<longleftrightarrow> pol \<or> ''p'' \<in> fst ` set (part_pairs parts))"
proof (induction parts arbitrary: pol r)
  case (Cons part0 parts)
  show ?case
  proof (cases "trim part0 = []")
    case True
    then show ?thesis using Cons by (simp add: part_pairs_simps)
  next
    case False
    then obtain k v where kv: "split_once CHR ''='' (trim part0) = Some (k, v)"
      using Cons.prems(1) by (auto simp: Let_def split: option.splits)
    then obtain r1 where r1: "set_tag (trim k) (trim v) (r\<lparr>tags := (tags r)(trim k \<mapsto> trim v)\<rparr>) = Inr r1"
      and rest: "from_str_loop parts True (pol \<or> trim k = ''p'') r1 = Inr (r', pol')"
      using Cons.prems(1) False by (auto simp: Let_def rbind_Inr_iff)
    have "(tags r)(trim k \<mapsto> trim v) ++ m = tags r ++ ([trim k \<mapsto> trim v] ++ m)" for m
      by (simp add: map_add_def fun_eq_iff split: option.split)
    with Cons.IH[OF rest set_tag_reflects[OF Cons.prems(2) r1]] set_tag_tags[OF r1] kv False
    show ?thesis by (auto simp: part_pairs_simps(3)[OF kv] fun_upd_def)
  qed
qed (simp add: part_pairs_simps)

lemma from_str_loop_version:
  "from_str_loop parts False False r = Inr (r', pol) \<Longrightarrow> pol
     \<Longrightarrow> \<exists>rest. part_pairs parts = (''v'', ''DMARC1'') # part_pairs rest \<and> from_str_loop rest True False r = Inr (r', pol)"
  by (induction parts) (auto simp: part_pairs_simps Let_def split: if_splits option.splits)



end
