(* ===== verification/Net_Addr.thy ===== *)
theory Net_Addr
  imports Kumo_Prelude
begin

unbundle bit_operations_syntax

text \<open>
  IP addresses: \<^verbatim>\<open>std::net::IpAddr\<close> with the textual forms of Rust's standard library that the
  sources use (\<^verbatim>\<open>FromStr\<close> and \<^verbatim>\<open>Display\<close>), and the label form of
  \<^verbatim>\<open>crates/dns-resolver/src/resolver.rs\<close> (\<^verbatim>\<open>IpDisplay\<close>, \<^verbatim>\<open>ptr_host\<close>) for reverse lookups.
\<close>

section \<open>Model\<close>

datatype ip_addr = V4 "32 word" | V6 "128 word"

text \<open>The order of \<^verbatim>\<open>IpAddr\<close>, in which a \<^verbatim>\<open>BTreeMap\<close> keeps its keys: the IPv4 addresses first, then by value.\<close>

instantiation ip_addr :: linorder
begin

fun less_eq_ip_addr :: "ip_addr \<Rightarrow> ip_addr \<Rightarrow> bool" where
  "less_eq_ip_addr (V4 a) (V4 b) = (a \<le> b)"
| "less_eq_ip_addr (V4 a) (V6 b) = True"
| "less_eq_ip_addr (V6 a) (V4 b) = False"
| "less_eq_ip_addr (V6 a) (V6 b) = (a \<le> b)"

definition less_ip_addr :: "ip_addr \<Rightarrow> ip_addr \<Rightarrow> bool" where
  "less_ip_addr a b \<longleftrightarrow> a \<le> b \<and> \<not> b \<le> a"

instance
proof
  fix a b c :: ip_addr
  show "a < b \<longleftrightarrow> a \<le> b \<and> \<not> b \<le> a" by (simp add: less_ip_addr_def)
  show "a \<le> a" by (cases a) simp_all
  show "a \<le> b \<Longrightarrow> b \<le> c \<Longrightarrow> a \<le> c" by (cases a; cases b; cases c) auto
  show "a \<le> b \<Longrightarrow> b \<le> a \<Longrightarrow> a = b" by (cases a; cases b) auto
  show "a \<le> b \<or> b \<le> a" by (cases a; cases b) auto
qed

end

definition is_ipv4 :: "ip_addr \<Rightarrow> bool" where
  "is_ipv4 ip = (case ip of V4 _ \<Rightarrow> True | V6 _ \<Rightarrow> False)"

definition v4_octets :: "32 word \<Rightarrow> nat list" where
  "v4_octets w = map (\<lambda>k. unat w div 2 ^ (8 * k) mod 256) [3, 2, 1, 0]"

definition v4_of_octets :: "nat \<Rightarrow> nat \<Rightarrow> nat \<Rightarrow> nat \<Rightarrow> 32 word" where
  "v4_of_octets a b c d = of_nat (((a * 256 + b) * 256 + c) * 256 + d)"

definition v6_octets :: "128 word \<Rightarrow> nat list" where
  "v6_octets w = map (\<lambda>k. unat w div 2 ^ (8 * k) mod 256) (rev [0..<16])"

definition v6_segments :: "128 word \<Rightarrow> nat list" where
  "v6_segments w = map (\<lambda>k. unat w div 2 ^ (16 * k) mod 65536) (rev [0..<8])"

definition v6_of_segments :: "nat list \<Rightarrow> 128 word" where
  "v6_of_segments ss = of_nat (foldl (\<lambda>n s. n * 65536 + s) 0 ss)"

definition show_ipv4 :: "32 word \<Rightarrow> string" where
  "show_ipv4 w = join ''.'' (map show_nat (v4_octets w))"

text \<open>An octet: one to three digits, at most 255, and no leading zero.\<close>

definition parse_octet :: "string \<Rightarrow> nat option" where
  "parse_octet s =
     (if length s \<le> 3 \<and> (length s = 1 \<or> \<not> starts_with ''0'' s) then parse_digits 255 s else None)"

definition parse_ipv4 :: "string \<Rightarrow> (32 word) option" where
  "parse_ipv4 s =
     (case split_on CHR ''.'' s of
        [a, b, c, d] \<Rightarrow> do {
          a \<leftarrow> parse_octet a; b \<leftarrow> parse_octet b; c \<leftarrow> parse_octet c; d \<leftarrow> parse_octet d;
          Some (v4_of_octets a b c d) }
      | _ \<Rightarrow> None)"

definition hex_char :: "nat \<Rightarrow> char" where
  "hex_char d = char_of (if d < 10 then d + 48 else d + 87)"

fun show_hex :: "nat \<Rightarrow> string" where
  "show_hex n = (if n < 16 then [hex_char n] else show_hex (n div 16) @ [hex_char (n mod 16)])"

declare show_hex.simps [simp del]

definition hex_val :: "char \<Rightarrow> nat option" where
  "hex_val c =
     (let n = chr_code c in
      if 48 \<le> n \<and> n \<le> 57 then Some (n - 48)
      else if 97 \<le> n \<and> n \<le> 102 then Some (n - 87)
      else if 65 \<le> n \<and> n \<le> 70 then Some (n - 55)
      else None)"

definition parse_hex_group :: "string \<Rightarrow> nat option" where
  "parse_hex_group s =
     (if s = [] \<or> 4 < length s then None
      else map_option (foldl (\<lambda>n d. n * 16 + d) 0) (those (map hex_val s)))"

text \<open>The groups of one side of the \<^verbatim>\<open>::\<close>; where \<open>v4\<close> holds the last may be a dotted IPv4 address, which
  stands for two groups.\<close>

fun parse_v6_groups :: "bool \<Rightarrow> string list \<Rightarrow> nat list option" where
  "parse_v6_groups v4 [] = Some []"
| "parse_v6_groups v4 [g] =
     (case parse_hex_group g of
        Some n \<Rightarrow> Some [n]
      | None \<Rightarrow> if v4 then map_option (\<lambda>w. [unat w div 65536, unat w mod 65536]) (parse_ipv4 g) else None)"
| "parse_v6_groups v4 (g # h # gs) = do {
     n \<leftarrow> parse_hex_group g;
     ns \<leftarrow> parse_v6_groups v4 (h # gs);
     Some (n # ns) }"

definition v6_fields :: "string \<Rightarrow> string list" where
  "v6_fields s = (if s = [] then [] else split_on CHR '':'' s)"

definition parse_ipv6 :: "string \<Rightarrow> (128 word) option" where
  "parse_ipv6 s =
     (case split_once_str ''::'' s of
        None \<Rightarrow> do {
          gs \<leftarrow> parse_v6_groups True (v6_fields s);
          if length gs = 8 then Some (v6_of_segments gs) else None }
      | Some (a, b) \<Rightarrow> do {
          hs \<leftarrow> parse_v6_groups False (v6_fields a);
          ts \<leftarrow> parse_v6_groups True (v6_fields b);
          if length hs + length ts \<le> 7
          then Some (v6_of_segments (hs @ replicate (8 - length hs - length ts) 0 @ ts)) else None })"

text \<open>The longest run of zero segments, the first of the longest: its start and its length.\<close>

fun longest_zero_run :: "nat \<Rightarrow> nat \<times> nat \<Rightarrow> nat \<times> nat \<Rightarrow> nat list \<Rightarrow> nat \<times> nat" where
  "longest_zero_run i best cur [] = best"
| "longest_zero_run i best cur (s # ss) =
     (if s = 0 then
        let cur = (if snd cur = 0 then (i, 1) else (fst cur, snd cur + 1));
            best = (if snd cur > snd best then cur else best)
        in longest_zero_run (i + 1) best cur ss
      else longest_zero_run (i + 1) best (0, 0) ss)"

definition show_ipv6 :: "128 word \<Rightarrow> string" where
  "show_ipv6 w =
     (let ss = v6_segments w in
      if take 6 ss = [0, 0, 0, 0, 0, 65535] then ''::ffff:'' @ show_ipv4 (of_nat (unat w mod 2 ^ 32))
      else case longest_zero_run 0 (0, 0) (0, 0) ss of
        (start, len) \<Rightarrow>
          if len > 1 then join '':'' (map show_hex (take start ss)) @ ''::''
            @ join '':'' (map show_hex (drop (start + len) ss))
          else join '':'' (map show_hex ss))"

definition show_ip :: "ip_addr \<Rightarrow> string" where
  "show_ip ip = (case ip of V4 w \<Rightarrow> show_ipv4 w | V6 w \<Rightarrow> show_ipv6 w)"

definition ip_display :: "ip_addr \<Rightarrow> bool \<Rightarrow> string" where
  "ip_display ip reverse =
     (case ip of
        V4 w \<Rightarrow>
          (let bs = (if reverse then rev (v4_octets w) else v4_octets w)
           in join ''.'' (map show_nat bs))
      | V6 w \<Rightarrow>
          (let bs = (if reverse then rev (v6_octets w) else v6_octets w)
           in join ''.'' (map (\<lambda>b.
                if reverse then show_hex (b mod 16) @ ''.'' @ show_hex (b div 16)
                else show_hex (b div 16) @ ''.'' @ show_hex (b mod 16)) bs)))"

definition reverse_ip :: "ip_addr \<Rightarrow> string" where
  "reverse_ip ip = ip_display ip True"

definition ptr_host :: "ip_addr \<Rightarrow> string" where
  "ptr_host ip = reverse_ip ip @ (case ip of V4 _ \<Rightarrow> ''.in-addr.arpa'' | V6 _ \<Rightarrow> ''.ip6.arpa'')"

section \<open>Reading a printed IPv4 address\<close>

lemma show_nat_small: "n < 10 \<Longrightarrow> show_nat n = [digit_char n]"
  by (subst show_nat.simps) simp

lemma show_nat_octet:
  assumes "n < 256"
  shows "length (show_nat n) \<le> 3 \<and> (length (show_nat n) = 1 \<or> hd (show_nat n) \<noteq> CHR ''0'')"
proof -
  have d: "digit_char m \<noteq> CHR ''0''" if "0 < m" "m < 10" for m
  proof -
    have "digit_val (digit_char m) = m" using that digit_char_props by blast
    then show ?thesis using that(1) by (auto simp: digit_val_def)
  qed
  consider "n < 10" | "10 \<le> n" "n < 100" | "100 \<le> n" by linarith
  then show ?thesis
  proof cases
    case 1
    then show ?thesis by (simp add: show_nat_small)
  next
    case 2
    then show ?thesis using d[of "n div 10"] by (subst (1 2 3) show_nat.simps) (simp add: show_nat_small)
  next
    case 3
    then have "show_nat n = [digit_char (n div 10 div 10), digit_char (n div 10 mod 10), digit_char (n mod 10)]"
      using assms by (subst show_nat.simps, subst show_nat.simps) (simp add: show_nat_small)
    then show ?thesis using d[of "n div 10 div 10"] 3 assms by simp
  qed
qed

lemma parse_octet_show: "n < 256 \<Longrightarrow> parse_octet (show_nat n) = Some n"
proof -
  assume n: "n < 256"
  then have "parse_digits 255 (show_nat n) = Some n" by (simp add: parse_digits_def)
  moreover have "length (show_nat n) \<le> 3 \<and> (length (show_nat n) = 1 \<or> \<not> starts_with ''0'' (show_nat n))"
    using show_nat_octet[OF n] by (cases "show_nat n") (auto simp: starts_with_def)
  ultimately show ?thesis by (simp add: parse_octet_def)
qed

lemma octets_recombine:
  fixes n :: nat
  assumes "n < 2 ^ 32"
  shows "((n div 2 ^ 24 mod 256 * 256 + n div 2 ^ 16 mod 256) * 256 + n div 2 ^ 8 mod 256) * 256 + n mod 256 = n"
proof -
  have s: "n div 2 ^ 8 = n div 256" "n div 2 ^ 16 = n div 256 div 256" "n div 2 ^ 24 = n div 256 div 256 div 256"
    by (simp_all flip: div_mult2_eq)
  have "n div 256 div 256 div 256 < 256"
    using assms by (simp flip: div_mult2_eq add: div_less_iff_less_mult)
  then have "n div 256 div 256 div 256 mod 256 = n div 256 div 256 div 256" by simp
  then show ?thesis unfolding s by (simp only: div_mult_mod_eq)
qed

lemma ipv4_print_parse: "parse_ipv4 (show_ipv4 w) = Some w"
proof -
  let ?f = "\<lambda>k. unat w div 2 ^ (8 * k) mod 256"
  have "split_on CHR ''.'' (join ''.'' (map show_nat (v4_octets w))) = map show_nat (v4_octets w)"
    by (rule split_pred_join) (auto simp: v4_octets_def show_nat_no is_ascii_digit_def)
  then have "parse_ipv4 (show_ipv4 w) = Some (v4_of_octets (?f 3) (?f 2) (?f 1) (?f 0))"
    by (simp add: show_ipv4_def parse_ipv4_def v4_octets_def parse_octet_show)
  moreover have "unat w < 2 ^ 32" using unsigned_less[of w] by simp
  then have "v4_of_octets (?f 3) (?f 2) (?f 1) (?f 0) = w"
    using octets_recombine[of "unat w"] by (simp add: v4_of_octets_def)
  ultimately show ?thesis by simp
qed

interpretation ipv4_codec: codec show_ipv4 parse_ipv4 Some "\<lambda>_. True"
  by unfold_locales (simp_all add: ipv4_print_parse)

end
