(* ===== verification/Spf_Macro.thy ===== *)
theory Spf_Macro
  imports Net_Addr
begin

text \<open>
  SPF macros, \<^verbatim>\<open>crates/kumo-spf/src/spec.rs\<close>: the macro strings of RFC 7208 section 7, their parser
  and their expansion, with the part of \<^verbatim>\<open>SpfContext\<close> (\<^verbatim>\<open>lib.rs\<close>) that expansion needs: the evaluation
  context, the budget of DNS lookups and the validated domain name of the client.

  The DNS resolver and the \<^verbatim>\<open>Name\<close> type of the hickory crate are the fields of \<open>dns_env\<close>, an
  argument of every definition that uses them.  An evaluation step takes the number of lookups that
  remain and returns a result with the number left; \<open>None\<close> is for recursion that outruns its fuel,
  which \<open>Spf_Eval\<close> shows never happens.
\<close>

section \<open>Resolver and results\<close>

datatype dns_error = InvalidName string | ResolveFailed string

fun show_dns_error :: "dns_error \<Rightarrow> string" where
  "show_dns_error (InvalidName s) = ''invalid DNS name: '' @ s"
| "show_dns_error (ResolveFailed s) = ''DNS: '' @ s"

datatype rdata = TXT "string list" | OtherRData

record answer =
  an_records :: "rdata list"
  an_nxdomain :: bool

fun txt_of :: "rdata \<Rightarrow> string list" where
  "txt_of (TXT parts) = [concat parts]"
| "txt_of OtherRData = []"

definition as_txt :: "answer \<Rightarrow> string list" where
  "as_txt a = concat (map txt_of (an_records a))"

record 'n dns_env =
  name_from_str :: "string \<Rightarrow> (string, 'n) result"
  name_lower :: "'n \<Rightarrow> 'n"
  name_set_fqdn :: "bool \<Rightarrow> 'n \<Rightarrow> 'n"
  name_to_string :: "'n \<Rightarrow> string"
  zone_of :: "'n \<Rightarrow> 'n \<Rightarrow> bool"
  resolve_ip :: "string \<Rightarrow> (dns_error, ip_addr list) result"
  resolve_mx :: "string \<Rightarrow> (dns_error, 'n list) result"
  resolve_ptr :: "ip_addr \<Rightarrow> (dns_error, 'n list) result"
  resolve_txt_name :: "'n \<Rightarrow> (dns_error, answer) result"

definition resolve_txt :: "'n dns_env \<Rightarrow> string \<Rightarrow> (dns_error, answer) result" where
  "resolve_txt env s =
     (case name_from_str env s of
        Inl err \<Rightarrow> Inl (InvalidName (''invalid name '' @ s @ '': '' @ err))
      | Inr n \<Rightarrow> resolve_txt_name env n)"

definition fully_qualify :: "'n dns_env \<Rightarrow> string \<Rightarrow> string" where
  "fully_qualify env s =
     (case name_from_str env s of
        Inr n \<Rightarrow> name_to_string env (name_set_fqdn env True (name_lower env n))
      | Inl _ \<Rightarrow> s)"

datatype spf_disposition = SpfNone | Neutral | Pass | Fail | SoftFail | TempError | PermError

fun disposition_str :: "spf_disposition \<Rightarrow> string" where
  "disposition_str SpfNone = ''none''"
| "disposition_str Neutral = ''neutral''"
| "disposition_str Pass = ''pass''"
| "disposition_str Fail = ''fail''"
| "disposition_str SoftFail = ''softfail''"
| "disposition_str TempError = ''temperror''"
| "disposition_str PermError = ''permerror''"

definition disposition_from_string :: "string \<Rightarrow> spf_disposition" where
  "disposition_from_string s =
     (let v = to_ascii_lowercase s in
      if v = ''none'' then SpfNone else if v = ''neutral'' then Neutral else if v = ''pass'' then Pass
      else if v = ''fail'' then Fail else if v = ''softfail'' then SoftFail
      else if v = ''temperror'' then TempError else if v = ''permerror'' then PermError else SpfNone)"

record spf_result =
  sr_disposition :: spf_disposition
  sr_context :: string

definition spf_res :: "spf_disposition \<Rightarrow> string \<Rightarrow> spf_result" where
  "spf_res d c = \<lparr>sr_disposition = d, sr_context = c\<rparr>"

definition spf_fail :: "string \<Rightarrow> spf_result" where
  "spf_fail c = spf_res Fail c"

record spf_context =
  cx_sender :: string
  cx_local_part :: string
  cx_sender_domain :: string
  cx_domain :: string
  cx_client_ip :: ip_addr
  cx_now :: nat
  cx_ehlo_domain :: "string option"
  cx_relaying_host_name :: string

text \<open>Steps that use the shared counter \<^verbatim>\<open>lookups_remaining\<close>.\<close>

type_synonym 'a spf = "nat \<Rightarrow> ((spf_result, 'a) result \<times> nat) option"

definition sret :: "'a \<Rightarrow> 'a spf" where
  "sret a st = Some (Inr a, st)"

definition serr :: "spf_result \<Rightarrow> 'a spf" where
  "serr e st = Some (Inl e, st)"

definition sbind :: "'a spf \<Rightarrow> ('a \<Rightarrow> 'b spf) \<Rightarrow> 'b spf" where
  "sbind m f st =
     (case m st of
        None \<Rightarrow> None
      | Some (Inl e, st') \<Rightarrow> Some (Inl e, st')
      | Some (Inr a, st') \<Rightarrow> f a st')"

definition lift_dns :: "(dns_error, 'a) result \<Rightarrow> (dns_error \<Rightarrow> spf_result) \<Rightarrow> 'a spf" where
  "lift_dns r f = (case r of Inl e \<Rightarrow> serr (f e) | Inr a \<Rightarrow> sret a)"

definition check_lookup_limit :: "unit spf" where
  "check_lookup_limit st =
     (if st > 0 then Some (Inr (), st - 1)
      else Some (Inl (spf_res PermError ''DNS lookup limits exceeded''), st))"

section \<open>Validated domain names\<close>

text \<open>The loop over the PTR names below the domain; the eleventh is an error.\<close>

fun ptr_loop :: "'n dns_env \<Rightarrow> spf_context \<Rightarrow> nat \<Rightarrow> 'n list \<Rightarrow> string option spf" where
  "ptr_loop env cx idx [] = sret None"
| "ptr_loop env cx idx (ptr # ptrs) =
     (if idx \<ge> 10 then serr (spf_res PermError (''too many PTR records for '' @ show_ip (cx_client_ip cx)))
      else sbind (lift_dns (resolve_ip env (fully_qualify env (name_to_string env ptr)))
                   (\<lambda>err. spf_res TempError
                      (''error looking up IP for '' @ name_to_string env ptr @ '': '' @ show_dns_error err)))
        (\<lambda>ips. if cx_client_ip cx \<in> set ips
               then sret (Some (name_to_string env (name_set_fqdn env False ptr)))
               else ptr_loop env cx (idx + 1) ptrs))"

definition validated_domain_with :: "'n dns_env \<Rightarrow> spf_context \<Rightarrow> string spf \<Rightarrow> string option spf" where
  "validated_domain_with env cx get_domain =
     sbind check_lookup_limit (\<lambda>_.
     sbind get_domain (\<lambda>dmn.
     case name_from_str env dmn of
       Inl err \<Rightarrow> serr (spf_res PermError (''error parsing domain name: '' @ err))
     | Inr dmn \<Rightarrow>
         sbind (lift_dns (resolve_ptr env (cx_client_ip cx))
                 (\<lambda>err. spf_res TempError
                    (''error looking up PTR for '' @ show_ip (cx_client_ip cx) @ '': '' @ show_dns_error err)))
           (\<lambda>ptrs. ptr_loop env cx 0 (filter (zone_of env dmn) ptrs))))"

section \<open>Macro strings\<close>

datatype macro_name =
    Sender | LocalPart | SenderDomain | DomainName | Ip | ValidatedDomainName | ReverseDns
  | HeloDomain | ClientIp | RelayingHostName | CurrentUnixTimeStamp

record macro_term =
  mt_name :: macro_name
  mt_transformer_digits :: "nat option"
  mt_url_escape :: bool
  mt_reverse :: bool
  mt_delimiters :: string

datatype macro_element = Literal string | Macro macro_term

type_synonym macro_spec = "macro_element list"

definition is_ascii_uppercase :: "char \<Rightarrow> bool" where
  "is_ascii_uppercase c = (65 \<le> chr_code c \<and> chr_code c \<le> 90)"

definition macro_name_parse :: "char \<Rightarrow> (string, macro_name \<times> bool) result" where
  "macro_name_parse c =
     (let l = lower_char c; esc = is_ascii_uppercase c in
      if l = CHR ''s'' then Inr (Sender, esc)
      else if l = CHR ''l'' then Inr (LocalPart, esc)
      else if l = CHR ''o'' then Inr (SenderDomain, esc)
      else if l = CHR ''d'' then Inr (DomainName, esc)
      else if l = CHR ''i'' then Inr (Ip, esc)
      else if l = CHR ''p'' then Inr (ValidatedDomainName, esc)
      else if l = CHR ''v'' then Inr (ReverseDns, esc)
      else if l = CHR ''h'' then Inr (HeloDomain, esc)
      else if l = CHR ''c'' then Inr (ClientIp, esc)
      else if l = CHR ''r'' then Inr (RelayingHostName, esc)
      else if l = CHR ''t'' then Inr (CurrentUnixTimeStamp, esc)
      else Inl (''invalid macro name '' @ [c]))"

fun macro_name_as_char :: "macro_name \<Rightarrow> char" where
  "macro_name_as_char Sender = CHR ''s''"
| "macro_name_as_char LocalPart = CHR ''l''"
| "macro_name_as_char SenderDomain = CHR ''o''"
| "macro_name_as_char DomainName = CHR ''d''"
| "macro_name_as_char Ip = CHR ''i''"
| "macro_name_as_char ValidatedDomainName = CHR ''p''"
| "macro_name_as_char ReverseDns = CHR ''v''"
| "macro_name_as_char HeloDomain = CHR ''h''"
| "macro_name_as_char ClientIp = CHR ''c''"
| "macro_name_as_char RelayingHostName = CHR ''r''"
| "macro_name_as_char CurrentUnixTimeStamp = CHR ''t''"

definition show_macro_term :: "macro_term \<Rightarrow> string" where
  "show_macro_term t =
     ''%'' @ [macro_name_as_char (mt_name t)] @ mt_delimiters t
     @ (case mt_transformer_digits t of None \<Rightarrow> [] | Some n \<Rightarrow> show_nat n)
     @ (if mt_reverse t then ''r'' else []) @ (if mt_url_escape t then ''/'' else [])"

fun show_macro_element :: "macro_element \<Rightarrow> string" where
  "show_macro_element (Literal l) = l"
| "show_macro_element (Macro t) = show_macro_term t"

definition show_macro_spec :: "macro_spec \<Rightarrow> string" where
  "show_macro_spec es = join '' '' (map show_macro_element es)"

definition starts_with_number :: "string \<Rightarrow> (string, nat option \<times> string) result" where
  "starts_with_number s =
     (let num = takeWhile (\<lambda>c. is_ascii_digit c \<or> c = CHR ''.'') s in
      if num = [] then Inr (None, s)
      else case parse_uint u32_max num of
        Some n \<Rightarrow> Inr (Some n, drop (length num) s)
      | None \<Rightarrow> Inl (''error parsing number from '' @ s))"

definition add_literal :: "macro_spec \<Rightarrow> string \<Rightarrow> macro_spec" where
  "add_literal es l =
     (case rev es of
        Literal prior # r \<Rightarrow> rev r @ [Literal (prior @ l)]
      | _ \<Rightarrow> es @ [Literal l])"

definition is_macro_literal :: "char \<Rightarrow> bool" where
  "is_macro_literal c =
     (32 \<le> chr_code c \<and> chr_code c \<le> 36 \<or> 38 \<le> chr_code c \<and> chr_code c \<le> 126)"

text \<open>What follows \<^verbatim>\<open>%{\<close> in \<open>s\<close>: the macro and the rest of the string.\<close>

definition parse_macro_term :: "string \<Rightarrow> (string, macro_term \<times> string) result" where
  "parse_macro_term s =
     (if length s < 4 then Inl (''unexpected end of input in '' @ s)
      else rbind (macro_name_parse (s ! 2)) (\<lambda>(name, url_escape).
        let (digits, remain) =
              (case starts_with_number (drop 3 s) of Inr (n, r) \<Rightarrow> (n, r) | Inl _ \<Rightarrow> (None, drop 3 s));
            (reverse, delims) = (case strip_prefix ''r'' remain of Some r \<Rightarrow> (True, r) | None \<Rightarrow> (False, remain))
        in rbind (ok_or (split_once CHR ''}'' delims) (''expected '' @ quoted ''}'' @ '' to close macro in '' @ s))
             (\<lambda>(delims, remain).
               Inr (\<lparr>mt_name = name, mt_transformer_digits = digits, mt_url_escape = url_escape,
                     mt_reverse = reverse, mt_delimiters = delims\<rparr>, remain))))"

lemma parse_macro_term_shorter:
  assumes "parse_macro_term s = Inr (t, r)"
  shows "length r < length s"
proof -
  have num: "length q \<le> length s - 3"
    if "(case starts_with_number (drop 3 s) of Inr (n, r) \<Rightarrow> (n, r) | Inl _ \<Rightarrow> (None, drop 3 s)) = (d, q)" for d q
    using that by (auto simp: starts_with_number_def Let_def split: if_splits option.splits)
  have pre: "length q \<le> length p"
    if "(case strip_prefix ''r'' p of Some r \<Rightarrow> (True, r) | None \<Rightarrow> (False, p)) = (d, q)" for d p q
    using that by (auto simp: strip_prefix_Some_iff split: option.splits)
  have cut: "length b < length p" if "split_once CHR ''}'' p = Some (a, b)" for p a b
    using that by (simp add: split_once_Some_iff)
  obtain d q where q: "(case starts_with_number (drop 3 s) of Inr (n, r) \<Rightarrow> (n, r) | Inl _ \<Rightarrow> (None, drop 3 s)) = (d, q)"
    by fastforce
  obtain v p where p: "(case strip_prefix ''r'' q of Some r \<Rightarrow> (True, r) | None \<Rightarrow> (False, q)) = (v, p)"
    by fastforce
  obtain a where "split_once CHR ''}'' p = Some (a, r)" "\<not> length s < 4"
    using assms by (auto simp: parse_macro_term_def rbind_Inr_iff q p split: if_splits)
  then show ?thesis using num[OF q] pre[OF p] cut by fastforce
qed

function macro_parse_loop :: "macro_spec \<Rightarrow> string \<Rightarrow> (string, macro_spec) result" where
  "macro_parse_loop es s =
     (case s of
        [] \<Rightarrow> Inr es
      | c # cs \<Rightarrow>
          if starts_with ''%%'' s then macro_parse_loop (add_literal es ''%'') (drop 2 s)
          else if starts_with ''%_'' s then macro_parse_loop (add_literal es '' '') (drop 2 s)
          else if starts_with ''%-'' s then macro_parse_loop (add_literal es ''%20'') (drop 2 s)
          else if starts_with ''%{'' s then
            (case parse_macro_term s of
               Inl e \<Rightarrow> Inl e
             | Inr (t, remain) \<Rightarrow> macro_parse_loop (es @ [Macro t]) remain)
          else if \<not> is_macro_literal c then Inl (''invalid macro char in '' @ quoted s)
          else macro_parse_loop (add_literal es [c]) cs)"
  by pat_completeness auto

termination
  by (relation "measure (\<lambda>(es, s). length s)") (auto dest: parse_macro_term_shorter)

declare macro_parse_loop.simps [simp del]

definition macro_parse :: "string \<Rightarrow> (string, macro_spec) result" where
  "macro_parse s = macro_parse_loop [] s"

section \<open>Expansion\<close>

definition macro_value :: "'n dns_env \<Rightarrow> spf_context \<Rightarrow> macro_name \<Rightarrow> string spf" where
  "macro_value env cx name =
     (case name of
        Sender \<Rightarrow> sret (cx_sender cx)
      | LocalPart \<Rightarrow> sret (cx_local_part cx)
      | SenderDomain \<Rightarrow> sret (cx_sender_domain cx)
      | DomainName \<Rightarrow> sret (cx_domain cx)
      | ReverseDns \<Rightarrow> sret (if is_ipv4 (cx_client_ip cx) then ''in-addr'' else ''ip6'')
      | ClientIp \<Rightarrow> sret (show_ip (cx_client_ip cx))
      | Ip \<Rightarrow> sret (ip_display (cx_client_ip cx) False)
      | CurrentUnixTimeStamp \<Rightarrow> sret (show_nat (cx_now cx))
      | HeloDomain \<Rightarrow> sret (case cx_ehlo_domain cx of None \<Rightarrow> [] | Some d \<Rightarrow> d)
      | RelayingHostName \<Rightarrow> sret (cx_relaying_host_name cx)
      | ValidatedDomainName \<Rightarrow> (\<lambda>st.
          case validated_domain_with env cx (sret (cx_domain cx)) st of
            None \<Rightarrow> None
          | Some (Inr (Some n), st') \<Rightarrow> Some (Inr n, st')
          | Some (_, st') \<Rightarrow> Some (Inr ''unknown'', st')))"

definition url_escape :: "string \<Rightarrow> string" where
  "url_escape s = concat (map (\<lambda>c.
     if is_ascii_alphanumeric c \<or> c \<in> {CHR ''-'', CHR ''.'', CHR ''_'', CHR ''~''} then [c]
     else [CHR ''%'', hex_char (chr_code c div 16), hex_char (chr_code c mod 16)]) s)"

definition transform :: "macro_term \<Rightarrow> string \<Rightarrow> string" where
  "transform m buf =
     (let delims = (if mt_delimiters m = [] then ''.'' else mt_delimiters m);
          tokens = split_pred (\<lambda>c. c \<in> set delims) buf;
          tokens = (if mt_reverse m then rev tokens else tokens);
          tokens = (case mt_transformer_digits m of
                      Some n \<Rightarrow> drop (length tokens - n) tokens
                    | None \<Rightarrow> tokens);
          output = join ''.'' tokens
      in if mt_url_escape m then url_escape output else output)"

fun expand_loop :: "'n dns_env \<Rightarrow> spf_context \<Rightarrow> string \<Rightarrow> macro_spec \<Rightarrow> string spf" where
  "expand_loop env cx acc [] = sret acc"
| "expand_loop env cx acc (Literal l # es) = expand_loop env cx (acc @ l) es"
| "expand_loop env cx acc (Macro m # es) =
     sbind (macro_value env cx (mt_name m)) (\<lambda>buf. expand_loop env cx (acc @ transform m buf) es)"

definition macro_expand :: "'n dns_env \<Rightarrow> spf_context \<Rightarrow> macro_spec \<Rightarrow> string spf" where
  "macro_expand env cx es = expand_loop env cx [] es"

text \<open>\<^verbatim>\<open>SpfContext::domain\<close>: an expansion never fails, so its error branch is not reached.\<close>

definition spf_domain :: "'n dns_env \<Rightarrow> spf_context \<Rightarrow> macro_spec option \<Rightarrow> string spf" where
  "spf_domain env cx spec = (case spec of None \<Rightarrow> sret (cx_domain cx) | Some es \<Rightarrow> macro_expand env cx es)"

definition validated_domain :: "'n dns_env \<Rightarrow> spf_context \<Rightarrow> macro_spec option \<Rightarrow> string option spf" where
  "validated_domain env cx spec = validated_domain_with env cx (spf_domain env cx spec)"

section \<open>Helper lemmas\<close>

text \<open>A step is within its budget up to \<open>k\<close> when, with at most \<open>k\<close> lookups remaining, it always answers
  and never gains lookups.\<close>

definition budget_upto :: "nat \<Rightarrow> 'a spf \<Rightarrow> bool" where
  "budget_upto k m \<longleftrightarrow> (\<forall>st \<le> k. \<exists>r st'. m st = Some (r, st') \<and> st' \<le> st)"

named_theorems budget_intros \<open>steps that always answer and never gain lookups\<close>

lemma budget_uptoE:
  assumes "budget_upto k m" "st \<le> k"
  obtains r st' where "m st = Some (r, st')" "st' \<le> st"
  using assms unfolding budget_upto_def by blast

lemma budget_sret [budget_intros]: "budget_upto k (sret a)"
  by (simp add: budget_upto_def sret_def)

lemma budget_serr [budget_intros]: "budget_upto k (serr e)"
  by (simp add: budget_upto_def serr_def)

lemma budget_sbind [budget_intros]:
  assumes "budget_upto k m" "\<And>a. budget_upto k (f a)"
  shows "budget_upto k (sbind m f)"
  unfolding budget_upto_def
proof (intro allI impI)
  fix st assume st: "st \<le> k"
  obtain r st1 where 1: "m st = Some (r, st1)" "st1 \<le> st"
    using budget_uptoE[OF assms(1) st] .
  show "\<exists>r st'. sbind m f st = Some (r, st') \<and> st' \<le> st"
  proof (cases r)
    case (Inr a)
    have "st1 \<le> k" using 1 st by simp
    then obtain r2 st2 where "f a st1 = Some (r2, st2)" "st2 \<le> st1"
      using budget_uptoE[OF assms(2)] by blast
    then show ?thesis using 1 Inr by (simp add: sbind_def)
  qed (use 1 in \<open>simp add: sbind_def\<close>)
qed

lemma budget_lift_dns [budget_intros]: "budget_upto k (lift_dns r f)"
  by (cases r) (simp_all add: lift_dns_def budget_intros)

lemma budget_check_lookup_limit [budget_intros]: "budget_upto k check_lookup_limit"
  by (simp add: budget_upto_def check_lookup_limit_def)

lemma budget_ptr_loop [budget_intros]: "budget_upto k (ptr_loop env cx idx ptrs)"
  by (induction ptrs arbitrary: idx) (auto intro!: budget_intros)

lemma budget_validated_domain_with [budget_intros]:
  "budget_upto k m \<Longrightarrow> budget_upto k (validated_domain_with env cx m)"
  unfolding validated_domain_with_def by (auto intro!: budget_intros split: sum.splits)

lemma budget_macro_value [budget_intros]: "budget_upto k (macro_value env cx name)"
proof (cases name)
  case ValidatedDomainName
  have b: "budget_upto k (validated_domain_with env cx (sret (cx_domain cx)))"
    by (intro budget_intros)
  show ?thesis
    unfolding budget_upto_def
  proof (intro allI impI)
    fix st assume "st \<le> k"
    then obtain r st' where "validated_domain_with env cx (sret (cx_domain cx)) st = Some (r, st')" "st' \<le> st"
      using budget_uptoE[OF b] by blast
    then show "\<exists>r st'. macro_value env cx name st = Some (r, st') \<and> st' \<le> st"
      using ValidatedDomainName by (cases r) (auto simp: macro_value_def split: option.splits)
  qed
qed (auto simp: macro_value_def intro: budget_intros)

lemma budget_expand_loop [budget_intros]: "budget_upto k (expand_loop env cx acc es)"
  by (induction env cx acc es rule: expand_loop.induct) (auto intro: budget_intros)

lemma budget_spf_domain [budget_intros]: "budget_upto k (spf_domain env cx spec)"
  unfolding spf_domain_def macro_expand_def by (auto intro: budget_intros split: option.splits)

lemma budget_validated_domain [budget_intros]: "budget_upto k (validated_domain env cx spec)"
  unfolding validated_domain_def by (intro budget_intros)

lemma literal_not_percent: "is_macro_literal c \<Longrightarrow> c \<noteq> CHR ''%''"
  by (auto simp: is_macro_literal_def)

lemma macro_parse_literal:
  "list_all is_macro_literal s \<Longrightarrow> macro_parse_loop [Literal p] s = Inr [Literal (p @ s)]"
proof (induction s arbitrary: p)
  case (Cons c s)
  then have "c \<noteq> CHR ''%''" using literal_not_percent by simp
  then show ?case
    using Cons by (subst macro_parse_loop.simps) (simp add: starts_with_def add_literal_def)
qed (subst macro_parse_loop.simps, simp)

text \<open>An environment with two domains whose records refer to each other, names being strings.\<close>

definition looping_env :: "string dns_env" where
  "looping_env =
     \<lparr>name_from_str = Inr, name_lower = to_ascii_lowercase, name_set_fqdn = (\<lambda>_ n. n),
      name_to_string = (\<lambda>n. n), zone_of = (\<lambda>a b. suffix a b),
      resolve_ip = (\<lambda>_. Inr []), resolve_mx = (\<lambda>_. Inr []), resolve_ptr = (\<lambda>_. Inr []),
      resolve_txt_name = (\<lambda>n. Inr \<lparr>an_records =
        [TXT [if n = ''a'' then ''v=spf1 include:b'' else ''v=spf1 include:a'']], an_nxdomain = False\<rparr>)\<rparr>"

section \<open>Properties\<close>

text \<open>A domain without macros means itself: a non-empty text of printable characters other than
  the percent sign parses, and expands to itself in every context without spending a lookup.\<close>

theorem macro_literal_expands:
  assumes "s \<noteq> []" "list_all is_macro_literal s"
  shows "\<exists>es. macro_parse s = Inr es \<and> macro_expand env cx es st = Some (Inr s, st)"
proof -
  obtain c cs where s: "s = c # cs" using assms(1) by (cases s) auto
  then have "c \<noteq> CHR ''%''" "is_macro_literal c" using assms(2) literal_not_percent by auto
  then have "macro_parse s = Inr [Literal s]"
    using assms(2) s macro_parse_literal[of cs "[c]"]
    by (simp add: macro_parse_def macro_parse_loop.simps[of "[]" "c # cs"] starts_with_def add_literal_def)
  then show ?thesis by (auto simp: macro_expand_def sret_def)
qed

theorem macro_literal_expands_witness:
  "\<exists>es. macro_parse ''spf.example.com'' = Inr es \<and> macro_expand looping_env
      \<lparr>cx_sender = ''u@d'', cx_local_part = ''u'', cx_sender_domain = ''d'', cx_domain = ''d'',
       cx_client_ip = V4 1, cx_now = 0, cx_ehlo_domain = None, cx_relaying_host_name = ''h''\<rparr> es 3
    = Some (Inr ''spf.example.com'', 3)"
  by (rule macro_literal_expands) (simp_all add: is_macro_literal_def)

end
