(* ===== verification/Spf_Record.thy ===== *)
theory Spf_Record
  imports Spf_Macro
begin

text \<open>
  SPF records, \<^verbatim>\<open>crates/kumo-spf/src/record.rs\<close>: qualifiers, mechanisms, modifiers and the record
  itself, their parsers and printers, and the address comparison under a CIDR length.  The mask is
  shifted as the release build does: the \<^verbatim>\<open>u8\<close> difference wraps and the shift amount is taken modulo
  the width.  The texts of number and address errors are shortened: \<^verbatim>\<open>Record::parse\<close> drops them.
\<close>

section \<open>Model\<close>

datatype qualifier = QPass | QFail | QSoftFail | QNeutral

definition qualifier_parse :: "string \<Rightarrow> qualifier option" where
  "qualifier_parse s =
     (if s = ''+'' then Some QPass else if s = ''-'' then Some QFail
      else if s = ''~'' then Some QSoftFail else if s = ''?'' then Some QNeutral else None)"

fun qualifier_as_str :: "qualifier \<Rightarrow> string" where
  "qualifier_as_str QPass = ''+''"
| "qualifier_as_str QFail = ''-''"
| "qualifier_as_str QSoftFail = ''~''"
| "qualifier_as_str QNeutral = ''?''"

fun disposition_from_qualifier :: "qualifier \<Rightarrow> spf_disposition" where
  "disposition_from_qualifier QPass = Pass"
| "disposition_from_qualifier QFail = Fail"
| "disposition_from_qualifier QSoftFail = SoftFail"
| "disposition_from_qualifier QNeutral = Neutral"

record dual_cidr =
  dc_v4 :: nat
  dc_v6 :: nat

definition dual_cidr_default :: dual_cidr where
  "dual_cidr_default = \<lparr>dc_v4 = 32, dc_v6 = 128\<rparr>"

text \<open>\<^verbatim>\<open>MAX << (width - len)\<close> in the release build.\<close>

definition cidr_mask :: "nat \<Rightarrow> 'a::len word" where
  "cidr_mask len = push_bit ((LENGTH('a) + 256 - len) mod 256 mod LENGTH('a)) (- 1)"

definition cidr_matches :: "dual_cidr \<Rightarrow> ip_addr \<Rightarrow> ip_addr \<Rightarrow> bool" where
  "cidr_matches c observed specified =
     (case (observed, specified) of
        (V4 o4, V4 s4) \<Rightarrow> s4 AND cidr_mask (dc_v4 c) = o4 AND cidr_mask (dc_v4 c)
      | (V6 o6, V6 s6) \<Rightarrow> s6 AND cidr_mask (dc_v6 c) = o6 AND cidr_mask (dc_v6 c)
      | _ \<Rightarrow> False)"

definition parse_cidr_from_end :: "string \<Rightarrow> (string, string \<times> dual_cidr) result" where
  "parse_cidr_from_end s =
     (case rsplit_once CHR ''/'' s of
        Some (left, right) \<Rightarrow>
          (case parse_uint u8_max right of
             None \<Rightarrow> Inl (''invalid dual-cidr-length in '' @ s)
           | Some right_cidr \<Rightarrow>
               (case (if ends_with ''/'' left then rsplit_once CHR ''/'' (butlast left) else None) of
                  Some (pre, v4cidr) \<Rightarrow>
                    (case parse_uint u8_max v4cidr of
                       None \<Rightarrow> Inl (''invalid dual-cidr-length in '' @ s @ '': parsing v4 cidr portion'')
                     | Some left_cidr \<Rightarrow> Inr (pre, \<lparr>dc_v4 = left_cidr, dc_v6 = right_cidr\<rparr>))
                | None \<Rightarrow> Inr (left, \<lparr>dc_v4 = right_cidr, dc_v6 = 128\<rparr>)))
      | None \<Rightarrow> Inr (s, dual_cidr_default))"

definition show_cidr :: "dual_cidr \<Rightarrow> string" where
  "show_cidr c =
     (if dc_v4 c = 32 \<and> dc_v6 c = 128 then []
      else ''/'' @ show_nat (dc_v4 c) @ (if dc_v6 c \<noteq> 128 then ''/'' @ show_nat (dc_v6 c) else []))"

datatype mechanism =
    All
  | Include macro_spec
  | A "macro_spec option" dual_cidr
  | Mx "macro_spec option" dual_cidr
  | Ptr "macro_spec option"
  | Ip4 "32 word" nat
  | Ip6 "128 word" nat
  | Exists macro_spec

definition show_opt_domain :: "macro_spec option \<Rightarrow> string" where
  "show_opt_domain d = (case d of None \<Rightarrow> [] | Some es \<Rightarrow> '':'' @ show_macro_spec es)"

fun show_mechanism :: "mechanism \<Rightarrow> string" where
  "show_mechanism All = ''all''"
| "show_mechanism (Include d) = ''include:'' @ show_macro_spec d"
| "show_mechanism (A d c) = ''a'' @ show_opt_domain d @ show_cidr c"
| "show_mechanism (Mx d c) = ''mx'' @ show_opt_domain d @ show_cidr c"
| "show_mechanism (Ptr d) = ''ptr'' @ show_opt_domain d"
| "show_mechanism (Ip4 n l) = ''ip4:'' @ show_ipv4 n @ ''/'' @ show_nat l"
| "show_mechanism (Ip6 n l) = ''ip6:'' @ show_ipv6 n @ ''/'' @ show_nat l"
| "show_mechanism (Exists d) = ''exists:'' @ show_macro_spec d"

definition starts_with_ident :: "string \<Rightarrow> string \<Rightarrow> string option" where
  "starts_with_ident s ident =
     (if length s < length ident then None
      else if eq_ignore_ascii_case (take (length ident) s) ident then Some (drop (length ident) s)
      else None)"

text \<open>The optional \<^verbatim>\<open>:domain\<close> of the \<^verbatim>\<open>a\<close>, \<^verbatim>\<open>mx\<close> and \<^verbatim>\<open>ptr\<close> mechanisms.\<close>

definition parse_opt_domain :: "string \<Rightarrow> string \<Rightarrow> (string, macro_spec option) result" where
  "parse_opt_domain err remain =
     (case strip_prefix '':'' remain of
        Some spec \<Rightarrow> rbind (macro_parse spec) (\<lambda>d. Inr (Some d))
      | None \<Rightarrow> if remain = [] then Inr None else Inl err)"

definition parse_network ::
  "(string \<Rightarrow> 'w option) \<Rightarrow> string \<Rightarrow> string \<Rightarrow> string \<Rightarrow> (string, 'w \<times> nat) result" where
  "parse_network parse_addr dflt err remain =
     (let (addr, len) = (case split_once CHR ''/'' remain of Some (a, l) \<Rightarrow> (a, l) | None \<Rightarrow> (remain, dflt))
      in rbind (ok_or (parse_addr addr) err) (\<lambda>n.
         rbind (ok_or (parse_uint u8_max len) err) (\<lambda>l. Inr (n, l))))"

definition mechanism_parse :: "string \<Rightarrow> (string, mechanism) result" where
  "mechanism_parse s =
     (if eq_ignore_ascii_case s ''all'' then Inr All
      else case starts_with_ident s ''include:'' of
        Some spec \<Rightarrow> rbind (macro_parse spec) (\<lambda>d. Inr (Include d))
      | None \<Rightarrow>
      (case starts_with_ident s ''a'' of
        Some remain \<Rightarrow> rbind (parse_cidr_from_end remain) (\<lambda>(remain, c).
          rbind (parse_opt_domain (''invalid '' @ quoted ''a'' @ '' mechanism: '' @ s) remain) (\<lambda>d. Inr (A d c)))
      | None \<Rightarrow>
      (case starts_with_ident s ''mx'' of
        Some remain \<Rightarrow> rbind (parse_cidr_from_end remain) (\<lambda>(remain, c).
          rbind (parse_opt_domain (''invalid '' @ quoted ''mx'' @ '' mechanism: '' @ s) remain) (\<lambda>d. Inr (Mx d c)))
      | None \<Rightarrow>
      (case starts_with_ident s ''ptr'' of
        Some remain \<Rightarrow>
          rbind (parse_opt_domain (''invalid '' @ quoted ''ptr'' @ '' mechanism: '' @ s) remain) (\<lambda>d. Inr (Ptr d))
      | None \<Rightarrow>
      (case starts_with_ident s ''ip4:'' of
        Some remain \<Rightarrow>
          rbind (parse_network parse_ipv4 ''32'' (''invalid '' @ quoted ''ip4'' @ '' mechanism: '' @ s) remain)
            (\<lambda>(n, l). Inr (Ip4 n l))
      | None \<Rightarrow>
      (case starts_with_ident s ''ip6:'' of
        Some remain \<Rightarrow>
          rbind (parse_network parse_ipv6 ''128'' (''invalid '' @ quoted ''ip6'' @ '' mechanism: '' @ s) remain)
            (\<lambda>(n, l). Inr (Ip6 n l))
      | None \<Rightarrow>
      (case starts_with_ident s ''exists:'' of
        Some spec \<Rightarrow> rbind (macro_parse spec) (\<lambda>d. Inr (Exists d))
      | None \<Rightarrow> Inl (''invalid mechanism '' @ s))))))))"

record directive =
  d_qualifier :: qualifier
  d_mechanism :: mechanism

definition directive_parse :: "string \<Rightarrow> (string, directive) result" where
  "directive_parse s =
     (let (q, s') = (case qualifier_parse (take 1 s) of Some q \<Rightarrow> (q, drop 1 s) | None \<Rightarrow> (QPass, s))
      in rbind (mechanism_parse s') (\<lambda>m. Inr \<lparr>d_qualifier = q, d_mechanism = m\<rparr>))"

definition show_directive :: "directive \<Rightarrow> string" where
  "show_directive d =
     (if d_qualifier d \<noteq> QPass then qualifier_as_str (d_qualifier d) else []) @ show_mechanism (d_mechanism d)"

datatype modifier = Redirect macro_spec | Explanation macro_spec | UnknownModifier

definition modifier_parse :: "string \<Rightarrow> (string, modifier) result" where
  "modifier_parse s =
     (case starts_with_ident s ''redirect='' of
        Some spec \<Rightarrow> rbind (macro_parse spec) (\<lambda>d. Inr (Redirect d))
      | None \<Rightarrow>
      (case starts_with_ident s ''exp='' of
        Some spec \<Rightarrow> rbind (macro_parse spec) (\<lambda>d. Inr (Explanation d))
      | None \<Rightarrow>
      (case split_once CHR ''='' s of
        None \<Rightarrow> Inl (''invalid modifier '' @ s)
      | Some (name, _) \<Rightarrow>
          if name \<noteq> [] \<and> list_all (\<lambda>c. is_ascii_alphanumeric c \<or> c \<in> {CHR ''-'', CHR ''_'', CHR ''.''}) name
             \<and> is_ascii_alpha (hd name)
          then Inr UnknownModifier
          else Inl (''modifier name '' @ quoted name @ '' is invalid''))))"

record spf_record =
  r_directives :: "directive list"
  r_redirect :: "macro_spec option"
  r_explanation :: "macro_spec option"

definition record_token :: "spf_record \<Rightarrow> string \<Rightarrow> (string, spf_record) result" where
  "record_token new t =
     (if t = [] then Inl ''invalid empty token''
      else case directive_parse t of
        Inr d \<Rightarrow>
          if r_redirect new \<noteq> None \<or> r_explanation new \<noteq> None then Inl ''directive after modifier''
          else Inr (new\<lparr>r_directives := r_directives new @ [d]\<rparr>)
      | Inl _ \<Rightarrow>
          (case modifier_parse t of
             Inr (Redirect d) \<Rightarrow>
               if r_redirect new \<noteq> None then Inl ''duplicate redirect modifier''
               else Inr (new\<lparr>r_redirect := Some d\<rparr>)
           | Inr (Explanation d) \<Rightarrow>
               if r_explanation new \<noteq> None then Inl ''duplicate explanation modifier''
               else Inr (new\<lparr>r_explanation := Some d\<rparr>)
           | Inr UnknownModifier \<Rightarrow> Inr new
           | Inl _ \<Rightarrow> Inl (''invalid token '' @ quoted t)))"

fun record_tokens :: "spf_record \<Rightarrow> string list \<Rightarrow> (string, spf_record) result" where
  "record_tokens new [] = Inr new"
| "record_tokens new (t # ts) = rbind (record_token new t) (\<lambda>new'. record_tokens new' ts)"

definition record_parse :: "string \<Rightarrow> (string, spf_record) result" where
  "record_parse s =
     (case split_whitespace s of
        [] \<Rightarrow> Inl (''expected version in '' @ s)
      | version # tokens \<Rightarrow>
          if version \<noteq> ''v=spf1'' then Inl (''expected SPF version 1 in '' @ s)
          else record_tokens \<lparr>r_directives = [], r_redirect = None, r_explanation = None\<rparr> tokens)"

section \<open>Helper lemmas\<close>

lemma masked_eq_iff:
  fixes x y :: "'a::len word"
  shows "x AND push_bit n (- 1) = y AND push_bit n (- 1) \<longleftrightarrow> drop_bit n x = drop_bit n y"
proof
  assume eq: "x AND push_bit n (- 1) = y AND push_bit n (- 1)"
  have "bit x k \<longleftrightarrow> bit y k" if "n \<le> k" "k < LENGTH('a)" for k
  proof -
    have "bit (x AND push_bit n (- 1)) k \<longleftrightarrow> bit (y AND push_bit n (- 1)) k" by (simp only: eq)
    then show ?thesis using that by (simp add: bit_simps)
  qed
  then have "bit x (n + k) \<longleftrightarrow> bit y (n + k)" for k
    using bit_imp_le_length[of x "n + k"] bit_imp_le_length[of y "n + k"] by (metis le_add1)
  then show "drop_bit n x = drop_bit n y"
    by (intro bit_word_eqI) (simp add: bit_simps)
next
  assume eq: "drop_bit n x = drop_bit n y"
  have "bit x (n + k) \<longleftrightarrow> bit y (n + k)" for k
  proof -
    have "bit (drop_bit n x) k \<longleftrightarrow> bit (drop_bit n y) k" by (simp only: eq)
    then show ?thesis by (simp add: bit_simps)
  qed
  then have "bit x k \<longleftrightarrow> bit y k" if "n \<le> k" for k
    using that by (metis le_add_diff_inverse)
  then show "x AND push_bit n (- 1) = y AND push_bit n (- 1)"
    by (intro bit_word_eqI) (auto simp: bit_simps)
qed

lemma drop_bit_eq_iff_div:
  fixes x y :: "'a::len word"
  shows "drop_bit n x = drop_bit n y \<longleftrightarrow> unat x div 2 ^ n = unat y div 2 ^ n"
  unfolding word_unat_eq_iff unat_drop_bit_eq by (simp add: drop_bit_eq_div)

lemma cidr_mask_valid:
  assumes "1 \<le> len" "len \<le> LENGTH('a)" "LENGTH('a) \<le> 128"
  shows "(cidr_mask len :: 'a::len word) = push_bit (LENGTH('a) - len) (- 1)"
proof -
  have "(LENGTH('a) + 256 - len) mod 256 = LENGTH('a) - len"
    using assms by (simp add: mod_if)
  then show ?thesis using assms by (simp add: cidr_mask_def)
qed

lemma masked_prefix:
  fixes x y :: "'a::len word"
  assumes "1 \<le> len" "len \<le> LENGTH('a)" "LENGTH('a) \<le> 128"
  shows "x AND cidr_mask len = y AND cidr_mask len \<longleftrightarrow>
    unat x div 2 ^ (LENGTH('a) - len) = unat y div 2 ^ (LENGTH('a) - len)"
  using masked_eq_iff[of x "LENGTH('a) - len" y] drop_bit_eq_iff_div[of "LENGTH('a) - len" x y]
    cidr_mask_valid[OF assms] by simp

text \<open>The comparison RFC 7208 asks for: the leading bits agree.\<close>

fun same_prefix :: "dual_cidr \<Rightarrow> ip_addr \<Rightarrow> ip_addr \<Rightarrow> bool" where
  "same_prefix c (V4 x) (V4 y) = (unat x div 2 ^ (32 - dc_v4 c) = unat y div 2 ^ (32 - dc_v4 c))"
| "same_prefix c (V6 x) (V6 y) = (unat x div 2 ^ (128 - dc_v6 c) = unat y div 2 ^ (128 - dc_v6 c))"
| "same_prefix c _ _ = False"

definition cidr_valid :: "dual_cidr \<Rightarrow> bool" where
  "cidr_valid c \<longleftrightarrow> 1 \<le> dc_v4 c \<and> dc_v4 c \<le> 32 \<and> 1 \<le> dc_v6 c \<and> dc_v6 c \<le> 128"

lemma cidr_matches_same_prefix:
  assumes "cidr_valid c"
  shows "cidr_matches c ip net \<longleftrightarrow> same_prefix c ip net"
proof (cases ip; cases net)
  fix x y :: "32 word"
  assume "ip = V4 x" "net = V4 y"
  then show ?thesis
    using assms masked_prefix[of "dc_v4 c" y x] by (auto simp: cidr_matches_def cidr_valid_def)
next
  fix x y :: "128 word"
  assume "ip = V6 x" "net = V6 y"
  then show ?thesis
    using assms masked_prefix[of "dc_v6 c" y x] by (auto simp: cidr_matches_def cidr_valid_def)
qed (simp_all add: cidr_matches_def)

lemmas mechanism_eval = mechanism_parse_def eq_ignore_ascii_case_def to_ascii_lowercase_def lower_char_def
  starts_with_ident_def parse_cidr_from_end_def rsplit_once_def parse_uint_def parse_digits_def
  digits_val_def digit_val_def is_ascii_digit_def ends_with_def strip_suffix_def parse_opt_domain_def
  macro_parse_def add_literal_def is_macro_literal_def starts_with_def

section \<open>Properties\<close>

text \<open>C21. For CIDR lengths from 1 to the width of the address family, an address matches a network
  exactly when they are of the same family and their leading bits agree.  A length of 0, which
  should match every address of the family, matches only the very address: the shift amount is the
  full width, which the release build takes modulo the width.\<close>

theorem cidr_matches_exact:
  "(cidr_valid c \<longrightarrow> (cidr_matches c ip net \<longleftrightarrow> same_prefix c ip net))
   \<and> (cidr_matches \<lparr>dc_v4 = 0, dc_v6 = 0\<rparr> ip net \<longleftrightarrow> ip = net)"
proof
  show "cidr_valid c \<longrightarrow> (cidr_matches c ip net \<longleftrightarrow> same_prefix c ip net)"
    using cidr_matches_same_prefix by blast
  show "cidr_matches \<lparr>dc_v4 = 0, dc_v6 = 0\<rparr> ip net \<longleftrightarrow> ip = net"
    by (auto simp: cidr_matches_def cidr_mask_def split: ip_addr.splits)
qed

theorem cidr_matches_exact_witness:
  "cidr_matches \<lparr>dc_v4 = 24, dc_v6 = 128\<rparr> (V4 0x0A000105) (V4 0x0A000100)"
  using cidr_matches_exact[of "\<lparr>dc_v4 = 24, dc_v6 = 128\<rparr>" "V4 0x0A000105" "V4 0x0A000100"]
  by (simp add: cidr_valid_def)

text \<open>A dual CIDR length without its IPv4 part, which RFC 7208 allows, is misread: in
  \<^verbatim>\<open>a:example.com//64\<close> the slash becomes part of the domain and 64 the IPv4 length, and \<^verbatim>\<open>a//64\<close> is
  refused.\<close>

theorem dual_cidr_v6_only_misread:
  "mechanism_parse ''a:example.com//64''
     = Inr (A (Some [Literal ''example.com/'']) \<lparr>dc_v4 = 64, dc_v6 = 128\<rparr>)
   \<and> \<not> is_ok (mechanism_parse ''a//64'')"
  by (simp add: mechanism_eval macro_parse_loop.simps)

end
