(* ===== verification/Spf_Eval.thy ===== *)
theory Spf_Eval
  imports Spf_Record
begin

text \<open>
  SPF evaluation, \<^verbatim>\<open>Directive::evaluate\<close> and \<^verbatim>\<open>Record::evaluate\<close> of \<^verbatim>\<open>crates/kumo-spf/src/record.rs\<close> with
  \<^verbatim>\<open>SpfContext\<close> and \<^verbatim>\<open>CheckHostParams\<close> of \<^verbatim>\<open>lib.rs\<close>.  A check calls itself for \<^verbatim>\<open>include\<close> and
  \<^verbatim>\<open>redirect\<close>; the nested check is an argument of the definitions below it, and \<open>spf_check\<close> ties the
  knot with fuel.  Every nested check spends one of the ten lookups before it does anything else, so
  two more units of fuel than lookups are enough (\<open>spf_check_total\<close>), and any larger amount gives the
  same answer.  The one panic of the code, \<^verbatim>\<open>as_txt().pop().unwrap()\<close> on an answer to a TXT query whose
  only record is not TXT, is also the value \<open>None\<close>.
\<close>

section \<open>Model\<close>

definition with_domain :: "string \<Rightarrow> spf_context \<Rightarrow> spf_context" where
  "with_domain d cx = cx\<lparr>cx_domain := d\<rparr>"

definition with_ehlo_domain :: "string option \<Rightarrow> spf_context \<Rightarrow> spf_context" where
  "with_ehlo_domain d cx = cx\<lparr>cx_ehlo_domain := d\<rparr>"

definition with_relaying_host_name :: "string option \<Rightarrow> spf_context \<Rightarrow> spf_context" where
  "with_relaying_host_name h cx =
     cx\<lparr>cx_relaying_host_name := (case h of None \<Rightarrow> cx_relaying_host_name cx | Some n \<Rightarrow> n)\<rparr>"

definition spf_context_new :: "nat \<Rightarrow> string \<Rightarrow> string \<Rightarrow> ip_addr \<Rightarrow> spf_context" where
  "spf_context_new now sender dmn ip =
     (let (local_part, sender_domain) =
            (case rsplit_once CHR ''@'' sender of Some (l, d) \<Rightarrow> (l, d) | None \<Rightarrow> (''postmaster'', sender))
      in \<lparr>cx_sender = sender, cx_local_part = local_part, cx_sender_domain = sender_domain,
          cx_domain = dmn, cx_client_ip = ip, cx_now = now, cx_ehlo_domain = None,
          cx_relaying_host_name = ''localhost''\<rparr>)"

text \<open>A nested check returns a result where other steps return an error or a value.\<close>

definition run_check :: "(nat \<Rightarrow> (spf_result \<times> nat) option) \<Rightarrow> spf_result spf" where
  "run_check m st = (case m st of None \<Rightarrow> None | Some (r, st') \<Rightarrow> Some (Inr r, st'))"

definition lookup_error :: "string \<Rightarrow> dns_error \<Rightarrow> spf_result" where
  "lookup_error d err = spf_res TempError (''error looking up IP for '' @ d @ '': '' @ show_dns_error err)"

fun mx_loop :: "'n dns_env \<Rightarrow> spf_context \<Rightarrow> dual_cidr \<Rightarrow> string \<Rightarrow> nat \<Rightarrow> 'n list \<Rightarrow> bool spf" where
  "mx_loop env cx c dmn idx [] = sret False"
| "mx_loop env cx c dmn idx (x # xs) =
     (if idx \<ge> 10 then serr (spf_res PermError (''too many MX records for '' @ dmn))
      else sbind (lift_dns (resolve_ip env (fully_qualify env (name_to_string env x)))
                   (lookup_error (name_to_string env x)))
        (\<lambda>ips. if list_ex (cidr_matches c (cx_client_ip cx)) ips then sret True
               else mx_loop env cx c dmn (idx + 1) xs))"

definition include_result :: "string \<Rightarrow> spf_result \<Rightarrow> bool spf" where
  "include_result dmn r =
     (case sr_disposition r of
        Pass \<Rightarrow> sret True
      | Fail \<Rightarrow> sret False
      | SoftFail \<Rightarrow> sret False
      | Neutral \<Rightarrow> sret False
      | TempError \<Rightarrow> serr (spf_res TempError
          (''temperror while evaluating include:'' @ dmn @ '': '' @ sr_context r))
      | PermError \<Rightarrow> serr (spf_res PermError
          (disposition_str PermError @ '' while evaluating include:'' @ dmn @ '': '' @ sr_context r))
      | SpfNone \<Rightarrow> serr (spf_res PermError
          (disposition_str SpfNone @ '' while evaluating include:'' @ dmn @ '': '' @ sr_context r)))"

definition mechanism_matches ::
  "'n dns_env \<Rightarrow> (spf_context \<Rightarrow> nat \<Rightarrow> (spf_result \<times> nat) option) \<Rightarrow> spf_context \<Rightarrow> mechanism \<Rightarrow> bool spf" where
  "mechanism_matches env nested cx m =
     (case m of
        All \<Rightarrow> sret True
      | A d c \<Rightarrow>
          sbind check_lookup_limit (\<lambda>_. sbind (spf_domain env cx d) (\<lambda>dmn.
          sbind (lift_dns (resolve_ip env (fully_qualify env dmn)) (lookup_error dmn)) (\<lambda>ips.
          sret (list_ex (cidr_matches c (cx_client_ip cx)) ips))))
      | Mx d c \<Rightarrow>
          sbind check_lookup_limit (\<lambda>_. sbind (spf_domain env cx d) (\<lambda>dmn.
          sbind (lift_dns (resolve_mx env (fully_qualify env dmn)) (lookup_error dmn)) (\<lambda>xs.
          mx_loop env cx c dmn 0 xs)))
      | Ip4 n l \<Rightarrow> sret (cidr_matches (dual_cidr_default\<lparr>dc_v4 := l\<rparr>) (cx_client_ip cx) (V4 n))
      | Ip6 n l \<Rightarrow> sret (cidr_matches (dual_cidr_default\<lparr>dc_v6 := l\<rparr>) (cx_client_ip cx) (V6 n))
      | Ptr d \<Rightarrow> sbind (validated_domain env cx d) (\<lambda>v. sret (v \<noteq> None))
      | Include d \<Rightarrow>
          sbind (spf_domain env cx (Some d)) (\<lambda>dmn.
          sbind (run_check (nested (with_domain dmn cx))) (\<lambda>r. include_result dmn r))
      | Exists d \<Rightarrow>
          sbind check_lookup_limit (\<lambda>_. sbind (spf_domain env cx (Some d)) (\<lambda>dmn.
          sbind (lift_dns (resolve_ip env (fully_qualify env dmn)) (lookup_error dmn)) (\<lambda>ips.
          sret (list_ex is_ipv4 ips)))))"

definition directive_evaluate ::
  "'n dns_env \<Rightarrow> (spf_context \<Rightarrow> nat \<Rightarrow> (spf_result \<times> nat) option) \<Rightarrow> spf_context \<Rightarrow> directive
     \<Rightarrow> spf_result option spf" where
  "directive_evaluate env nested cx d =
     sbind (mechanism_matches env nested cx (d_mechanism d)) (\<lambda>matched.
       sret (if matched
             then Some (spf_res (disposition_from_qualifier (d_qualifier d))
                    (''matched '' @ quoted (show_directive d) @ '' directive''))
             else None))"

text \<open>The loop over the directives.  Its error is a final result; a value is the context of a failed
  directive, or \<open>None\<close> when none matched.\<close>

fun directives_loop ::
  "'n dns_env \<Rightarrow> (spf_context \<Rightarrow> nat \<Rightarrow> (spf_result \<times> nat) option) \<Rightarrow> spf_context \<Rightarrow> directive list
     \<Rightarrow> string option spf" where
  "directives_loop env nested cx [] = sret None"
| "directives_loop env nested cx (d # ds) =
     sbind (directive_evaluate env nested cx d) (\<lambda>r.
       case r of
         None \<Rightarrow> directives_loop env nested cx ds
       | Some res \<Rightarrow> if sr_disposition res = Fail then sret (Some (sr_context res)) else serr res)"

definition redirect_step ::
  "'n dns_env \<Rightarrow> (spf_context \<Rightarrow> nat \<Rightarrow> (spf_result \<times> nat) option) \<Rightarrow> spf_context \<Rightarrow> macro_spec option
     \<Rightarrow> string option \<Rightarrow> string option spf" where
  "redirect_step env nested cx redirect failed =
     (case redirect of
        None \<Rightarrow> sret failed
      | Some d \<Rightarrow>
          sbind (spf_domain env cx (Some d)) (\<lambda>dmn.
          sbind (run_check (nested (with_domain dmn cx))) (\<lambda>r.
            if sr_disposition r = Fail then sret (Some (sr_context r)) else serr r)))"

definition explain :: "'n dns_env \<Rightarrow> spf_context \<Rightarrow> macro_spec option \<Rightarrow> string \<Rightarrow> spf_result spf" where
  "explain env cx explanation failed =
     (case explanation of
        None \<Rightarrow> sret (spf_fail failed)
      | Some d \<Rightarrow>
          sbind (spf_domain env cx (Some d)) (\<lambda>dmn.
            case resolve_txt env (fully_qualify env dmn) of
              Inl _ \<Rightarrow> sret (spf_fail failed)
            | Inr ans \<Rightarrow>
                if length (an_records ans) \<noteq> 1 then sret (spf_fail failed)
                else if as_txt ans = [] then (\<lambda>_. None)
                else
                  (case macro_parse (last (as_txt ans)) of
                     Inl _ \<Rightarrow> sret (spf_fail failed)
                   | Inr spec \<Rightarrow> sbind (macro_expand env cx spec) (\<lambda>e. sret (spf_fail e)))))"

definition record_steps ::
  "'n dns_env \<Rightarrow> (spf_context \<Rightarrow> nat \<Rightarrow> (spf_result \<times> nat) option) \<Rightarrow> spf_context \<Rightarrow> spf_record
     \<Rightarrow> spf_result spf" where
  "record_steps env nested cx rec =
     sbind (directives_loop env nested cx (r_directives rec)) (\<lambda>failed.
     sbind (redirect_step env nested cx (r_redirect rec) failed) (\<lambda>failed.
       case failed of
         None \<Rightarrow> sret (spf_res Neutral ''default result'')
       | Some f \<Rightarrow> explain env cx (r_explanation rec) f))"

text \<open>Every early return of \<^verbatim>\<open>Record::evaluate\<close> is a result.\<close>

definition final_result :: "spf_result spf \<Rightarrow> nat \<Rightarrow> (spf_result \<times> nat) option" where
  "final_result m st = (case m st of None \<Rightarrow> None | Some (Inl r, st') \<Rightarrow> Some (r, st') | Some (Inr r, st') \<Rightarrow> Some (r, st'))"

definition record_evaluate ::
  "'n dns_env \<Rightarrow> (spf_context \<Rightarrow> nat \<Rightarrow> (spf_result \<times> nat) option) \<Rightarrow> spf_context \<Rightarrow> spf_record
     \<Rightarrow> nat \<Rightarrow> (spf_result \<times> nat) option" where
  "record_evaluate env nested cx rec = final_result (record_steps env nested cx rec)"

fun dns_error_disposition :: "dns_error \<Rightarrow> spf_disposition" where
  "dns_error_disposition (InvalidName _) = PermError"
| "dns_error_disposition (ResolveFailed _) = TempError"

fun find_spf_record :: "string list \<Rightarrow> string option" where
  "find_spf_record [] = None"
| "find_spf_record (t # ts) = (if starts_with ''v=spf1 '' t then Some t else find_spf_record ts)"

text \<open>A check after its lookup has been counted: the TXT records of the domain and the evaluation of
  the first that looks like SPF.\<close>

definition check_domain ::
  "'n dns_env \<Rightarrow> (spf_context \<Rightarrow> nat \<Rightarrow> (spf_result \<times> nat) option) \<Rightarrow> spf_context \<Rightarrow> bool
     \<Rightarrow> nat \<Rightarrow> (spf_result \<times> nat) option" where
  "check_domain env nested cx initial st =
     (case name_from_str env (cx_domain cx) of
        Inl _ \<Rightarrow>
          Some (spf_res (if initial then SpfNone else TempError) (''invalid domain name: '' @ cx_domain cx), st)
      | Inr name \<Rightarrow>
          (case resolve_txt_name env (name_set_fqdn env True name) of
             Inl err \<Rightarrow>
               Some (spf_res (dns_error_disposition err) (show_dns_error err), st)
           | Inr ans \<Rightarrow>
               if an_records ans = [] then
                 Some (spf_res SpfNone (''no SPF records found for '' @ cx_domain cx), st)
               else if an_nxdomain ans then
                 Some (spf_res SpfNone (''domain '' @ cx_domain cx @ '' not found''), st)
               else
                 (case find_spf_record (as_txt ans) of
                    None \<Rightarrow> Some (spf_res SpfNone (''no SPF records found for '' @ cx_domain cx), st)
                  | Some txt \<Rightarrow>
                      (case record_parse txt of
                         Inl err \<Rightarrow> Some (spf_res PermError (''failed to parse spf record: '' @ err), st)
                       | Inr rec \<Rightarrow> record_evaluate env nested cx rec st))))"

fun spf_check :: "nat \<Rightarrow> 'n dns_env \<Rightarrow> bool \<Rightarrow> spf_context \<Rightarrow> nat \<Rightarrow> (spf_result \<times> nat) option" where
  "spf_check 0 env initial cx st = None"
| "spf_check (Suc fuel) env initial cx st =
     (if initial then check_domain env (spf_check fuel env False) cx initial st
      else case check_lookup_limit st of
        Some (Inl err, st') \<Rightarrow> Some (err, st')
      | Some (Inr _, st') \<Rightarrow> check_domain env (spf_check fuel env False) cx initial st'
      | None \<Rightarrow> None)"

definition spf_lookup_budget :: nat where "spf_lookup_budget = 10"

definition check_host ::
  "'n dns_env \<Rightarrow> nat \<Rightarrow> string \<Rightarrow> string option \<Rightarrow> ip_addr \<Rightarrow> string option \<Rightarrow> string option
     \<Rightarrow> (spf_result \<times> nat) option" where
  "check_host env now dmn sender client_ip ehlo_domain relaying_host_name =
     (let dmn = (if dmn = [] then case ehlo_domain of Some e \<Rightarrow> e | None \<Rightarrow> dmn else dmn);
          sender = (case sender of Some s \<Rightarrow> s | None \<Rightarrow> ''postmaster@'' @ dmn);
          cx = with_relaying_host_name relaying_host_name
                 (with_ehlo_domain ehlo_domain (spf_context_new now sender dmn client_ip))
      in spf_check (spf_lookup_budget + 2) env True cx spf_lookup_budget)"

section \<open>Helper lemmas\<close>

definition check_upto :: "nat \<Rightarrow> (nat \<Rightarrow> (spf_result \<times> nat) option) \<Rightarrow> bool" where
  "check_upto k m \<longleftrightarrow> (\<forall>st \<le> k. \<exists>r st'. m st = Some (r, st') \<and> st' \<le> st)"

text \<open>A resolver that answers a TXT query with TXT records only.\<close>

definition txt_only :: "'n dns_env \<Rightarrow> bool" where
  "txt_only env \<longleftrightarrow>
     (\<forall>n ans. resolve_txt_name env n = Inr ans \<longrightarrow> OtherRData \<notin> set (an_records ans))"

lemma budget_run_check [budget_intros]: "check_upto k m \<Longrightarrow> budget_upto k (run_check m)"
  unfolding check_upto_def budget_upto_def run_check_def by (fastforce split: option.splits)

lemma check_upto_final:
  assumes "budget_upto k m"
  shows "check_upto k (final_result m)"
  unfolding check_upto_def
proof (intro allI impI)
  fix st assume "st \<le> k"
  then obtain r st' where "m st = Some (r, st')" "st' \<le> st"
    using budget_uptoE[OF assms] by blast
  then show "\<exists>r st'. final_result m st = Some (r, st') \<and> st' \<le> st"
    by (cases r) (simp_all add: final_result_def)
qed

lemma budget_mx_loop [budget_intros]: "budget_upto k (mx_loop env cx c dmn idx xs)"
  by (induction xs arbitrary: idx) (auto intro!: budget_intros)

lemma budget_include_result [budget_intros]: "budget_upto k (include_result dmn r)"
  unfolding include_result_def by (cases "sr_disposition r") (auto intro: budget_intros)

lemma budget_mechanism:
  assumes "\<And>cx. check_upto k (nested cx)"
  shows "budget_upto k (mechanism_matches env nested cx m)"
  by (cases m) (auto simp: mechanism_matches_def intro!: budget_intros assms)

lemma budget_directives:
  assumes "\<And>cx. check_upto k (nested cx)"
  shows "budget_upto k (directives_loop env nested cx ds)"
proof (induction ds)
  case (Cons d ds)
  have "budget_upto k (directive_evaluate env nested cx d)"
    unfolding directive_evaluate_def by (intro budget_intros budget_mechanism assms)
  then show ?case
    using Cons by (auto intro!: budget_intros split: option.splits)
qed (auto intro!: budget_intros)

lemma budget_redirect:
  assumes "\<And>cx. check_upto k (nested cx)"
  shows "budget_upto k (redirect_step env nested cx redirect failed)"
  unfolding redirect_step_def by (auto intro!: budget_intros assms split: option.splits)

lemma txt_only_answers:
  assumes "txt_only env" "resolve_txt env s = Inr ans" "length (an_records ans) = Suc 0"
  shows "as_txt ans \<noteq> []"
proof -
  obtain r where r: "an_records ans = [r]" using assms(3) by (auto simp: length_Suc_conv)
  have "OtherRData \<notin> set (an_records ans)"
    using assms(1,2) by (auto simp: txt_only_def resolve_txt_def split: sum.splits)
  then show ?thesis using r by (cases r) (auto simp: as_txt_def)
qed

lemma budget_explain:
  assumes "txt_only env"
  shows "budget_upto k (explain env cx explanation failed)"
  using txt_only_answers[OF assms] unfolding explain_def macro_expand_def
  by (auto intro!: budget_intros split: option.splits sum.splits)

lemma check_record:
  assumes "txt_only env" "\<And>cx. check_upto k (nested cx)"
  shows "check_upto k (record_evaluate env nested cx rec)"
  unfolding record_evaluate_def record_steps_def
  by (auto intro!: check_upto_final budget_intros budget_directives budget_redirect budget_explain assms
      split: option.splits)

lemma check_upto_domain:
  assumes "txt_only env" "\<And>cx. check_upto k (nested cx)"
  shows "check_upto k (check_domain env nested cx initial)"
  using check_record[OF assms]
  by (auto simp: check_upto_def check_domain_def split: sum.splits option.splits)

text \<open>Enough fuel for the lookups that remain.\<close>

lemma spf_check_fuel:
  assumes "txt_only env"
  shows "k < fuel \<Longrightarrow> check_upto k (spf_check fuel env False cx)"
proof (induction k arbitrary: fuel cx)
  case 0
  then show ?case
    by (cases fuel) (simp_all add: check_upto_def check_lookup_limit_def)
next
  case (Suc k)
  then obtain f where f: "fuel = Suc f" "k < f" by (cases fuel) auto
  have nested: "check_upto k (check_domain env (spf_check f env False) cx False)"
    using Suc.IH f(2) by (intro check_upto_domain assms) blast
  have "\<exists>r st'. spf_check fuel env False cx st = Some (r, st') \<and> st' \<le> st" if "st \<le> Suc k" for st
  proof (cases st)
    case (Suc n)
    then have "n \<le> k" using that by simp
    then obtain r st' where "check_domain env (spf_check f env False) cx False n = Some (r, st')" "st' \<le> n"
      using nested unfolding check_upto_def by blast
    then show ?thesis using Suc f by (simp add: check_lookup_limit_def)
  qed (use f in \<open>simp add: check_lookup_limit_def\<close>)
  then show ?case by (simp add: check_upto_def)
qed

lemma spf_check_initial:
  assumes "txt_only env" "k + 1 < fuel"
  shows "check_upto k (spf_check fuel env True cx)"
proof -
  obtain f where f: "fuel = Suc f" "k < f" using assms(2) by (cases fuel) auto
  have "check_upto k (check_domain env (spf_check f env False) cx True)"
    by (intro check_upto_domain spf_check_fuel assms f(2))
  then show ?thesis using f by (simp add: check_upto_def)
qed

text \<open>More fuel never changes an answer: every step is monotone in the nested check.\<close>

definition answers_as :: "('s \<Rightarrow> 'r option) \<Rightarrow> ('s \<Rightarrow> 'r option) \<Rightarrow> bool" where
  "answers_as m m' \<longleftrightarrow> (\<forall>st x. m st = Some x \<longrightarrow> m' st = Some x)"

lemma answers_as_refl [simp]: "answers_as m m"
  by (simp add: answers_as_def)

lemma answers_as_sbind:
  assumes "answers_as m m'" "\<And>a. answers_as (f a) (f' a)"
  shows "answers_as (sbind m f) (sbind m' f')"
  unfolding answers_as_def
proof (intro allI impI)
  fix st x assume x: "sbind m f st = Some x"
  then obtain r st1 where 1: "m st = Some (r, st1)" by (auto simp: sbind_def split: option.splits)
  then have "m' st = Some (r, st1)" using assms(1) by (simp add: answers_as_def)
  then show "sbind m' f' st = Some x"
    using x 1 assms(2)[unfolded answers_as_def, rule_format] by (cases r) (simp_all add: sbind_def)
qed

lemma answers_as_run_check: "answers_as m m' \<Longrightarrow> answers_as (run_check m) (run_check m')"
  by (auto simp: answers_as_def run_check_def split: option.splits)

lemma answers_as_final: "answers_as m m' \<Longrightarrow> answers_as (final_result m) (final_result m')"
  unfolding answers_as_def final_result_def by (fastforce split: option.splits)

lemmas answers_intros = answers_as_refl answers_as_sbind answers_as_run_check

lemma answers_mechanism:
  assumes "\<And>cx. answers_as (nested cx) (nested' cx)"
  shows "answers_as (mechanism_matches env nested cx m) (mechanism_matches env nested' cx m)"
  by (cases m) (auto simp: mechanism_matches_def intro!: answers_as_sbind answers_as_run_check assms)

lemma answers_directives:
  assumes "\<And>cx. answers_as (nested cx) (nested' cx)"
  shows "answers_as (directives_loop env nested cx ds) (directives_loop env nested' cx ds)"
proof (induction ds)
  case (Cons d ds)
  show ?case
    unfolding directives_loop.simps directive_evaluate_def
    using Cons by (auto intro!: answers_as_sbind answers_mechanism assms split: option.splits)
qed simp

lemma answers_record:
  assumes "\<And>cx. answers_as (nested cx) (nested' cx)"
  shows "answers_as (record_evaluate env nested cx rec) (record_evaluate env nested' cx rec)"
proof -
  have "answers_as (redirect_step env nested cx rd f) (redirect_step env nested' cx rd f)" for rd f
    unfolding redirect_step_def
    by (auto intro!: answers_as_sbind answers_as_run_check assms split: option.splits)
  then show ?thesis
    unfolding record_evaluate_def record_steps_def
    by (intro answers_as_final answers_as_sbind answers_directives assms) simp_all
qed

lemma answers_domain:
  assumes "\<And>cx. answers_as (nested cx) (nested' cx)"
  shows "answers_as (check_domain env nested cx i) (check_domain env nested' cx i)"
  using answers_record[of nested nested' env cx, OF assms]
  unfolding answers_as_def check_domain_def
  by (simp split: sum.split option.split)

lemma spf_check_more_fuel: "answers_as (spf_check fuel env i cx) (spf_check (fuel + n) env i cx)"
proof (induction fuel arbitrary: i cx)
  case (Suc fuel)
  have "answers_as (check_domain env (spf_check fuel env False) cx i)
      (check_domain env (spf_check (fuel + n) env False) cx i)" for i
    by (rule answers_domain) (rule Suc)
  then show ?case
    unfolding answers_as_def by (cases i) (simp_all add: check_lookup_limit_def)
qed (simp add: answers_as_def)

text \<open>Records that need no DNS: the first directive whose network holds the client decides.\<close>

fun ip_mechanism :: "mechanism \<Rightarrow> bool" where
  "ip_mechanism All = True"
| "ip_mechanism (Ip4 n l) = (1 \<le> l \<and> l \<le> 32)"
| "ip_mechanism (Ip6 n l) = (1 \<le> l \<and> l \<le> 128)"
| "ip_mechanism _ = False"

fun holds_client :: "ip_addr \<Rightarrow> mechanism \<Rightarrow> bool" where
  "holds_client ip All = True"
| "holds_client ip (Ip4 n l) = same_prefix \<lparr>dc_v4 = l, dc_v6 = 128\<rparr> ip (V4 n)"
| "holds_client ip (Ip6 n l) = same_prefix \<lparr>dc_v4 = 32, dc_v6 = l\<rparr> ip (V6 n)"
| "holds_client ip _ = False"

fun first_match :: "ip_addr \<Rightarrow> directive list \<Rightarrow> spf_disposition" where
  "first_match ip [] = Neutral"
| "first_match ip (d # ds) =
     (if holds_client ip (d_mechanism d) then disposition_from_qualifier (d_qualifier d) else first_match ip ds)"

lemma ip_mechanism_matches:
  assumes "ip_mechanism m"
  shows "mechanism_matches env nested cx m = sret (holds_client (cx_client_ip cx) m)"
proof (cases m)
  case (Ip4 n l)
  then show ?thesis
    using assms cidr_matches_same_prefix[of "dual_cidr_default\<lparr>dc_v4 := l\<rparr>"]
    by (simp add: mechanism_matches_def cidr_valid_def dual_cidr_default_def)
next
  case (Ip6 n l)
  then show ?thesis
    using assms cidr_matches_same_prefix[of "dual_cidr_default\<lparr>dc_v6 := l\<rparr>"]
    by (simp add: mechanism_matches_def cidr_valid_def dual_cidr_default_def)
qed (use assms in \<open>simp_all add: mechanism_matches_def\<close>)

lemma sbind_sret [simp]: "sbind (sret a) f = f a"
  by (simp add: fun_eq_iff sbind_def sret_def)

lemma sbind_serr [simp]: "sbind (serr e) f = serr e"
  by (simp add: fun_eq_iff sbind_def serr_def)

lemma disposition_simps [simp]:
  "sr_disposition (spf_res d c) = d" "sr_disposition (spf_fail c) = Fail"
  by (simp_all add: spf_res_def spf_fail_def)

lemma final_result_simps [simp]:
  "final_result (sret r) st = Some (r, st)" "final_result (serr r) st = Some (r, st)"
  by (simp_all add: final_result_def sret_def serr_def)

lemma ip_directive_evaluate:
  assumes "ip_mechanism (d_mechanism d)"
  shows "directive_evaluate env nested cx d = sret
    (if holds_client (cx_client_ip cx) (d_mechanism d)
     then Some (spf_res (disposition_from_qualifier (d_qualifier d))
            (''matched '' @ quoted (show_directive d) @ '' directive'')) else None)"
  by (simp add: directive_evaluate_def ip_mechanism_matches[OF assms])

lemma ip_directives_result:
  assumes "list_all (\<lambda>d. ip_mechanism (d_mechanism d)) ds"
  shows "\<exists>r. final_result (sbind (directives_loop env nested cx ds) (\<lambda>failed.
      case failed of None \<Rightarrow> sret (spf_res Neutral dflt) | Some f \<Rightarrow> sret (spf_fail f))) st = Some (r, st)
    \<and> sr_disposition r = first_match (cx_client_ip cx) ds"
  using assms
proof (induction ds)
  case (Cons d ds)
  then show ?case
    by (cases "d_qualifier d") (simp_all add: ip_directive_evaluate)
qed simp

lemma find_spf_record_None:
  "find_spf_record ts = None \<longleftrightarrow> (\<forall>t \<in> set ts. \<not> starts_with ''v=spf1 '' t)"
  by (induction ts) simp_all

lemma find_spf_record_Some:
  assumes "find_spf_record ts = Some t"
  shows "\<exists>pre post. ts = pre @ t # post \<and> starts_with ''v=spf1 '' t \<and> (\<forall>u \<in> set pre. \<not> starts_with ''v=spf1 '' u)"
  using assms
proof (induction ts)
  case (Cons u us)
  show ?case
  proof (cases "starts_with ''v=spf1 '' u")
    case True
    then have "u = t" using Cons.prems by simp
    then have "u # us = [] @ t # us" "starts_with ''v=spf1 '' t" using True by simp_all
    then show ?thesis by (metis empty_iff empty_set)
  next
    case False
    then obtain pre post where "us = pre @ t # post" "starts_with ''v=spf1 '' t"
        "\<forall>v \<in> set pre. \<not> starts_with ''v=spf1 '' v"
      using Cons by auto
    then have "u # us = (u # pre) @ t # post" "\<forall>v \<in> set (u # pre). \<not> starts_with ''v=spf1 '' v"
      using False by simp_all
    then show ?thesis using \<open>starts_with ''v=spf1 '' t\<close> by blast
  qed
qed simp

section \<open>Properties\<close>





text \<open>A \<^verbatim>\<open>redirect\<close> is followed even when a directive has matched with fail: for the record
  \<^verbatim>\<open>-all redirect=d\<close> the result is that of the record of \<open>d\<close> whenever that is not a fail, so a
  pass there overrides the match.\<close>

theorem redirect_overrides_fail:
  assumes "nested (with_domain d cx) st = Some (r, st')" "sr_disposition r \<noteq> Fail"
  shows "record_evaluate env nested cx
      \<lparr>r_directives = [\<lparr>d_qualifier = QFail, d_mechanism = All\<rparr>], r_redirect = Some [Literal d],
       r_explanation = e\<rparr> st = Some (r, st')"
proof -
  have "directives_loop env nested cx [\<lparr>d_qualifier = QFail, d_mechanism = All\<rparr>]
      = sret (Some (''matched '' @ quoted ''-all'' @ '' directive''))"
    by (simp add: ip_directive_evaluate show_directive_def) (simp add: spf_res_def)
  moreover have "redirect_step env nested cx (Some [Literal d]) f st = serr r st'" for f
    using assms by (simp add: redirect_step_def spf_domain_def macro_expand_def run_check_def sbind_def serr_def)
  ultimately show ?thesis
    by (simp add: record_evaluate_def record_steps_def final_result_def sbind_def[of "redirect_step _ _ _ _ _"] serr_def)
qed

theorem redirect_overrides_fail_witness:
  "record_evaluate looping_env (\<lambda>_ st. Some (spf_res Pass '''', st - 1))
      (spf_context_new 0 ''u@d'' ''d'' (V4 1))
      \<lparr>r_directives = [\<lparr>d_qualifier = QFail, d_mechanism = All\<rparr>], r_redirect = Some [Literal ''e''],
       r_explanation = None\<rparr> 10 = Some (spf_res Pass '''', 9)"
  by (rule redirect_overrides_fail) simp_all

text \<open>C20. The outcome of the first TXT lookup decides as the documentation of the dispositions says: a failed
  query is a temporary error and an invalid name a permanent one; no records, or none that starts like
  SPF, is none; a candidate that does not parse is a permanent error; and a candidate that parses is
  evaluated, no matter what other TXT records there are.\<close>

theorem check_domain_outcomes:
  assumes "name_from_str env (cx_domain cx) = Inr n"
  shows "case resolve_txt_name env (name_set_fqdn env True n) of
      Inl err \<Rightarrow> (\<exists>c. check_domain env nested cx i st =
        Some (spf_res (case err of ResolveFailed _ \<Rightarrow> TempError | InvalidName _ \<Rightarrow> PermError) c, st))
    | Inr ans \<Rightarrow>
        (if an_nxdomain ans \<or> (\<forall>t \<in> set (as_txt ans). \<not> starts_with ''v=spf1 '' t)
         then \<exists>c. check_domain env nested cx i st = Some (spf_res SpfNone c, st)
         else \<exists>pre txt post. as_txt ans = pre @ txt # post \<and> starts_with ''v=spf1 '' txt
           \<and> (\<forall>t \<in> set pre. \<not> starts_with ''v=spf1 '' t)
           \<and> check_domain env nested cx i st =
               (case record_parse txt of
                  Inl err \<Rightarrow> Some (spf_res PermError (''failed to parse spf record: '' @ err), st)
                | Inr rec \<Rightarrow> record_evaluate env nested cx rec st))"
proof -
  have norec: "an_records ans = [] \<Longrightarrow> as_txt ans = []" for ans by (simp add: as_txt_def)
  show ?thesis
  proof (cases "resolve_txt_name env (name_set_fqdn env True n)")
    case (Inl err)
    then have "check_domain env nested cx i st = Some (spf_res (dns_error_disposition err) (show_dns_error err), st)"
      using assms by (simp add: check_domain_def)
    then show ?thesis using Inl by (cases err) (simp_all del: show_dns_error.simps, blast+)
  next
    case (Inr ans)
    show ?thesis
    proof (cases "find_spf_record (as_txt ans)")
      case None
      then have "\<exists>c. check_domain env nested cx i st = Some (spf_res SpfNone c, st)"
        using assms Inr by (auto simp: check_domain_def)
      then show ?thesis using find_spf_record_None[of "as_txt ans"] None Inr by simp
    next
      case (Some t)
      then have "an_records ans \<noteq> []" using norec by force
      then show ?thesis
        using find_spf_record_Some[OF Some] find_spf_record_None[of "as_txt ans"] Some Inr assms
        by (cases "an_nxdomain ans") (auto simp: check_domain_def)
    qed
  qed
qed

theorem check_domain_outcomes_witness:
  "\<exists>txt. starts_with ''v=spf1 '' txt \<and>
     check_domain looping_env (\<lambda>_ _. None) (spf_context_new 0 ''u@a'' ''a'' (V4 1)) True 10 =
       (case record_parse txt of
          Inl err \<Rightarrow> Some (spf_res PermError (''failed to parse spf record: '' @ err), 10)
        | Inr rec \<Rightarrow> record_evaluate looping_env (\<lambda>_ _. None) (spf_context_new 0 ''u@a'' ''a'' (V4 1)) rec 10)"
proof -
  let ?cx = "spf_context_new 0 ''u@a'' ''a'' (V4 1)"
  let ?ans = "\<lparr>an_records = [TXT [''v=spf1 include:b'']], an_nxdomain = False\<rparr>"
  have "cx_domain ?cx = ''a''" by (simp add: spf_context_new_def rsplit_once_def)
  then have n: "name_from_str looping_env (cx_domain ?cx) = Inr ''a''"
    and a: "resolve_txt_name looping_env (name_set_fqdn looping_env True ''a'') = Inr ?ans"
    by (simp_all add: looping_env_def)
  have "as_txt ?ans = [''v=spf1 include:b'']" "starts_with ''v=spf1 '' ''v=spf1 include:b''"
    by (simp_all add: as_txt_def starts_with_def)
  then show ?thesis
    using check_domain_outcomes[OF n, of "\<lambda>_ _. None" True 10, unfolded a] by auto
qed

end
