(* ===== verification/Dmarc_Eval.thy ===== *)
theory Dmarc_Eval
  imports Dmarc_Record Spf_Eval
begin

text \<open>
  The evaluation of DMARC, \<^verbatim>\<open>crates/kumo-dmarc/src/lib.rs\<close> and \<^verbatim>\<open>types/record.rs\<close>, with the functions that
  \<^verbatim>\<open>crates/kumod/src/spf.rs\<close> and \<^verbatim>\<open>dmarc.rs\<close> offer to the policy script: the discovery of the record, the
  alignment of DKIM and SPF results, the disposition, the log of failures and the aggregation of that
  log.  The public suffix list is a library: \<^verbatim>\<open>psl\<close> is the function from a domain to its organizational
  domain.  The random byte, the time and the log file are arguments; the lines of the file are the
  records that were written to it.
\<close>

section \<open>Data\<close>

record authentication_result =
  ar_method :: string
  ar_method_version :: "nat option"
  ar_result :: string
  ar_reason :: "string option"
  ar_props :: "string \<rightharpoonup> string"

datatype sender_domain_alignment = Exact | OrganizationalDomain

datatype dmarc_result = DmarcPass | DmarcFail

datatype disposition = DispPass | DispNone | DispQuarantine | DispReject | DispTempError | DispPermError

fun disposition_to_string :: "disposition \<Rightarrow> string" where
  "disposition_to_string DispNone = ''None''"
| "disposition_to_string DispPass = ''Pass''"
| "disposition_to_string DispQuarantine = ''Quarantine''"
| "disposition_to_string DispReject = ''Reject''"
| "disposition_to_string DispTempError = ''TempError''"
| "disposition_to_string DispPermError = ''PermError''"

fun disposition_of_policy :: "policy \<Rightarrow> disposition" where
  "disposition_of_policy PolicyNone = DispNone"
| "disposition_of_policy PolicyQuarantine = DispQuarantine"
| "disposition_of_policy PolicyReject = DispReject"

record disposition_with_context =
  dc_result :: disposition
  dc_context :: string
  dc_props :: "string \<rightharpoonup> string"

definition disposition_with :: "disposition \<Rightarrow> string \<Rightarrow> disposition_with_context" where
  "disposition_with d c = \<lparr>dc_result = d, dc_context = c, dc_props = Map.empty\<rparr>"

datatype dkim_result = DkimNone | DkimPass | DkimFail | DkimPolicy | DkimNeutral | DkimTempError | DkimPermError

definition dkim_result_from_string :: "string \<Rightarrow> dkim_result" where
  "dkim_result_from_string s =
     (let v = to_ascii_lowercase s in
      if v = ''none'' then DkimNone else if v = ''pass'' then DkimPass else if v = ''fail'' then DkimFail
      else if v = ''policy'' then DkimPolicy else if v = ''neutral'' then DkimNeutral
      else if v = ''temperror'' then DkimTempError else if v = ''permerror'' then DkimPermError else DkimNone)"

record dkim_auth_result =
  da_domain :: string
  da_selector :: "string option"
  da_result :: dkim_result
  da_human_result :: "string option"

definition dkim_auth_result_from :: "authentication_result \<Rightarrow> dkim_auth_result" where
  "dkim_auth_result_from a =
     \<lparr>da_domain = (case ar_props a ''header.d'' of Some d \<Rightarrow> d | None \<Rightarrow> []), da_selector = ar_props a ''header.s'',
      da_result = dkim_result_from_string (ar_result a), da_human_result = Some (ar_result a)\<rparr>"

datatype spf_scope = Helo | Mfrom

record spf_auth_result =
  sa_domain :: string
  sa_scope :: spf_scope
  sa_result :: spf_disposition

definition spf_auth_result_from :: "authentication_result \<Rightarrow> spf_auth_result" where
  "spf_auth_result_from a =
     \<lparr>sa_domain = (case ar_props a ''header.d'' of Some d \<Rightarrow> d | None \<Rightarrow> []), sa_scope = Mfrom,
      sa_result = disposition_from_string (ar_result a)\<rparr>"

record auth_results =
  au_dkim :: "dkim_auth_result list"
  au_spf :: "spf_auth_result list"

record policy_evaluated =
  pv_disposition :: policy
  pv_dkim :: dmarc_result
  pv_spf :: dmarc_result

record report_identifier =
  id_envelope_to :: "string list"
  id_envelope_from :: "string list"
  id_header_from :: string

record reporting_info =
  ri_org_name :: string
  ri_email :: string
  ri_extra_contact_info :: "string option"

record error_record =
  er_version :: string
  er_org_name :: string
  er_email :: string
  er_extra_contact_info :: "string option"
  er_when :: int
  er_error :: string
  er_domain :: string
  er_align_dkim :: "mode option"
  er_align_spf :: "mode option"
  er_policy :: policy
  er_subdomain_policy :: policy
  er_rate :: nat
  er_report_failure :: report_failure
  er_source_ip :: ip_addr
  er_policy_evaluated :: policy_evaluated
  er_identifier :: report_identifier
  er_auth_results :: auth_results

record dmarc_context =
  dx_from_domain :: string
  dx_mail_from_domain :: "string option"
  dx_recipient_list :: "string list"
  dx_received_from :: string
  dx_dkim_results :: "authentication_result list"
  dx_spf_result :: authentication_result
  dx_dkim_aligned :: dmarc_result
  dx_spf_aligned :: dmarc_result
  dx_reporting_info :: "reporting_info option"

definition dmarc_context_new ::
  "string \<Rightarrow> string option \<Rightarrow> string list \<Rightarrow> string \<Rightarrow> authentication_result list \<Rightarrow> authentication_result
     \<Rightarrow> reporting_info option \<Rightarrow> dmarc_context" where
  "dmarc_context_new from mail_from rcpts received dkim spf reporting =
     \<lparr>dx_from_domain = from, dx_mail_from_domain = mail_from, dx_recipient_list = rcpts, dx_received_from = received,
      dx_dkim_results = dkim, dx_spf_result = spf, dx_dkim_aligned = DmarcPass, dx_spf_aligned = DmarcPass,
      dx_reporting_info = reporting\<rparr>"

section \<open>Alignment\<close>

definition normalize_domain :: "string \<Rightarrow> string" where
  "normalize_domain s = to_ascii_lowercase (case strip_suffix ''.'' s of Some t \<Rightarrow> t | None \<Rightarrow> s)"

definition is_relaxed_aligned :: "(string \<Rightarrow> string option) \<Rightarrow> string \<Rightarrow> string \<Rightarrow> bool" where
  "is_relaxed_aligned psl from signing =
     (case (psl (normalize_domain from), psl (normalize_domain signing)) of
        (Some fd, Some sd) \<Rightarrow> fd = sd
      | _ \<Rightarrow> False)"

definition is_strict_aligned :: "string \<Rightarrow> string \<Rightarrow> bool" where
  "is_strict_aligned from signing \<longleftrightarrow> normalize_domain from = normalize_domain signing"

definition is_aligned :: "mode \<Rightarrow> (string \<Rightarrow> string option) \<Rightarrow> string \<Rightarrow> string \<Rightarrow> bool" where
  "is_aligned m psl = (case m of Relaxed \<Rightarrow> is_relaxed_aligned psl | Strict \<Rightarrow> is_strict_aligned)"

definition auth_result_is_pass :: "authentication_result \<Rightarrow> bool" where
  "auth_result_is_pass a = eq_ignore_ascii_case (ar_result a) ''pass''"

text \<open>The check of \<^verbatim>\<open>to_str\<close> that the bytes are UTF-8.\<close>

definition utf8_cont :: "nat \<Rightarrow> bool" where
  "utf8_cont b \<longleftrightarrow> 128 \<le> b \<and> b < 192"

fun utf8_valid :: "nat list \<Rightarrow> bool" where
  "utf8_valid [] = True"
| "utf8_valid (b # bs) =
     (if b < 128 then utf8_valid bs
      else if 194 \<le> b \<and> b < 224 then
        (case bs of c # r \<Rightarrow> utf8_cont c \<and> utf8_valid r | [] \<Rightarrow> False)
      else if 224 \<le> b \<and> b < 240 then
        (case bs of
           c # d # r \<Rightarrow> utf8_cont c \<and> (b = 224 \<longrightarrow> 160 \<le> c) \<and> (b = 237 \<longrightarrow> c < 160) \<and> utf8_cont d \<and> utf8_valid r
         | _ \<Rightarrow> False)
      else if 240 \<le> b \<and> b < 245 then
        (case bs of
           c # d # e # r \<Rightarrow>
             utf8_cont c \<and> (b = 240 \<longrightarrow> 144 \<le> c) \<and> (b = 244 \<longrightarrow> c < 144) \<and> utf8_cont d \<and> utf8_cont e \<and> utf8_valid r
         | _ \<Rightarrow> False)
      else False)"

definition to_str :: "string \<Rightarrow> string option" where
  "to_str s = (if utf8_valid (map of_char s) then Some s else None)"

text \<open>The loop over the DKIM results: whether one is aligned, and the errors.\<close>

fun dkim_loop ::
  "(string \<Rightarrow> bool) \<Rightarrow> string \<Rightarrow> authentication_result list \<Rightarrow> string list \<Rightarrow> dmarc_result \<times> string list" where
  "dkim_loop aligned failed [] errors = (DmarcFail, errors)"
| "dkim_loop aligned failed (dkim # rest) errors =
     (if \<not> auth_result_is_pass dkim then dkim_loop aligned failed rest errors
      else case ar_props dkim ''header.d'' of
        None \<Rightarrow> dkim_loop aligned failed rest (errors @ [''DMARC: DKIM signature missing 'd=' tag''])
      | Some dmn \<Rightarrow>
          (case to_str dmn of
             Some d \<Rightarrow>
               if aligned d then (DmarcPass, []) else dkim_loop aligned failed rest (errors @ [failed])
           | None \<Rightarrow> dkim_loop aligned failed rest (errors @ [failed])))"

definition spf_alignment_domain :: "(string \<rightharpoonup> string) \<Rightarrow> string option" where
  "spf_alignment_domain props =
     (case Option.bind (case props ''smtp.mailfrom'' of Some d \<Rightarrow> if d \<noteq> [] then Some d else None | None \<Rightarrow> None) to_str of
        Some s \<Rightarrow> Some (case rsplit_once CHR ''@'' s of Some (_, d) \<Rightarrow> d | None \<Rightarrow> s)
      | None \<Rightarrow>
          Option.bind (case props ''smtp.helo'' of Some d \<Rightarrow> if d \<noteq> [] then Some d else None | None \<Rightarrow> None) to_str)"

definition spf_step ::
  "(string \<Rightarrow> bool) \<Rightarrow> string \<Rightarrow> authentication_result \<Rightarrow> string option \<Rightarrow> dmarc_result \<times> string list" where
  "spf_step aligned failed spf mail_from =
     (if auth_result_is_pass spf then
        (case (case spf_alignment_domain (ar_props spf) of Some d \<Rightarrow> Some d | None \<Rightarrow> mail_from) of
           Some d \<Rightarrow> if aligned d then (DmarcPass, []) else (DmarcFail, [failed])
         | None \<Rightarrow> (DmarcFail, []))
      else (DmarcFail, []))"

definition policy_result :: "dmarc_record \<Rightarrow> sender_domain_alignment \<Rightarrow> policy" where
  "policy_result r a =
     (case a of
        OrganizationalDomain \<Rightarrow> (case subdomain_policy r of Some p \<Rightarrow> p | None \<Rightarrow> dmarc_policy r)
      | Exact \<Rightarrow> dmarc_policy r)"

definition record_disposition :: "dmarc_record \<Rightarrow> sender_domain_alignment \<Rightarrow> disposition" where
  "record_disposition r a = disposition_of_policy (policy_result r a)"

section \<open>The log of failures\<close>

definition parse_ip :: "string \<Rightarrow> ip_addr option" where
  "parse_ip s = (case parse_ipv4 s of Some a \<Rightarrow> Some (V4 a) | None \<Rightarrow> map_option V6 (parse_ipv6 s))"

definition make_error_record ::
  "dmarc_context \<Rightarrow> int \<Rightarrow> reporting_info \<Rightarrow> ip_addr \<Rightarrow> dmarc_record \<Rightarrow> string \<Rightarrow> sender_domain_alignment \<Rightarrow> string
     \<Rightarrow> error_record" where
  "make_error_record cx now info ip r dmarc_domain align err =
     \<lparr>er_version = ''1.0'', er_org_name = ri_org_name info, er_email = ri_email info,
      er_extra_contact_info = ri_extra_contact_info info, er_when = now, er_error = err, er_domain = dmarc_domain,
      er_align_dkim = Some (align_dkim r), er_align_spf = Some (align_spf r), er_policy = dmarc_policy r,
      er_subdomain_policy = (case subdomain_policy r of Some p \<Rightarrow> p | None \<Rightarrow> dmarc_policy r), er_rate = rate r,
      er_report_failure = report_failure r, er_source_ip = ip,
      er_policy_evaluated = \<lparr>pv_disposition = policy_result r align, pv_dkim = dx_dkim_aligned cx, pv_spf = dx_spf_aligned cx\<rparr>,
      er_identifier = \<lparr>id_envelope_to = dx_recipient_list cx,
                       id_envelope_from = (case dx_mail_from_domain cx of Some d \<Rightarrow> [d] | None \<Rightarrow> []),
                       id_header_from = dx_from_domain cx\<rparr>,
      er_auth_results = \<lparr>au_dkim = map dkim_auth_result_from (dx_dkim_results cx),
                         au_spf = [spf_auth_result_from (dx_spf_result cx)]\<rparr>\<rparr>"

text \<open>The log is \<^const>\<open>None\<close> when the file cannot be opened; the errors are discarded by the caller.\<close>

definition report_error ::
  "dmarc_context \<Rightarrow> int \<Rightarrow> dmarc_record \<Rightarrow> string \<Rightarrow> sender_domain_alignment \<Rightarrow> string \<Rightarrow> error_record list option
     \<Rightarrow> error_record list option" where
  "report_error cx now r dmarc_domain align err log =
     (case parse_ip (dx_received_from cx) of
        None \<Rightarrow> log
      | Some ip \<Rightarrow>
          (case dx_reporting_info cx of
             None \<Rightarrow> log
           | Some info \<Rightarrow> map_option (\<lambda>ls. ls @ [make_error_record cx now info ip r dmarc_domain align err]) log))"

section \<open>Evaluation of a record\<close>

definition dkim_failed :: "mode \<Rightarrow> string" where
  "dkim_failed m =
     (case m of Relaxed \<Rightarrow> ''DMARC: DKIM relaxed check failed'' | Strict \<Rightarrow> ''DMARC: DKIM strict check failed'')"

definition spf_failed :: "mode \<Rightarrow> string" where
  "spf_failed m =
     (case m of Relaxed \<Rightarrow> ''DMARC: SPF relaxed check failed'' | Strict \<Rightarrow> ''DMARC: SPF strict check failed'')"

definition sampled_out :: "dmarc_record \<Rightarrow> nat \<Rightarrow> bool" where
  "sampled_out r rnd \<longleftrightarrow> rnd mod 100 \<ge> rate r"

definition dmarc_evaluate ::
  "(string \<Rightarrow> string option) \<Rightarrow> nat \<Rightarrow> int \<Rightarrow> dmarc_record \<Rightarrow> string \<Rightarrow> sender_domain_alignment
     \<Rightarrow> dmarc_context \<times> error_record list option
     \<Rightarrow> disposition_with_context \<times> dmarc_context \<times> error_record list option" where
  "dmarc_evaluate psl rnd now r dmarc_domain align st =
     (let cx = (fst st)\<lparr>dx_dkim_aligned := DmarcFail, dx_spf_aligned := DmarcFail\<rparr>; log = snd st in
      if sampled_out r rnd then
        (disposition_with DispPass (''sampled_out due to pct='' @ show_nat (rate r)), cx, log)
      else
        (let (dkim, dkim_errors) =
               dkim_loop (is_aligned (align_dkim r) psl (dx_from_domain cx)) (dkim_failed (align_dkim r))
                 (dx_dkim_results cx) [];
             (spf, spf_errors) =
               spf_step (is_aligned (align_spf r) psl (dx_from_domain cx)) (spf_failed (align_spf r))
                 (dx_spf_result cx) (dx_mail_from_domain cx);
             cx = cx\<lparr>dx_dkim_aligned := dkim, dx_spf_aligned := spf\<rparr>
         in if dkim = DmarcPass \<or> spf = DmarcPass then (disposition_with DispPass ''Success'', cx, log)
            else case spf_errors @ dkim_errors of
              err # _ \<Rightarrow>
                (disposition_with (record_disposition r align) err, cx, report_error cx now r dmarc_domain align err log)
            | [] \<Rightarrow> (disposition_with (record_disposition r align) ''No aligned DKIM or SPF'', cx, log)))"

section \<open>Discovery of the record\<close>

datatype dmarc_resolution = ResTempError | ResPermError | ResRecords "dmarc_record list"

definition fetch_dmarc_records :: "'n dns_env \<Rightarrow> string \<Rightarrow> dmarc_resolution" where
  "fetch_dmarc_records env address =
     (case resolve_txt env address of
        Inl _ \<Rightarrow> ResTempError
      | Inr ans \<Rightarrow>
          if an_records ans = [] \<or> an_nxdomain ans then ResPermError
          else
            (let records = concat (map (\<lambda>txt. if starts_with ''v=DMARC1;'' txt then
                                              (case dmarc_record_from_str txt of Inr r \<Rightarrow> [r] | Inl _ \<Rightarrow> [])
                                            else []) (as_txt ans))
             in if records = [] then ResPermError else ResRecords records))"

definition policy_tags :: "dmarc_record \<Rightarrow> (string \<rightharpoonup> string)" where
  "policy_tags r k = (case strip_prefix ''policy.'' k of Some t \<Rightarrow> tags r t | None \<Rightarrow> None)"

text \<open>The first of the records decides.\<close>

definition evaluate_first ::
  "(string \<Rightarrow> string option) \<Rightarrow> nat \<Rightarrow> int \<Rightarrow> dmarc_record list \<Rightarrow> string \<Rightarrow> sender_domain_alignment
     \<Rightarrow> dmarc_context \<times> error_record list option
     \<Rightarrow> (disposition_with_context \<times> dmarc_context \<times> error_record list option) option" where
  "evaluate_first psl rnd now records dmarc_domain align st =
     (case records of
        [] \<Rightarrow> None
      | r # _ \<Rightarrow>
          (let (d, st') = dmarc_evaluate psl rnd now r dmarc_domain align st
           in Some (d\<lparr>dc_props := dc_props d ++ policy_tags r\<rparr>, st')))"

definition dmarc_check ::
  "'n dns_env \<Rightarrow> (string \<Rightarrow> string option) \<Rightarrow> nat \<Rightarrow> int \<Rightarrow> dmarc_context \<times> error_record list option
     \<Rightarrow> disposition_with_context \<times> dmarc_context \<times> error_record list option" where
  "dmarc_check env psl rnd now st =
     (let from = dx_from_domain (fst st);
          dmarc_domain = ''_dmarc.'' @ from;
          nothing = (disposition_with DispNone (''no DMARC records found for '' @ from), st)
      in case fetch_dmarc_records env dmarc_domain of
        ResRecords records \<Rightarrow>
          (case evaluate_first psl rnd now records dmarc_domain Exact st of Some x \<Rightarrow> x | None \<Rightarrow> nothing)
      | x \<Rightarrow>
          (let normalized = normalize_domain from in
           case psl normalized of
             None \<Rightarrow> nothing
           | Some organizational \<Rightarrow>
               if organizational \<noteq> normalized then
                 (let address = ''_dmarc.'' @ organizational in
                  case fetch_dmarc_records env address of
                    ResTempError \<Rightarrow>
                      (disposition_with DispTempError (''DNS records could not be resolved for '' @ address), st)
                  | ResPermError \<Rightarrow>
                      (disposition_with DispPermError (''no DMARC records found for '' @ address), st)
                  | ResRecords records \<Rightarrow>
                      (case evaluate_first psl rnd now records address OrganizationalDomain st of
                         Some y \<Rightarrow> y | None \<Rightarrow> nothing))
               else
                 (disposition_with (if x = ResTempError then DispTempError else DispPermError)
                    (''no DMARC records found for '' @ from), st)))"

section \<open>The functions of the policy script\<close>

text \<open>The result of an SPF check as \<^verbatim>\<open>do_check\<close> hands it to the script; an SPF check of \<^verbatim>\<open>Spf_Eval\<close>
  always returns.\<close>

definition spf_authentication_result :: "spf_result \<Rightarrow> string option \<Rightarrow> string option \<Rightarrow> authentication_result" where
  "spf_authentication_result res sender ehlo =
     \<lparr>ar_method = ''spf'', ar_method_version = None, ar_result = disposition_str (sr_disposition res),
      ar_reason = Some (sr_context res),
      ar_props = (case ehlo of Some e \<Rightarrow> (\<lambda>m. m(''smtp.helo'' \<mapsto> e)) | None \<Rightarrow> (\<lambda>m. m))
        ((case sender of Some s \<Rightarrow> (\<lambda>m. m(''smtp.mailfrom'' \<mapsto> s)) | None \<Rightarrow> (\<lambda>m. m)) Map.empty)\<rparr>"

definition spf_do_check ::
  "'n dns_env \<Rightarrow> nat \<Rightarrow> string \<Rightarrow> string option \<Rightarrow> ip_addr \<Rightarrow> string option \<Rightarrow> string option
     \<Rightarrow> (spf_disposition \<times> authentication_result) option" where
  "spf_do_check env now dmn sender ip ehlo relay =
     map_option (\<lambda>(res, left). (sr_disposition res, spf_authentication_result res sender ehlo))
       (check_host env now dmn sender ip ehlo relay)"

datatype from_header = NoSingleFrom | FromWithoutDomain | FromDomain string

definition dmarc_output :: "string \<Rightarrow> string \<Rightarrow> (string \<rightharpoonup> string) \<Rightarrow> authentication_result" where
  "dmarc_output res reason props =
     \<lparr>ar_method = ''dmarc'', ar_method_version = None, ar_result = res, ar_reason = Some reason, ar_props = props\<rparr>"

datatype dmarc_error = MissingReportingFields

definition dmarc_check_msg ::
  "'n dns_env \<Rightarrow> (string \<Rightarrow> string option) \<Rightarrow> nat \<Rightarrow> int \<Rightarrow> string option \<Rightarrow> string list option \<Rightarrow> from_header
     \<Rightarrow> authentication_result list \<Rightarrow> authentication_result \<Rightarrow> bool \<Rightarrow> reporting_info option
     \<Rightarrow> error_record list option
     \<Rightarrow> (dmarc_error, disposition \<times> authentication_result) result \<times> error_record list option" where
  "dmarc_check_msg env psl rnd now mail_from recipients from dkim spf use_reporting info log =
     (case from of
        FromWithoutDomain \<Rightarrow>
          (Inr (DispNone, dmarc_output ''None'' (CHR 0x27 # ''From:'' @ CHR 0x27 # '' header missing domain'') Map.empty), log)
      | NoSingleFrom \<Rightarrow>
          (Inr (DispNone, dmarc_output ''None'' (''Only single '' @ CHR 0x27 # ''From:'' @ CHR 0x27 # '' header supported'') Map.empty), log)
      | FromDomain dmn \<Rightarrow>
          if use_reporting \<and> info = None then (Inl MissingReportingFields, log)
          else
            (let rcpts = remdups_adj (case recipients of Some ds \<Rightarrow> ds | None \<Rightarrow> []);
                 received_from = (case ar_props spf ''received_from'' of Some s \<Rightarrow> s | None \<Rightarrow> []);
                 cx = dmarc_context_new dmn mail_from rcpts received_from dkim spf (if use_reporting then info else None);
                 (d, cx', log') = dmarc_check env psl rnd now (cx, log)
             in if dc_result d \<in> {DispQuarantine, DispReject} then
                  (Inr (dc_result d,
                        dmarc_output ''fail'' (dc_context d)
                          ((dc_props d)(''policy.published-domain-policy'' \<mapsto>
                             to_ascii_lowercase (disposition_to_string (dc_result d))))), log')
                else
                  (Inr (dc_result d,
                        dmarc_output (to_ascii_lowercase (disposition_to_string (dc_result d))) (dc_context d) (dc_props d)), log')))"

section \<open>What the evaluation decides\<close>

text \<open>Alignment of the results, stated over the whole lists.\<close>

definition dkim_aligns :: "mode \<Rightarrow> (string \<Rightarrow> string option) \<Rightarrow> dmarc_context \<Rightarrow> bool" where
  "dkim_aligns m psl cx \<longleftrightarrow>
     list_ex (\<lambda>a. auth_result_is_pass a \<and>
       (case Option.bind (ar_props a ''header.d'') to_str of Some d \<Rightarrow> is_aligned m psl (dx_from_domain cx) d | None \<Rightarrow> False))
       (dx_dkim_results cx)"

definition spf_aligns :: "mode \<Rightarrow> (string \<Rightarrow> string option) \<Rightarrow> dmarc_context \<Rightarrow> bool" where
  "spf_aligns m psl cx \<longleftrightarrow>
     auth_result_is_pass (dx_spf_result cx) \<and>
     (case spf_alignment_domain (ar_props (dx_spf_result cx)) of
        Some d \<Rightarrow> is_aligned m psl (dx_from_domain cx) d
      | None \<Rightarrow> (case dx_mail_from_domain cx of Some d \<Rightarrow> is_aligned m psl (dx_from_domain cx) d | None \<Rightarrow> False))"

lemma dkim_loop_result:
  "fst (dkim_loop aligned failed rs errors) = DmarcPass \<longleftrightarrow>
     list_ex (\<lambda>a. auth_result_is_pass a \<and>
       (case Option.bind (ar_props a ''header.d'') to_str of Some d \<Rightarrow> aligned d | None \<Rightarrow> False)) rs"
  by (induction rs arbitrary: errors) (auto split: option.splits)

lemma spf_step_result:
  "fst (spf_step (is_aligned m psl (dx_from_domain cx)) failed (dx_spf_result cx) (dx_mail_from_domain cx)) = DmarcPass
     \<longleftrightarrow> spf_aligns m psl cx"
  by (auto simp: spf_step_def spf_aligns_def split: option.splits if_splits)

lemma dmarc_evaluate_disposition:
  "dc_result (fst (dmarc_evaluate psl rnd now r dmarc_domain align (cx, log))) =
     (if sampled_out r rnd \<or> dkim_aligns (align_dkim r) psl cx \<or> spf_aligns (align_spf r) psl cx
      then DispPass else record_disposition r align)"
proof -
  let ?d = "dkim_loop (is_aligned (align_dkim r) psl (dx_from_domain cx)) (dkim_failed (align_dkim r)) (dx_dkim_results cx) []"
  let ?s = "spf_step (is_aligned (align_spf r) psl (dx_from_domain cx)) (spf_failed (align_spf r)) (dx_spf_result cx)
      (dx_mail_from_domain cx)"
  obtain d de s se where ds: "?d = (d, de)" "?s = (s, se)" by fastforce
  have "fst ?d = DmarcPass \<longleftrightarrow> dkim_aligns (align_dkim r) psl cx"
    by (simp only: dkim_loop_result dkim_aligns_def)
  moreover have "fst ?s = DmarcPass \<longleftrightarrow> spf_aligns (align_spf r) psl cx"
    by (simp only: spf_step_result)
  ultimately show ?thesis
    by (simp add: dmarc_evaluate_def disposition_with_def ds Let_def split: list.split)
qed

text \<open>The verdict on a message under a record.\<close>

definition verdict ::
  "(string \<Rightarrow> string option) \<Rightarrow> nat \<Rightarrow> dmarc_context \<Rightarrow> dmarc_record \<Rightarrow> sender_domain_alignment \<Rightarrow> disposition" where
  "verdict psl rnd cx r align =
     (if sampled_out r rnd \<or> dkim_aligns (align_dkim r) psl cx \<or> spf_aligns (align_spf r) psl cx
      then DispPass else record_disposition r align)"

lemma evaluate_first_verdict:
  "evaluate_first psl rnd now (r # rs) dmarc_domain align (cx, log) = Some x
     \<Longrightarrow> dc_result (fst x) = verdict psl rnd cx r align"
  using dmarc_evaluate_disposition[of psl rnd now r dmarc_domain align cx log]
  by (auto simp: evaluate_first_def verdict_def split: prod.splits)

lemma evaluate_first_Some: "\<exists>x. evaluate_first psl rnd now (r # rs) dmarc_domain align st = Some x"
  by (simp add: evaluate_first_def split: prod.split)

lemma fetch_not_empty: "fetch_dmarc_records env address \<noteq> ResRecords []"
  by (simp add: fetch_dmarc_records_def Let_def split: sum.split)

text \<open>C31: the disposition of a DMARC check.  The first record found for the domain of the sender decides, with
  its own policy; without a record there, the first record of the organizational domain decides, with
  its policy for subdomains.  Under a record the message passes when it is not sampled, when some DKIM
  result that passed is aligned, or when the SPF result passed and is aligned; otherwise the policy
  applies.  Without any record the disposition is the error of the last lookup, and that there is no
  policy when the domain has no organizational domain.\<close>

theorem dmarc_check_decides:
  "dc_result (fst (dmarc_check env psl rnd now (cx, log))) =
     (let from = dx_from_domain cx in
      case fetch_dmarc_records env (''_dmarc.'' @ from) of
        ResRecords rs \<Rightarrow> verdict psl rnd cx (hd rs) Exact
      | missing \<Rightarrow>
          (case psl (normalize_domain from) of
             None \<Rightarrow> DispNone
           | Some org \<Rightarrow>
               if org = normalize_domain from then (if missing = ResTempError then DispTempError else DispPermError)
               else (case fetch_dmarc_records env (''_dmarc.'' @ org) of
                       ResTempError \<Rightarrow> DispTempError
                     | ResPermError \<Rightarrow> DispPermError
                     | ResRecords rs \<Rightarrow> verdict psl rnd cx (hd rs) OrganizationalDomain)))"
proof -
  have first: "dc_result (fst (case evaluate_first psl rnd now rs dmn align (cx, log) of Some x \<Rightarrow> x | None \<Rightarrow> y))
      = verdict psl rnd cx (hd rs) align" if f: "fetch_dmarc_records env a = ResRecords rs" for a rs dmn align y
  proof -
    have "rs \<noteq> []" using f fetch_not_empty[of env a] by auto
    then obtain r rs' where rs: "rs = r # rs'" by (cases rs) auto
    obtain x where "evaluate_first psl rnd now rs dmn align (cx, log) = Some x"
      using evaluate_first_Some rs by blast
    then show ?thesis using evaluate_first_verdict rs by simp
  qed
  show ?thesis
    by (simp add: dmarc_check_def Let_def first disposition_with_def split: dmarc_resolution.split option.split)
qed

section \<open>What goes wrong\<close>

text \<open>The result of an SPF check has no address of the client, so that no failure is ever logged.\<close>

lemma spf_result_no_address:
  "ar_props (spf_authentication_result res sender ehlo) ''received_from'' = None"
  by (simp add: spf_authentication_result_def split: option.split)

lemma parse_ip_empty: "parse_ip [] = None"
  by code_simp

lemma dmarc_evaluate_keeps_log:
  "parse_ip (dx_received_from cx) = None \<Longrightarrow> snd (snd (dmarc_evaluate psl rnd now r dmn align (cx, log))) = log"
  by (simp add: dmarc_evaluate_def Let_def report_error_def split: prod.split list.split)

lemma evaluate_first_keeps_log:
  assumes "parse_ip (dx_received_from cx) = None" "snd (snd y) = log"
  shows "snd (snd (case evaluate_first psl rnd now rs dmn align (cx, log) of Some x \<Rightarrow> x | None \<Rightarrow> y)) = log"
proof (cases rs)
  case (Cons r rs')
  then show ?thesis
    using dmarc_evaluate_keeps_log[OF assms(1), of psl rnd now r dmn align log]
    by (cases "dmarc_evaluate psl rnd now r dmn align (cx, log)") (simp add: evaluate_first_def)
qed (simp add: evaluate_first_def assms)

lemma dmarc_check_keeps_log:
  "parse_ip (dx_received_from cx) = None \<Longrightarrow> snd (snd (dmarc_check env psl rnd now (cx, log))) = log"
  by (simp add: dmarc_check_def Let_def evaluate_first_keeps_log split: dmarc_resolution.split option.split)

text \<open>C33: no DMARC failure is ever logged for a message whose SPF result comes from the server's own SPF check: that result
  does not carry the address of the client, which the log of failures takes from it, and an empty
  address makes the report fail silently, also when reporting is asked for.\<close>

theorem spf_check_then_dmarc_never_logs:
  assumes "spf_do_check env t dmn sender ip ehlo relay = Some (d, spf)"
  shows "snd (dmarc_check_msg env psl rnd now mail_from rcpts hdr dkim spf use_reporting info log) = log"
proof -
  obtain res where "spf = spf_authentication_result res sender ehlo"
    using assms by (auto simp: spf_do_check_def)
  then have none: "ar_props spf ''received_from'' = None" by (simp add: spf_result_no_address)
  show ?thesis
  proof (cases hdr)
    case (FromDomain dmn)
    define cx where "cx = dmarc_context_new dmn mail_from (remdups_adj (case rcpts of Some ds \<Rightarrow> ds | None \<Rightarrow> [])) [] dkim spf
        (if use_reporting then info else None)"
    have "snd (snd (dmarc_check env psl rnd now (cx, log))) = log"
      by (rule dmarc_check_keeps_log) (simp add: cx_def dmarc_context_new_def parse_ip_empty)
    then obtain x cx' where "dmarc_check env psl rnd now (cx, log) = (x, cx', log)" by (metis prod.collapse)
    then show ?thesis using FromDomain by (simp add: dmarc_check_msg_def none cx_def Let_def)
  qed (simp_all add: dmarc_check_msg_def)
qed

text \<open>The hypothesis of \<^verbatim>\<open>spf_check_then_dmarc_never_logs\<close> holds, for example, when the resolver does not answer.\<close>

definition silent_env :: "string dns_env" where
  "silent_env = looping_env\<lparr>resolve_txt_name := (\<lambda>_. Inl (ResolveFailed ''timeout''))\<rparr>"

definition example_reporting_info :: reporting_info where
  "example_reporting_info = \<lparr>ri_org_name = ''org'', ri_email = ''postmaster@org'', ri_extra_contact_info = None\<rparr>"

lemma silent_spf_check: "\<exists>d spf. spf_do_check silent_env 0 ''a'' (Some ''x@a'') (V4 1) (Some ''h'') None = Some (d, spf)"
proof -
  have "\<exists>r. spf_check (Suc fuel) silent_env True cx 10 = Some r" for fuel cx
    by (simp add: check_domain_def silent_env_def looping_env_def)
  from this[of 11] show ?thesis
    by (auto simp: spf_do_check_def check_host_def Let_def spf_lookup_budget_def simp del: spf_check.simps)
qed

theorem spf_check_then_dmarc_never_logs_witness:
  "\<exists>d spf. spf_do_check silent_env 0 ''a'' (Some ''x@a'') (V4 1) (Some ''h'') None = Some (d, spf)
    \<and> snd (dmarc_check_msg silent_env Some 0 0 (Some ''a'') None (FromDomain ''b'') [] spf True
        (Some example_reporting_info) (Some [])) = Some []"
proof -
  from silent_spf_check obtain d spf where
    "spf_do_check silent_env 0 ''a'' (Some ''x@a'') (V4 1) (Some ''h'') None = Some (d, spf)" by blast
  with spf_check_then_dmarc_never_logs[OF this] show ?thesis by blast
qed

text \<open>Relaxed alignment does not cover equal domains: a domain without an organizational domain, a public
  suffix, is not aligned with itself, although it is in strict mode.\<close>

lemma relaxed_not_reflexive:
  "is_aligned Strict psl d d" "is_aligned Relaxed psl d d \<longleftrightarrow> psl (normalize_domain d) \<noteq> None"
  by (auto simp: is_aligned_def is_strict_aligned_def is_relaxed_aligned_def split: option.split)

text \<open>The sample is taken from a byte modulo hundred: at a rate of fifty percent, 150 of the 256 bytes select
  the message.\<close>

lemma sampling_is_biased: "rate r = 50 \<Longrightarrow> length (filter (\<lambda>b. \<not> sampled_out r b) [0..<256]) = 150"
proof -
  assume "rate r = 50"
  then have "filter (\<lambda>b. \<not> sampled_out r b) [0..<256] = filter (\<lambda>b. b mod 100 < 50) [0..<256]"
    by (simp add: sampled_out_def not_le)
  also have "length (filter (\<lambda>b. b mod 100 < 50) [0..<256::nat]) = 150" by code_simp
  finally show ?thesis .
qed

end
