(* ===== verification/Dmarc_Report.thy ===== *)
theory Dmarc_Report
  imports Dmarc_Eval
begin

text \<open>
  The aggregation of the log of DMARC failures into reports, \<^verbatim>\<open>DmarcContext::aggregate\<close> in
  \<^verbatim>\<open>crates/kumo-dmarc/src/lib.rs\<close>.
\<close>

section \<open>Aggregation of the log\<close>

record report_row =
  row_source_ip :: ip_addr
  row_count :: nat
  row_policy_evaluated :: policy_evaluated

record report_results =
  rs_row :: report_row
  rs_identifiers :: report_identifier
  rs_auth_results :: auth_results

record policy_published =
  pp_domain :: string
  pp_align_dkim :: "mode option"
  pp_align_spf :: "mode option"
  pp_policy :: policy
  pp_subdomain_policy :: policy
  pp_rate :: nat
  pp_report_failure :: report_failure

record report_metadata =
  md_org_name :: string
  md_email :: string
  md_extra_contact_info :: "string option"
  md_report_id :: string
  md_date_range :: "int \<times> int"
  md_error :: "string list"

record feedback =
  fb_version :: string
  fb_metadata :: report_metadata
  fb_policy :: policy_published
  fb_record :: "report_results list"

text \<open>The groups: a \<^verbatim>\<open>BTreeMap\<close> by address, in the order of its keys, inside a \<^verbatim>\<open>HashMap\<close> by email address, whose
  order the code leaves open and which is the order of insertion here.\<close>

type_synonym ip_groups = "(ip_addr \<times> error_record list) list"

fun push_by_ip :: "error_record \<Rightarrow> ip_groups \<Rightarrow> ip_groups" where
  "push_by_ip r [] = [(er_source_ip r, [r])]"
| "push_by_ip r ((ip, rs) # m) =
     (if ip = er_source_ip r then (ip, rs @ [r]) # m
      else if er_source_ip r < ip then (er_source_ip r, [r]) # (ip, rs) # m
      else (ip, rs) # push_by_ip r m)"

fun push_by_email :: "error_record \<Rightarrow> (string \<times> ip_groups) list \<Rightarrow> (string \<times> ip_groups) list" where
  "push_by_email r [] = [(er_email r, [(er_source_ip r, [r])])]"
| "push_by_email r ((e, m) # gs) =
     (if e = er_email r then (e, push_by_ip r m) # gs else (e, m) # push_by_email r gs)"

definition group_errors :: "error_record list \<Rightarrow> (string \<times> ip_groups) list" where
  "group_errors rs = foldl (\<lambda>gs r. push_by_email r gs) [] rs"

definition results_for :: "ip_addr \<times> error_record list \<Rightarrow> report_results" where
  "results_for g =
     (let rs = snd g in
      \<lparr>rs_row = \<lparr>row_source_ip = fst g, row_count = length rs, row_policy_evaluated = er_policy_evaluated (hd rs)\<rparr>,
       rs_identifiers =
         \<lparr>id_envelope_to = concat (map (id_envelope_to \<circ> er_identifier) rs),
          id_envelope_from = concat (map (id_envelope_from \<circ> er_identifier) rs), id_header_from = []\<rparr>,
       rs_auth_results =
         \<lparr>au_dkim = concat (map (au_dkim \<circ> er_auth_results) rs), au_spf = concat (map (au_spf \<circ> er_auth_results) rs)\<rparr>\<rparr>)"

definition widen :: "int \<times> int \<Rightarrow> error_record \<Rightarrow> int \<times> int" where
  "widen dr r = (min (fst dr) (er_when r), max (snd dr) (er_when r))"

text \<open>A report has the published policy of the first record of the lowest address; \<^const>\<open>None\<close> is the failed
  expectation of a group without records.\<close>

definition feedback_for :: "(string \<Rightarrow> string) \<Rightarrow> string \<times> ip_groups \<Rightarrow> feedback option" where
  "feedback_for report_id g =
     (case snd g of
        (_, first # _) # _ \<Rightarrow>
          (let rs = concat (map snd (snd g)) in
           Some \<lparr>fb_version = er_version first,
             fb_metadata =
               \<lparr>md_org_name = er_org_name first, md_email = fst g, md_extra_contact_info = er_extra_contact_info first,
                md_report_id = report_id (fst g), md_date_range = foldl widen (er_when first, er_when first) rs,
                md_error = map er_error rs\<rparr>,
             fb_policy =
               \<lparr>pp_domain = er_domain first, pp_align_dkim = er_align_dkim first, pp_align_spf = er_align_spf first,
                pp_policy = er_policy first, pp_subdomain_policy = er_subdomain_policy first, pp_rate = er_rate first,
                pp_report_failure = er_report_failure first\<rparr>,
             fb_record = map results_for (snd g)\<rparr>)
      | _ \<Rightarrow> None)"

text \<open>A line that does not decode is \<^const>\<open>None\<close> and fails the aggregation.  The code drops the reports it has built.\<close>

datatype aggregate_error = FailedToDecode | Panic

definition aggregate ::
  "(string \<Rightarrow> string) \<Rightarrow> error_record option list \<Rightarrow> (aggregate_error, feedback list) result" where
  "aggregate report_id lines =
     (case those lines of
        None \<Rightarrow> Inl FailedToDecode
      | Some rs \<Rightarrow>
          (case those (map (feedback_for report_id) (group_errors rs)) of
             None \<Rightarrow> Inl Panic
           | Some fs \<Rightarrow> Inr fs))"

section \<open>Every failure is counted once\<close>

text \<open>The groups by address are sorted, hold no empty list, and have what was pushed.\<close>

definition ip_groups_ok :: "ip_groups \<Rightarrow> bool" where
  "ip_groups_ok m \<longleftrightarrow> sorted (map fst m) \<and> distinct (map fst m) \<and> (\<forall>g \<in> set m. snd g \<noteq> [])"

definition ip_group :: "ip_groups \<Rightarrow> ip_addr \<Rightarrow> error_record list" where
  "ip_group m ip = (case map_of m ip of Some rs \<Rightarrow> rs | None \<Rightarrow> [])"

lemma push_by_ip_keys: "fst ` set (push_by_ip r m) = insert (er_source_ip r) (fst ` set m)"
  by (induction r m rule: push_by_ip.induct) auto

lemma push_by_ip_ok: "ip_groups_ok m \<Longrightarrow> ip_groups_ok (push_by_ip r m)"
proof (induction r m rule: push_by_ip.induct)
  case (2 r ip rs m)
  have keys: "fst ` set (push_by_ip r m) = insert (er_source_ip r) (fst ` set m)" by (rule push_by_ip_keys)
  have sorted: "\<forall>x \<in> fst ` set m. ip \<le> x" "ip \<notin> fst ` set m" "ip_groups_ok m"
    using 2(2) by (auto simp: ip_groups_ok_def)
  consider "ip = er_source_ip r" | "er_source_ip r < ip" | "ip \<noteq> er_source_ip r" "\<not> er_source_ip r < ip" by blast
  then show ?case
  proof cases
    case 2
    then show ?thesis using \<open>ip_groups_ok ((ip, rs) # m)\<close> sorted(1) by (fastforce simp: ip_groups_ok_def)
  next
    case 3
    then have "ip_groups_ok (push_by_ip r m)" "ip \<le> er_source_ip r" using "2.IH" sorted(3) by auto
    moreover have "\<forall>x \<in> fst ` set (push_by_ip r m). ip \<le> x" "ip \<notin> fst ` set (push_by_ip r m)"
      using sorted 3 \<open>ip \<le> er_source_ip r\<close> by (auto simp: keys)
    ultimately show ?thesis using 3 \<open>ip_groups_ok ((ip, rs) # m)\<close> by (auto simp: ip_groups_ok_def)
  qed (use \<open>ip_groups_ok ((ip, rs) # m)\<close> in \<open>auto simp: ip_groups_ok_def\<close>)
qed (simp add: ip_groups_ok_def)

lemma ip_group_push:
  "ip_groups_ok m \<Longrightarrow> ip_group (push_by_ip r m) ip = (if ip = er_source_ip r then ip_group m ip @ [r] else ip_group m ip)"
proof (induction r m rule: push_by_ip.induct)
  case (2 r k rs m)
  have "ip_groups_ok m" "\<forall>x \<in> fst ` set m. k \<le> x" using 2(2) by (auto simp: ip_groups_ok_def)
  moreover have "map_of m (er_source_ip r) = None" if "er_source_ip r < k"
    using that calculation(2) by (force simp: map_of_eq_None_iff)
  ultimately show ?case using 2(1) by (auto simp: ip_group_def split: option.splits)
qed (simp add: ip_group_def)

lemma push_by_email_lookup:
  "map_of (push_by_email r gs) e =
     (if e = er_email r then Some (push_by_ip r (case map_of gs e of Some m \<Rightarrow> m | None \<Rightarrow> [])) else map_of gs e)"
  by (induction r gs rule: push_by_email.induct) auto

lemma push_by_email_keys: "fst ` set (push_by_email r gs) = insert (er_email r) (fst ` set gs)"
  by (induction r gs rule: push_by_email.induct) auto

lemma push_by_email_distinct: "distinct (map fst gs) \<Longrightarrow> distinct (map fst (push_by_email r gs))"
  by (induction r gs rule: push_by_email.induct) (auto simp: push_by_email_keys simp del: distinct_map)

lemma group_errors_snoc: "group_errors (rs @ [r]) = push_by_email r (group_errors rs)"
  by (simp add: group_errors_def)

lemma group_errors_keys:
  "distinct (map fst (group_errors rs))" "fst ` set (group_errors rs) = er_email ` set rs"
proof -
  have empty: "group_errors [] = []" by (simp add: group_errors_def)
  show "distinct (map fst (group_errors rs))"
    by (induction rs rule: rev_induct) (simp_all add: empty group_errors_snoc push_by_email_distinct)
  show "fst ` set (group_errors rs) = er_email ` set rs"
    by (induction rs rule: rev_induct) (simp_all add: empty group_errors_snoc push_by_email_keys)
qed

lemma push_by_ip_not_Nil [simp]: "push_by_ip r m \<noteq> []"
  by (induction r m rule: push_by_ip.induct) auto

lemma group_errors_groups:
  "map_of (group_errors rs) e = Some m \<Longrightarrow>
     ip_groups_ok m \<and> m \<noteq> [] \<and> (\<forall>ip. ip_group m ip = filter (\<lambda>r. er_email r = e \<and> er_source_ip r = ip) rs)"
proof (induction rs arbitrary: m rule: rev_induct)
  case Nil
  then show ?case by (simp add: group_errors_def)
next
  case (snoc r rs)
  show ?case
  proof (cases "e = er_email r")
    case False
    then show ?thesis using snoc by (simp add: group_errors_snoc push_by_email_lookup)
  next
    case True
    define m0 where "m0 = (case map_of (group_errors rs) e of Some m \<Rightarrow> m | None \<Rightarrow> [])"
    have m: "m = push_by_ip r m0" using snoc.prems True by (simp add: group_errors_snoc push_by_email_lookup m0_def)
    have "ip_groups_ok m0 \<and> (\<forall>ip. ip_group m0 ip = filter (\<lambda>r. er_email r = e \<and> er_source_ip r = ip) rs)"
    proof (cases "map_of (group_errors rs) e")
      case None
      then have "e \<notin> er_email ` set rs" using group_errors_keys(2)[of rs] by (simp add: map_of_eq_None_iff)
      then have "filter (\<lambda>r. er_email r = e \<and> er_source_ip r = ip) rs = []" for ip by (auto simp: filter_empty_conv)
      then show ?thesis using None by (simp add: m0_def ip_groups_ok_def ip_group_def)
    next
      case (Some m')
      then show ?thesis using snoc.IH[OF Some] by (simp add: m0_def)
    qed
    then show ?thesis using m True by (auto simp: push_by_ip_ok ip_group_push)
  qed
qed

text \<open>The members of the groups, all together and one by one.\<close>

lemma ip_group_member:
  "ip_groups_ok m \<Longrightarrow> (ip, xs) \<in> set m \<Longrightarrow> ip_group m ip = xs"
  by (simp add: ip_groups_ok_def ip_group_def)

lemma ip_group_key: "ip_groups_ok m \<Longrightarrow> k \<in> fst ` set m \<longleftrightarrow> ip_group m k \<noteq> []"
proof (cases "map_of m k")
  case None
  then have "k \<notin> fst ` set m" by (simp add: map_of_eq_None_iff)
  then show ?thesis using None by (simp add: ip_group_def)
next
  case (Some xs)
  then have "(k, xs) \<in> set m" by (rule map_of_SomeD)
  then show "ip_groups_ok m \<Longrightarrow> ?thesis" using Some by (force simp: ip_group_def ip_groups_ok_def)
qed

lemma set_ip_groups: "ip_groups_ok m \<Longrightarrow> set (concat (map snd m)) = (\<Union>ip. set (ip_group m ip))"
proof -
  assume ok: "ip_groups_ok m"
  have "x \<in> set (ip_group m ip) \<Longrightarrow> \<exists>g \<in> set m. x \<in> set (snd g)" for x ip
  proof (cases "map_of m ip")
    case (Some xs)
    then have "(ip, xs) \<in> set m" by (rule map_of_SomeD)
    then show "x \<in> set (ip_group m ip) \<Longrightarrow> ?thesis" using Some by (force simp: ip_group_def)
  qed (simp add: ip_group_def)
  moreover have "g \<in> set m \<Longrightarrow> x \<in> set (snd g) \<Longrightarrow> \<exists>ip. x \<in> set (ip_group m ip)" for g x
    using ip_group_member[OF ok, of "fst g" "snd g"] by (intro exI[of _ "fst g"]) simp
  ultimately show ?thesis by auto
qed

lemma foldl_widen:
  "foldl widen (a, b) rs = (Min (insert a (er_when ` set rs)), Max (insert b (er_when ` set rs)))"
proof (induction rs arbitrary: a b)
  case (Cons r rs)
  have "Min (insert (min a (er_when r)) W) = Min (insert a (insert (er_when r) W))"
    "Max (insert (max b (er_when r)) W) = Max (insert b (insert (er_when r) W))" if "finite W" for W
    using that by (cases "W = {}"; simp add: min.assoc max.assoc)+
  then show ?case using Cons by (simp add: widen_def)
qed simp

text \<open>What a report says of the log.\<close>

definition report_accounts :: "error_record list \<Rightarrow> feedback \<Rightarrow> bool" where
  "report_accounts rs f \<longleftrightarrow>
     (let e = md_email (fb_metadata f); mine = filter (\<lambda>r. er_email r = e) rs; rows = map rs_row (fb_record f) in
      set (map row_source_ip rows) = er_source_ip ` set mine
      \<and> sorted_wrt (<) (map row_source_ip rows)
      \<and> list_all (\<lambda>row. row_count row = length (filter (\<lambda>r. er_source_ip r = row_source_ip row) mine)) rows
      \<and> md_date_range (fb_metadata f) = (Min (er_when ` set mine), Max (er_when ` set mine)))"

lemma feedback_accounts:
  assumes "map_of (group_errors rs) e = Some m"
  shows "\<exists>f. feedback_for report_id (e, m) = Some f \<and> md_email (fb_metadata f) = e \<and> report_accounts rs f"
proof -
  note g = group_errors_groups[OF assms]
  define mine where "mine = filter (\<lambda>r. er_email r = e) rs"
  have ok: "ip_groups_ok m" "m \<noteq> []" using g by blast+
  have group: "ip_group m ip = filter (\<lambda>r. er_source_ip r = ip) mine" for ip
    using g by (auto simp: mine_def intro: filter_cong)
  obtain ip first xs m' where m: "m = (ip, first # xs) # m'"
    using ok by (cases m; cases "hd m"; cases "snd (hd m)") (auto simp: ip_groups_ok_def)
  have all: "set (concat (map snd m)) = set mine" unfolding set_ip_groups[OF ok(1)] group by auto
  have firstin: "first \<in> set mine" using all m by auto
  have "er_when first \<in> er_when ` set mine" using firstin by blast
  then have dates: "foldl widen (er_when first, er_when first) (concat (map snd m)) = (Min (er_when ` set mine), Max (er_when ` set mine))"
    unfolding foldl_widen all by (simp add: insert_absorb)
  have ips: "fst ` set m = er_source_ip ` set mine"
    by (rule set_eqI, subst ip_group_key[OF ok(1)]) (auto simp: group filter_empty_conv)
  have rows: "list_all (\<lambda>row. row_count row = length (filter (\<lambda>r. er_source_ip r = row_source_ip row) mine))
      (map rs_row (map results_for m))"
    using ip_group_member[OF ok(1)] group by (fastforce simp: list_all_iff results_for_def Let_def)
  have keys: "map row_source_ip (map rs_row (map results_for m)) = map fst m"
    by (simp add: results_for_def Let_def)
  have "sorted_wrt (<) (map fst m)" using ok(1) by (simp add: ip_groups_ok_def strict_sorted_iff)
  obtain f where f: "feedback_for report_id (e, m) = Some f" "md_email (fb_metadata f) = e" "fb_record f = map results_for m"
    "md_date_range (fb_metadata f) = foldl widen (er_when first, er_when first) (concat (map snd m))"
    by (simp add: feedback_for_def m)
  have "report_accounts rs f"
    unfolding report_accounts_def Let_def f(2,3,4) mine_def[symmetric] keys dates
    using rows ips \<open>sorted_wrt (<) (map fst m)\<close> by simp
  with f(1,2) show ?thesis by blast
qed

lemma those_map_Some: "those (map Some xs) = Some xs"
  by (induction xs) simp_all

lemma those_all:
  "(\<And>x. x \<in> set xs \<Longrightarrow> \<exists>y. f x = Some y \<and> P x y) \<Longrightarrow> \<exists>ys. those (map f xs) = Some ys \<and> list_all2 P xs ys"
proof (induction xs)
  case (Cons x xs)
  obtain y where "f x = Some y" "P x y" using Cons.prems[of x] by auto
  moreover obtain ys where "those (map f xs) = Some ys" "list_all2 P xs ys" using Cons.IH Cons.prems by auto
  ultimately show ?case by simp
qed simp

text \<open>C34: the aggregation of a log that decodes never fails and accounts for every record exactly once.  There is one
  report for every address that reports are sent to; its rows are the source addresses of the records
  for it, in increasing order; the count of a row is the number of the records from that source; and its
  range of dates is that of the records.\<close>

theorem aggregate_accounts:
  "\<exists>fs. aggregate report_id (map Some rs) = Inr fs
    \<and> distinct (map (md_email \<circ> fb_metadata) fs)
    \<and> set (map (md_email \<circ> fb_metadata) fs) = er_email ` set rs
    \<and> list_all (report_accounts rs) fs"
proof -
  define P where "P = (\<lambda>g :: string \<times> ip_groups. \<lambda>f. md_email (fb_metadata f) = fst g \<and> report_accounts rs f)"
  have "\<exists>f. feedback_for report_id g = Some f \<and> P g f" if "g \<in> set (group_errors rs)" for g
    using feedback_accounts[of rs "fst g" "snd g" report_id] that group_errors_keys(1)[of rs] by (simp add: P_def)
  then obtain fs where fs: "those (map (feedback_for report_id) (group_errors rs)) = Some fs"
    "list_all2 P (group_errors rs) fs"
    using those_all[of "group_errors rs" "feedback_for report_id" P] by blast
  have "map (md_email \<circ> fb_metadata) fs = map fst (group_errors rs)"
    using fs(2) by (induction rule: list_all2_induct) (simp_all add: P_def)
  moreover have "list_all (report_accounts rs) fs"
    using fs(2) by (induction rule: list_all2_induct) (simp_all add: P_def)
  ultimately show ?thesis
    using fs(1) group_errors_keys[of rs] by (simp add: aggregate_def those_map_Some flip: set_map)
qed

end
