(* ===== verification/Timer_Wheel.thy ===== *)
theory Timer_Wheel
  imports Kumo_Prelude
begin

text \<open>
  The time ordered queue of messages, \<^verbatim>\<open>crates/message/src/timeq.rs\<close>: a hierarchy of wheels of 256 lists, with a table
  from messages to their current slot and one from slots to messages, so that a cancelled or moved
  entry leaves a stale slot behind that is skipped when it is met.  An \<^verbatim>\<open>Instant\<close> is a number of
  nanoseconds, a \<^verbatim>\<open>DateTime<Utc>\<close> one that may be negative, and a message is its id; the time a message is
  due is asked of the message when it is needed.  The resolution of a tick is at least one millisecond,
  as in every use of the queue.
\<close>

section \<open>The wheel\<close>

abbreviation wheel_size :: nat where "wheel_size \<equiv> 256"

record timer_wheel =
  tw_resolution :: nat
  tw_created :: nat
  tw_next_run :: nat
  tw_last_dispatched :: nat
  tw_slots :: nat
  tw_lists :: "nat \<Rightarrow> nat \<Rightarrow> nat list"
  tw_entry_by_id :: "nat \<rightharpoonup> nat"
  tw_slot_to_id :: "nat \<rightharpoonup> nat"
  tw_next_slot :: nat

datatype round_direction = Up | Down

definition timer_wheel_new :: "nat \<Rightarrow> nat \<Rightarrow> nat \<Rightarrow> timer_wheel" where
  "timer_wheel_new slots now resolution =
     \<lparr>tw_resolution = resolution, tw_created = now, tw_next_run = now + resolution, tw_last_dispatched = now,
      tw_slots = slots, tw_lists = (\<lambda>_ _. []), tw_entry_by_id = Map.empty, tw_slot_to_id = Map.empty,
      tw_next_slot = 0\<rparr>"

definition wheel_clear :: "timer_wheel \<Rightarrow> timer_wheel" where
  "wheel_clear w =
     w\<lparr>tw_lists := (\<lambda>_ _. []), tw_entry_by_id := Map.empty, tw_slot_to_id := Map.empty, tw_next_slot := 0\<rparr>"

definition div_ceil :: "nat \<Rightarrow> nat \<Rightarrow> nat" where
  "div_ceil a b = (a + (b - 1)) div b"

text \<open>Whole microseconds, rounded up to milliseconds.\<close>

definition as_millis_round_up :: "nat \<Rightarrow> nat" where
  "as_millis_round_up d = div_ceil (d div 1000) 1000"

definition compute_abs_tick :: "timer_wheel \<Rightarrow> nat \<Rightarrow> round_direction \<Rightarrow> nat option" where
  "compute_abs_tick w due dir =
     (if due < tw_created w then None
      else
        (let delta = due - tw_created w in
         Some (case dir of
                 Up \<Rightarrow> div_ceil (as_millis_round_up delta) (as_millis_round_up (tw_resolution w))
               | Down \<Rightarrow> (delta div 1000000) div (tw_resolution w div 1000000))))"

text \<open>The wheel and the list in it that holds a due time, from the distance to the next run.\<close>

definition list_position :: "nat \<Rightarrow> nat \<Rightarrow> nat \<Rightarrow> nat \<times> nat" where
  "list_position slots next_run_tick due =
     (let diff = due - next_run_tick in
      case find (\<lambda>slot. diff < 2 ^ ((slot + 1) * 8)) [0..<slots] of
        Some slot \<Rightarrow> (slot, (due div 2 ^ (slot * 8)) mod wheel_size)
      | None \<Rightarrow>
          (let due = (if diff > u32_max then next_run_tick + u32_max else due)
           in (slots - 1, (due div 2 ^ ((slots - 1) * 8)) mod wheel_size)))"

definition compute_list :: "timer_wheel \<Rightarrow> nat \<Rightarrow> round_direction \<Rightarrow> (nat \<times> nat) option" where
  "compute_list w due dir =
     (case (compute_abs_tick w (tw_next_run w) dir, compute_abs_tick w due dir) of
        (Some next_run_tick, Some due) \<Rightarrow>
          if due < next_run_tick then None else Some (list_position (tw_slots w) next_run_tick due)
      | _ \<Rightarrow> None)"

definition set_list :: "nat \<Rightarrow> nat \<Rightarrow> nat list \<Rightarrow> timer_wheel \<Rightarrow> timer_wheel" where
  "set_list tier k xs w = w\<lparr>tw_lists := (tw_lists w)(tier := (tw_lists w tier)(k := xs))\<rparr>"

text \<open>\<^verbatim>\<open>insert_impl\<close>: whether the message was taken; a message that is due is not.\<close>

definition insert_impl ::
  "nat \<Rightarrow> int \<Rightarrow> int option \<Rightarrow> nat \<Rightarrow> round_direction \<Rightarrow> timer_wheel \<Rightarrow> bool \<times> timer_wheel" where
  "insert_impl now now_utc due msg dir w =
     (case due of
        None \<Rightarrow> (False, w)
      | Some due \<Rightarrow>
          (let due_in = due - now_utc in
           if due_in \<le> 0 then (False, w)
           else
             (let slot = tw_next_slot w; w1 = w\<lparr>tw_next_slot := slot + 1\<rparr> in
              case compute_list w1 (now + nat due_in) dir of
                None \<Rightarrow> (False, w1)
              | Some (tier, k) \<Rightarrow>
                  (True,
                   (set_list tier k (tw_lists w1 tier k @ [slot]) w1)
                     \<lparr>tw_slot_to_id := (tw_slot_to_id w1)(slot \<mapsto> msg),
                      tw_entry_by_id := (tw_entry_by_id w1)(msg \<mapsto> slot)\<rparr>))))"

definition wheel_insert :: "nat \<Rightarrow> int \<Rightarrow> int option \<Rightarrow> nat \<Rightarrow> timer_wheel \<Rightarrow> bool \<times> timer_wheel" where
  "wheel_insert now now_utc due msg = insert_impl now now_utc due msg Up"

definition wheel_cancel :: "nat \<Rightarrow> timer_wheel \<Rightarrow> bool \<times> timer_wheel" where
  "wheel_cancel msg w =
     (case tw_entry_by_id w msg of
        Some slot \<Rightarrow>
          (True, w\<lparr>tw_slot_to_id := (tw_slot_to_id w)(slot := None), tw_entry_by_id := (tw_entry_by_id w)(msg := None)\<rparr>)
      | None \<Rightarrow> (False, w))"

definition wheel_contains :: "timer_wheel \<Rightarrow> nat \<Rightarrow> bool" where
  "wheel_contains w msg \<longleftrightarrow> Option.bind (tw_entry_by_id w msg) (tw_slot_to_id w) \<noteq> None"

section \<open>Taking out what is due\<close>

text \<open>One slot met on the way: a stale one is dropped, a live one is inserted again or is ready.\<close>

definition process_slot ::
  "nat \<Rightarrow> int \<Rightarrow> (nat \<Rightarrow> int option) \<Rightarrow> nat \<Rightarrow> timer_wheel \<times> nat list \<Rightarrow> timer_wheel \<times> nat list" where
  "process_slot now now_utc due slot st =
     (case st of (w, ready) \<Rightarrow>
        (case tw_slot_to_id w slot of
           None \<Rightarrow> (w, ready)
         | Some msg \<Rightarrow>
             (let w1 = w\<lparr>tw_slot_to_id := (tw_slot_to_id w)(slot := None)\<rparr> in
              case tw_entry_by_id w1 msg of
                None \<Rightarrow> (w1, ready)
              | Some current \<Rightarrow>
                  if current \<noteq> slot then (w1, ready)
                  else
                    (case insert_impl now now_utc (due msg) msg Down w1 of
                       (True, w2) \<Rightarrow> (w2, ready)
                     | (False, w2) \<Rightarrow>
                         (w2\<lparr>tw_entry_by_id := (tw_entry_by_id w2)(msg := None)\<rparr>, ready @ [msg])))))"

text \<open>The lists of the higher wheels that come down at a tick; the next wheel is looked at when this one wraps.\<close>

fun cascade :: "nat list \<Rightarrow> nat \<Rightarrow> timer_wheel \<times> nat list \<Rightarrow> timer_wheel \<times> nat list" where
  "cascade [] idx st = st"
| "cascade (tier # tiers) idx (w, reinsert) =
     (let k = (idx div 2 ^ (tier * 8)) mod wheel_size;
          st = (set_list tier k [] w, reinsert @ rev (tw_lists w tier k))
      in if k = 0 then cascade tiers idx st else st)"

definition process_slots ::
  "nat \<Rightarrow> int \<Rightarrow> (nat \<Rightarrow> int option) \<Rightarrow> nat list \<Rightarrow> timer_wheel \<times> nat list \<Rightarrow> timer_wheel \<times> nat list" where
  "process_slots now now_utc due slots st = fold (process_slot now now_utc due) slots st"

definition cascade_tick ::
  "nat \<Rightarrow> int \<Rightarrow> (nat \<Rightarrow> int option) \<Rightarrow> nat \<Rightarrow> timer_wheel \<times> nat list \<Rightarrow> timer_wheel \<times> nat list" where
  "cascade_tick now now_utc due idx st =
     (if idx mod wheel_size \<noteq> 0 then st
      else
        (let (w, reinsert) = cascade [1..<tw_slots (fst st)] idx (fst st, [])
         in process_slots now now_utc due (rev reinsert) (w, snd st)))"

definition first_wheel_tick ::
  "nat \<Rightarrow> int \<Rightarrow> (nat \<Rightarrow> int option) \<Rightarrow> nat \<Rightarrow> timer_wheel \<times> nat list \<Rightarrow> timer_wheel \<times> nat list" where
  "first_wheel_tick now now_utc due idx st =
     (let k = idx mod wheel_size; w = fst st
      in process_slots now now_utc due (rev (tw_lists w 0 k)) (set_list 0 k [] w, snd st))"

text \<open>\<^verbatim>\<open>pop_impl\<close>; \<^const>\<open>None\<close> is the failed expectation that the time is after the creation.\<close>

definition pop_impl :: "nat \<Rightarrow> int \<Rightarrow> (nat \<Rightarrow> int option) \<Rightarrow> timer_wheel \<Rightarrow> (timer_wheel \<times> nat list) option" where
  "pop_impl now now_utc due w =
     (if now < tw_next_run w then Some (w, [])
      else case (compute_abs_tick w (tw_last_dispatched w) Down, compute_abs_tick w now Down) of
        (Some last_slot, Some now_slot) \<Rightarrow>
          (let st1 = fold (cascade_tick now now_utc due) [last_slot + 1..<now_slot + 1] (w, []);
               num_slots = min (now_slot - last_slot) wheel_size;
               (w2, ready) = fold (first_wheel_tick now now_utc due) [last_slot + 1..<last_slot + num_slots + 1] st1
           in Some (w2\<lparr>tw_last_dispatched := now, tw_next_run := now + tw_resolution w2\<rparr>, ready))
      | _ \<Rightarrow> None)"

section \<open>Draining and sweeping\<close>

definition drain_slot :: "nat \<Rightarrow> timer_wheel \<times> nat list \<Rightarrow> timer_wheel \<times> nat list" where
  "drain_slot slot st =
     (case st of (w, out) \<Rightarrow>
        (case tw_slot_to_id w slot of
           None \<Rightarrow> (w, out)
         | Some msg \<Rightarrow>
             (let w1 = w\<lparr>tw_slot_to_id := (tw_slot_to_id w)(slot := None)\<rparr> in
              if tw_entry_by_id w1 msg = Some slot
              then (w1\<lparr>tw_entry_by_id := (tw_entry_by_id w1)(msg := None)\<rparr>, out @ [msg])
              else (w1, out))))"

definition drain_list :: "nat \<times> nat \<Rightarrow> timer_wheel \<times> nat list \<Rightarrow> timer_wheel \<times> nat list" where
  "drain_list p st =
     (case st of (w, out) \<Rightarrow>
        fold drain_slot (tw_lists w (fst p) (snd p)) (set_list (fst p) (snd p) [] w, out))"

definition all_positions :: "nat \<Rightarrow> (nat \<times> nat) list" where
  "all_positions slots = List.product [0..<slots] [0..<wheel_size]"

definition wheel_drain :: "timer_wheel \<Rightarrow> timer_wheel \<times> nat list" where
  "wheel_drain w = fold drain_list (all_positions (tw_slots w)) (w, [])"

definition retain_slot :: "(nat \<Rightarrow> bool) \<Rightarrow> nat \<times> nat \<Rightarrow> nat \<Rightarrow> timer_wheel \<Rightarrow> timer_wheel" where
  "retain_slot keeper p slot w =
     (case tw_slot_to_id w slot of
        None \<Rightarrow> w
      | Some msg \<Rightarrow>
          if tw_entry_by_id w msg = Some slot \<and> keeper msg
          then set_list (fst p) (snd p) (tw_lists w (fst p) (snd p) @ [slot]) w
          else if tw_entry_by_id w msg = Some slot
          then w\<lparr>tw_slot_to_id := (tw_slot_to_id w)(slot := None), tw_entry_by_id := (tw_entry_by_id w)(msg := None)\<rparr>
          else w\<lparr>tw_slot_to_id := (tw_slot_to_id w)(slot := None)\<rparr>)"

definition retain_list :: "(nat \<Rightarrow> bool) \<Rightarrow> nat \<times> nat \<Rightarrow> timer_wheel \<Rightarrow> timer_wheel" where
  "retain_list keeper p w =
     fold (retain_slot keeper p) (tw_lists w (fst p) (snd p)) (set_list (fst p) (snd p) [] w)"

definition wheel_retain :: "(nat \<Rightarrow> bool) \<Rightarrow> timer_wheel \<Rightarrow> timer_wheel" where
  "wheel_retain keeper w = fold (retain_list keeper) (all_positions (tw_slots w)) w"

section \<open>The invariant\<close>

text \<open>The slots in the lists of the wheel, and the messages that it holds.\<close>

definition listed :: "timer_wheel \<Rightarrow> nat set" where
  "listed w = {s. \<exists>t k. t < tw_slots w \<and> k < wheel_size \<and> s \<in> set (tw_lists w t k)}"

definition held :: "timer_wheel \<Rightarrow> nat set" where
  "held w = dom (tw_entry_by_id w)"

text \<open>Every held message has its slot in a list or among the slots \<^term>\<open>W\<close> that are being worked on, and no slot is
  reused.\<close>

definition wheel_inv_with :: "nat set \<Rightarrow> timer_wheel \<Rightarrow> bool" where
  "wheel_inv_with W w \<longleftrightarrow>
     (\<forall>msg s. tw_entry_by_id w msg = Some s \<longrightarrow> tw_slot_to_id w s = Some msg \<and> s < tw_next_slot w \<and> s \<in> listed w \<union> W)
     \<and> (\<forall>msg s. tw_slot_to_id w s = Some msg \<longrightarrow> s < tw_next_slot w)"

definition wheel_times :: "timer_wheel \<Rightarrow> bool" where
  "wheel_times w \<longleftrightarrow>
     0 < tw_slots w \<and> 1000000 \<le> tw_resolution w \<and> tw_created w \<le> tw_last_dispatched w
     \<and> tw_last_dispatched w \<le> tw_next_run w"

definition wheel_inv :: "timer_wheel \<Rightarrow> bool" where
  "wheel_inv w \<longleftrightarrow> wheel_inv_with {} w \<and> wheel_times w"

text \<open>What all the operations below leave alone.\<close>

definition same_frame :: "timer_wheel \<Rightarrow> timer_wheel \<Rightarrow> bool" where
  "same_frame w w' \<longleftrightarrow>
     tw_resolution w' = tw_resolution w \<and> tw_created w' = tw_created w \<and> tw_next_run w' = tw_next_run w
     \<and> tw_last_dispatched w' = tw_last_dispatched w \<and> tw_slots w' = tw_slots w"

text \<open>A step that lets go of some messages and holds on to the others.\<close>

definition releases :: "timer_wheel \<Rightarrow> nat list \<Rightarrow> timer_wheel \<Rightarrow> bool" where
  "releases w out w' \<longleftrightarrow> held w = held w' \<union> set out \<and> held w' \<inter> set out = {} \<and> distinct out \<and> same_frame w w'"

lemma same_frame_refl [simp]: "same_frame w w"
  by (simp add: same_frame_def)

lemma same_frame_trans: "same_frame a b \<Longrightarrow> same_frame b c \<Longrightarrow> same_frame a c"
  by (simp add: same_frame_def)

lemma releases_none: "held w' = held w \<Longrightarrow> same_frame w w' \<Longrightarrow> releases w [] w'"
  by (simp add: releases_def)

lemma releases_trans: "releases w a w1 \<Longrightarrow> releases w1 b w2 \<Longrightarrow> releases w (a @ b) w2"
  by (auto simp: releases_def same_frame_def)

lemma wheel_times_frame: "same_frame w w' \<Longrightarrow> wheel_times w \<Longrightarrow> wheel_times w'"
  by (simp add: same_frame_def wheel_times_def)

lemma set_list_simps [simp]:
  "tw_entry_by_id (set_list t k xs w) = tw_entry_by_id w" "tw_slot_to_id (set_list t k xs w) = tw_slot_to_id w"
  "tw_next_slot (set_list t k xs w) = tw_next_slot w" "held (set_list t k xs w) = held w"
  "same_frame w (set_list t k xs w)" "tw_slots (set_list t k xs w) = tw_slots w"
  "tw_lists (set_list t k xs w) t' k' = (if t' = t \<and> k' = k then xs else tw_lists w t' k')"
  by (simp_all add: set_list_def held_def same_frame_def)

lemma listed_set_list:
  "t < tw_slots w \<Longrightarrow> k < wheel_size \<Longrightarrow> listed w \<subseteq> listed (set_list t k xs w) \<union> set (tw_lists w t k)"
  "t < tw_slots w \<Longrightarrow> k < wheel_size \<Longrightarrow> set (tw_lists w t k) \<subseteq> set xs \<Longrightarrow> listed w \<union> set xs \<subseteq> listed (set_list t k xs w)"
  by (auto simp: listed_def) (metis in_mono)+

text \<open>A step that adds no message keeps the invariant, when the slots of the messages it keeps stay in place.\<close>

lemma wheel_inv_shrink:
  assumes "wheel_inv_with W w"
    and "\<And>m s. tw_entry_by_id w' m = Some s \<Longrightarrow> tw_entry_by_id w m = Some s \<and> tw_slot_to_id w' s = tw_slot_to_id w s"
    and "\<And>m s. tw_slot_to_id w' s = Some m \<Longrightarrow> tw_slot_to_id w s = Some m"
    and "tw_next_slot w \<le> tw_next_slot w'"
    and "\<And>m s. tw_entry_by_id w' m = Some s \<Longrightarrow> s \<in> listed w \<union> W \<Longrightarrow> s \<in> listed w' \<union> W'"
  shows "wheel_inv_with W' w'"
proof -
  have entry: "tw_slot_to_id w' s = Some m \<and> s < tw_next_slot w' \<and> s \<in> listed w' \<union> W'" if e: "tw_entry_by_id w' m = Some s" for m s
  proof -
    have "tw_slot_to_id w s = Some m \<and> s < tw_next_slot w \<and> s \<in> listed w \<union> W"
      using assms(1) assms(2)[OF e] unfolding wheel_inv_with_def by blast
    then show ?thesis using assms(2)[OF e] assms(4) assms(5)[OF e] by simp
  qed
  have slot: "s < tw_next_slot w'" if s: "tw_slot_to_id w' s = Some m" for m s
  proof -
    have "s < tw_next_slot w" using assms(1) assms(3)[OF s] unfolding wheel_inv_with_def by blast
    then show ?thesis using assms(4) by simp
  qed
  show ?thesis unfolding wheel_inv_with_def using entry slot by blast
qed

text \<open>Taking a list out of the wheel.\<close>

lemma take_list_inv:
  assumes "wheel_inv_with W w" "t < tw_slots w" "k < wheel_size"
  shows "wheel_inv_with (W \<union> set (tw_lists w t k)) (set_list t k [] w)"
  using assms listed_set_list(1)[OF assms(2,3), of "[]"] by (fastforce simp: wheel_inv_with_def)

section \<open>Insertion\<close>

lemma find_upt: "find P [0..<n] = Some m \<Longrightarrow> m < n"
  by (auto simp: find_Some_iff)

lemma list_position_bounds:
  assumes "0 < slots"
  shows "fst (list_position slots n d) < slots" "snd (list_position slots n d) < wheel_size"
  using assms by (auto simp: list_position_def Let_def dest: find_upt split: option.split)

lemma compute_list_bounds:
  "compute_list w due dir = Some (t, k) \<Longrightarrow> 0 < tw_slots w \<Longrightarrow> t < tw_slots w \<and> k < wheel_size"
  using list_position_bounds[of "tw_slots w"]
  by (auto simp: compute_list_def split: option.splits if_splits) (metis fst_conv snd_conv)+

definition place_in :: "nat \<Rightarrow> nat \<times> nat \<Rightarrow> timer_wheel \<Rightarrow> timer_wheel" where
  "place_in msg p w =
     (set_list (fst p) (snd p) (tw_lists w (fst p) (snd p) @ [tw_next_slot w]) (w\<lparr>tw_next_slot := tw_next_slot w + 1\<rparr>))
       \<lparr>tw_slot_to_id := (tw_slot_to_id w)(tw_next_slot w \<mapsto> msg), tw_entry_by_id := (tw_entry_by_id w)(msg \<mapsto> tw_next_slot w)\<rparr>"

lemma compute_list_next_slot [simp]: "compute_list (w\<lparr>tw_next_slot := n\<rparr>) due dir = compute_list w due dir"
proof -
  have "compute_abs_tick (w\<lparr>tw_next_slot := n\<rparr>) d dir = compute_abs_tick w d dir" for d
    by (cases dir) (simp_all add: compute_abs_tick_def)
  then show ?thesis by (simp add: compute_list_def split: option.split)
qed

lemma insert_impl_alt:
  "insert_impl now now_utc due msg dir w =
     (case due of
        None \<Rightarrow> (False, w)
      | Some d \<Rightarrow>
          if d \<le> now_utc then (False, w)
          else (case compute_list w (now + nat (d - now_utc)) dir of
                  None \<Rightarrow> (False, w\<lparr>tw_next_slot := tw_next_slot w + 1\<rparr>)
                | Some p \<Rightarrow> (True, place_in msg p w)))"
  by (simp add: insert_impl_def place_in_def Let_def split: option.split prod.split)

lemma insert_impl_cases:
  assumes ins: "insert_impl now now_utc due msg dir w = (ok, w')"
  obtains (unchanged) "\<not> ok" "w' = w"
    | (used) "\<not> ok" "w' = w\<lparr>tw_next_slot := tw_next_slot w + 1\<rparr>"
    | (placed) d p where "ok" "compute_list w d dir = Some p" "w' = place_in msg p w"
proof (cases due)
  case None
  then show thesis using ins unchanged by (simp add: insert_impl_alt)
next
  case (Some d)
  show thesis
  proof (cases "d \<le> now_utc")
    case True
    then show thesis using ins Some unchanged by (simp add: insert_impl_alt)
  next
    case False
    then show thesis
      using ins Some used placed by (cases "compute_list w (now + nat (d - now_utc)) dir") (simp_all add: insert_impl_alt)
  qed
qed

text \<open>An insertion that succeeds adds the message, one that fails only uses up a slot.\<close>

lemma insert_impl_inv:
  assumes inv: "wheel_inv_with W w" and pos: "0 < tw_slots w"
    and ins: "insert_impl now now_utc due msg dir w = (ok, w')"
  shows "wheel_inv_with W w'" "same_frame w w'" "held w' = (if ok then insert msg (held w) else held w)"
    "\<not> ok \<Longrightarrow> tw_entry_by_id w' = tw_entry_by_id w"
proof -
  let ?w1 = "w\<lparr>tw_next_slot := tw_next_slot w + 1\<rparr>"
  have same: "listed (w\<lparr>tw_next_slot := n\<rparr>) = listed w" for n by (simp add: listed_def)
  have inv1: "wheel_inv_with W ?w1"
    by (rule wheel_inv_shrink[OF inv]) (simp_all add: same)
  from ins have "wheel_inv_with W w' \<and> same_frame w w' \<and> held w' = (if ok then insert msg (held w) else held w)
      \<and> (\<not> ok \<longrightarrow> tw_entry_by_id w' = tw_entry_by_id w)"
  proof (cases rule: insert_impl_cases)
    case (placed d p)
    obtain t k where p: "p = (t, k)" by fastforce
    have w': "w' = (set_list t k (tw_lists w t k @ [tw_next_slot w]) ?w1)
         \<lparr>tw_slot_to_id := (tw_slot_to_id w)(tw_next_slot w \<mapsto> msg), tw_entry_by_id := (tw_entry_by_id w)(msg \<mapsto> tw_next_slot w)\<rparr>"
      using placed(3) by (simp add: place_in_def p)
    have b: "t < tw_slots w" "k < wheel_size" using compute_list_bounds[of w d dir t k] placed(2) pos p by auto
    let ?w2 = "set_list t k (tw_lists w t k @ [tw_next_slot w]) ?w1"
    have l: "listed w' = listed ?w2" by (simp add: w' listed_def)
    have "listed w \<union> set (tw_lists w t k @ [tw_next_slot w]) \<subseteq> listed ?w2"
      using listed_set_list(2)[of t ?w1 k "tw_lists w t k @ [tw_next_slot w]"] b by (auto simp: same)
    then have sub: "listed w \<subseteq> listed w'" "tw_next_slot w \<in> listed w'" using l by auto
    have "wheel_inv_with W w'"
      unfolding wheel_inv_with_def
    proof (intro conjI allI impI)
      fix m s
      assume e: "tw_entry_by_id w' m = Some s"
      have old: "tw_slot_to_id w s = Some m \<and> s < tw_next_slot w \<and> s \<in> listed w \<union> W" if "tw_entry_by_id w m = Some s"
        using inv that by (simp add: wheel_inv_with_def)
      show "tw_slot_to_id w' s = Some m" "s < tw_next_slot w'" "s \<in> listed w' \<union> W"
        using e old sub by (auto simp: w' split: if_splits)
    next
      fix m s
      assume "tw_slot_to_id w' s = Some m"
      moreover have "s < tw_next_slot w" if "tw_slot_to_id w s = Some m" using inv that by (simp add: wheel_inv_with_def)
      ultimately show "s < tw_next_slot w'" by (auto simp: w' split: if_splits)
    qed
    moreover have "same_frame w w'" "held w' = insert msg (held w)" by (simp_all add: w' same_frame_def held_def set_list_def)
    ultimately show ?thesis using placed(1) by simp
  qed (use inv inv1 in \<open>simp_all add: same_frame_def held_def\<close>)
  then show "wheel_inv_with W w'" "same_frame w w'" "held w' = (if ok then insert msg (held w) else held w)"
    "\<not> ok \<Longrightarrow> tw_entry_by_id w' = tw_entry_by_id w" by blast+
qed

section \<open>Taking out what is due keeps everything else\<close>

definition ripe :: "int \<Rightarrow> (nat \<Rightarrow> int option) \<Rightarrow> nat \<Rightarrow> bool" where
  "ripe now_utc due msg = (case due msg of None \<Rightarrow> True | Some d \<Rightarrow> d \<le> now_utc)"

lemma compute_list_down:
  assumes "tw_created w \<le> tw_next_run w" "tw_next_run w \<le> d"
  shows "compute_list w d Down \<noteq> None"
proof -
  have "(tw_next_run w - tw_created w) div 1000000 div (tw_resolution w div 1000000)
      \<le> (d - tw_created w) div 1000000 div (tw_resolution w div 1000000)"
    using assms by (intro div_le_mono diff_le_mono)
  then show ?thesis using assms by (simp add: compute_list_def compute_abs_tick_def Let_def)
qed

lemma insert_impl_ripe:
  assumes "tw_created w \<le> tw_next_run w" "tw_next_run w \<le> now" "insert_impl now now_utc (due msg) msg Down w = (False, w')"
  shows "ripe now_utc due msg"
proof (cases "due msg")
  case (Some d)
  have "compute_list w (now + nat (d - now_utc)) Down \<noteq> None" using assms(1,2) by (intro compute_list_down) simp_all
  then show ?thesis using assms(3) Some by (auto simp: insert_impl_alt ripe_def split: if_splits)
qed (simp add: ripe_def)

text \<open>The times at which a wheel is swept.\<close>

definition sweep_time :: "nat \<Rightarrow> timer_wheel \<Rightarrow> bool" where
  "sweep_time now w \<longleftrightarrow> 0 < tw_slots w \<and> tw_created w \<le> tw_next_run w \<and> tw_next_run w \<le> now"

lemma sweep_time_frame: "same_frame w w' \<Longrightarrow> sweep_time now w' = sweep_time now w"
  by (simp add: same_frame_def sweep_time_def)

text \<open>A sweep from one state to the next: it lets go of ripe messages only.\<close>

definition sweeps ::
  "int \<Rightarrow> (nat \<Rightarrow> int option) \<Rightarrow> timer_wheel \<times> nat list \<Rightarrow> timer_wheel \<times> nat list \<Rightarrow> bool" where
  "sweeps now_utc due st st' \<longleftrightarrow>
     (\<exists>out. snd st' = snd st @ out \<and> releases (fst st) out (fst st') \<and> list_all (ripe now_utc due) out)"

lemma sweeps_trans: "sweeps u due a b \<Longrightarrow> sweeps u due b c \<Longrightarrow> sweeps u due a c"
  unfolding sweeps_def by (elim exE conjE) (auto intro!: releases_trans)

lemma sweeps_quiet: "held w' = held w \<Longrightarrow> same_frame w w' \<Longrightarrow> sweeps u due (w, ready) (w', ready)"
  unfolding sweeps_def by (auto intro!: releases_none exI[of _ "[]"])

lemma sweeps_frame: "sweeps u due st st' \<Longrightarrow> same_frame (fst st) (fst st')"
  by (auto simp: sweeps_def releases_def)

text \<open>Forgetting a slot that is not the current one of any message.\<close>

lemma forget_slot_inv:
  assumes "wheel_inv_with (insert s W) w" "\<And>m. tw_entry_by_id w m \<noteq> Some s"
  shows "wheel_inv_with W (w\<lparr>tw_slot_to_id := (tw_slot_to_id w)(s := None)\<rparr>)" "wheel_inv_with W w"
proof -
  have l: "listed (w\<lparr>tw_slot_to_id := f\<rparr>) = listed w" for f by (simp add: listed_def)
  show "wheel_inv_with W (w\<lparr>tw_slot_to_id := (tw_slot_to_id w)(s := None)\<rparr>)"
    using assms(2) by (intro wheel_inv_shrink[OF assms(1)]) (auto simp: l split: if_splits)
  show "wheel_inv_with W w"
    using assms(2) by (intro wheel_inv_shrink[OF assms(1)]) auto
qed

text \<open>Forgetting a slot with its message.\<close>

lemma forget_entry_inv:
  assumes "wheel_inv_with (insert s W) w" "tw_entry_by_id w msg = Some s"
  shows "wheel_inv_with W (w\<lparr>tw_slot_to_id := (tw_slot_to_id w)(s := None), tw_entry_by_id := (tw_entry_by_id w)(msg := None)\<rparr>)"
proof -
  have uniq: "m = msg" if "tw_entry_by_id w m = Some s" for m
  proof -
    have "tw_slot_to_id w s = Some m" "tw_slot_to_id w s = Some msg"
      using assms that unfolding wheel_inv_with_def by blast+
    then show ?thesis by simp
  qed
  have l: "listed (w\<lparr>tw_slot_to_id := f, tw_entry_by_id := g\<rparr>) = listed w" for f g by (simp add: listed_def)
  show ?thesis
    using uniq by (intro wheel_inv_shrink[OF assms(1)]) (auto simp: l split: if_splits)
qed

lemma compute_list_tables [simp]:
  "compute_list (w\<lparr>tw_entry_by_id := g\<rparr>) d dir = compute_list w d dir"
  "compute_list (w\<lparr>tw_slot_to_id := f\<rparr>) d dir = compute_list w d dir"
proof -
  have "compute_abs_tick (w\<lparr>tw_entry_by_id := g\<rparr>) d dir = compute_abs_tick w d dir"
    "compute_abs_tick (w\<lparr>tw_slot_to_id := f\<rparr>) d dir = compute_abs_tick w d dir" for d
    by (cases dir; simp add: compute_abs_tick_def)+
  then show "compute_list (w\<lparr>tw_entry_by_id := g\<rparr>) d dir = compute_list w d dir"
    "compute_list (w\<lparr>tw_slot_to_id := f\<rparr>) d dir = compute_list w d dir"
    by (simp_all add: compute_list_def split: option.split)
qed

text \<open>A live slot is handled as if its message had been taken out first.\<close>

lemma process_slot_live:
  assumes "tw_slot_to_id w s = Some msg" "tw_entry_by_id w msg = Some s"
  defines "w0 \<equiv> w\<lparr>tw_slot_to_id := (tw_slot_to_id w)(s := None), tw_entry_by_id := (tw_entry_by_id w)(msg := None)\<rparr>"
  shows "process_slot now now_utc due s (w, ready) =
    (case insert_impl now now_utc (due msg) msg Down w0 of (ok, w') \<Rightarrow> (w', if ok then ready else ready @ [msg]))"
  using assms(1,2)
  by (auto simp: process_slot_def w0_def insert_impl_alt place_in_def set_list_def Let_def
      split: option.split if_splits)

lemma process_slot_sweeps:
  assumes inv: "wheel_inv_with (insert s W) w" and time: "sweep_time now w"
    and p: "process_slot now now_utc due s (w, ready) = st'"
  shows "wheel_inv_with W (fst st') \<and> sweeps now_utc due (w, ready) st'"
proof -
  consider (none) "tw_slot_to_id w s = None"
    | (stale) msg where "tw_slot_to_id w s = Some msg" "tw_entry_by_id w msg \<noteq> Some s"
    | (live) msg where "tw_slot_to_id w s = Some msg" "tw_entry_by_id w msg = Some s" by fastforce
  then show ?thesis
  proof cases
    case none
    have "tw_entry_by_id w m \<noteq> Some s" for m
      using inv none unfolding wheel_inv_with_def by force
    then show ?thesis using forget_slot_inv(2)[OF inv] none p by (auto simp: process_slot_def intro!: sweeps_quiet)
  next
    case (stale msg)
    have "tw_entry_by_id w m \<noteq> Some s" for m
      using inv stale unfolding wheel_inv_with_def by force
    moreover have "st' = (w\<lparr>tw_slot_to_id := (tw_slot_to_id w)(s := None)\<rparr>, ready)"
      using stale p by (auto simp: process_slot_def Let_def split: option.split)
    ultimately show ?thesis
      using forget_slot_inv(1)[OF inv] by (auto intro!: sweeps_quiet simp: held_def same_frame_def)
  next
    case (live msg)
    define w0 where "w0 = w\<lparr>tw_slot_to_id := (tw_slot_to_id w)(s := None), tw_entry_by_id := (tw_entry_by_id w)(msg := None)\<rparr>"
    have inv0: "wheel_inv_with W w0" unfolding w0_def by (rule forget_entry_inv[OF inv live(2)])
    have frame0: "same_frame w w0" and held0: "held w0 = held w - {msg}" "msg \<in> held w"
      using live(2) by (auto simp: w0_def same_frame_def held_def)
    have time0: "sweep_time now w0" using sweep_time_frame[OF frame0] time by simp
    obtain ok w' where ins: "insert_impl now now_utc (due msg) msg Down w0 = (ok, w')" by fastforce
    have st': "st' = (w', if ok then ready else ready @ [msg])"
      using process_slot_live[OF live, folded w0_def] ins p by simp
    have pos: "0 < tw_slots w0" using time0 by (simp add: sweep_time_def)
    note r = insert_impl_inv[OF inv0 pos ins]
    have frame: "same_frame w w'" using frame0 r(2) by (simp add: same_frame_def)
    show ?thesis
    proof (cases ok)
      case True
      then show ?thesis using r(1,3) st' held0 frame by (auto intro!: sweeps_quiet)
    next
      case False
      have "ripe now_utc due msg"
        using insert_impl_ripe[of w0 now now_utc due msg w'] time0 ins False by (simp add: sweep_time_def)
      moreover have "releases w [msg] w'" using False r(3) held0 frame by (auto simp: releases_def)
      ultimately show ?thesis using r(1) st' False by (auto simp: sweeps_def)
    qed
  qed
qed

lemma process_slots_sweeps:
  assumes "wheel_inv_with (set slots) w" "sweep_time now w"
  shows "wheel_inv_with {} (fst (process_slots now now_utc due slots (w, ready)))
    \<and> sweeps now_utc due (w, ready) (process_slots now now_utc due slots (w, ready))"
  using assms
proof (induction slots arbitrary: w ready)
  case Nil
  then show ?case by (simp add: process_slots_def sweeps_quiet)
next
  case (Cons s slots)
  obtain w1 r1 where st1: "process_slot now now_utc due s (w, ready) = (w1, r1)" by fastforce
  have one: "wheel_inv_with (set slots) w1" "sweeps now_utc due (w, ready) (w1, r1)"
    using process_slot_sweeps[of s "set slots" w now now_utc due ready "(w1, r1)"] Cons.prems st1 by simp_all
  have "sweep_time now w1" using sweep_time_frame[OF sweeps_frame[OF one(2)]] Cons.prems(2) by simp
  from Cons.IH[OF one(1) this, of r1] sweeps_trans[OF one(2)] st1
  show ?case by (auto simp: process_slots_def)
qed

lemma cascade_inv:
  "wheel_inv_with (set reinsert) w \<Longrightarrow> set tiers \<subseteq> {..<tw_slots w} \<Longrightarrow> cascade tiers idx (w, reinsert) = (w', reinsert')
     \<Longrightarrow> wheel_inv_with (set reinsert') w' \<and> held w' = held w \<and> same_frame w w'"
proof (induction tiers arbitrary: w reinsert)
  case (Cons tier tiers)
  define k where "k = (idx div 2 ^ (tier * 8)) mod wheel_size"
  define w1 where "w1 = set_list tier k [] w"
  define r1 where "r1 = reinsert @ rev (tw_lists w tier k)"
  have "k < wheel_size" "tier < tw_slots w" using Cons.prems(2) by (simp_all add: k_def)
  then have inv1: "wheel_inv_with (set r1) w1"
    using take_list_inv[OF Cons.prems(1)] by (simp add: w1_def r1_def)
  have same: "held w1 = held w" "same_frame w w1" "tw_slots w1 = tw_slots w" by (simp_all add: w1_def)
  have step: "cascade (tier # tiers) idx (w, reinsert) = (if k = 0 then cascade tiers idx (w1, r1) else (w1, r1))"
    by (simp add: Let_def k_def w1_def r1_def)
  show ?case
  proof (cases "k = 0")
    case True
    then have c: "cascade tiers idx (w1, r1) = (w', reinsert')" using Cons.prems(3) step by simp
    have "set tiers \<subseteq> {..<tw_slots w1}" using Cons.prems(2) same(3) by simp
    from Cons.IH[OF inv1 this c] same show ?thesis by (simp add: same_frame_def)
  next
    case False
    then show ?thesis using Cons.prems(3) step inv1 same by simp
  qed
qed simp

lemma cascade_tick_sweeps:
  assumes "wheel_inv_with {} w" "sweep_time now w"
  shows "wheel_inv_with {} (fst (cascade_tick now now_utc due idx (w, ready)))
    \<and> sweeps now_utc due (w, ready) (cascade_tick now now_utc due idx (w, ready))"
proof (cases "idx mod wheel_size = 0")
  case True
  obtain w1 re where c: "cascade [1..<tw_slots w] idx (w, []) = (w1, re)" by fastforce
  have sub: "set [1..<tw_slots w] \<subseteq> {..<tw_slots w}" by auto
  have one: "wheel_inv_with (set re) w1" "held w1 = held w" "same_frame w w1"
    using cascade_inv[OF _ sub c] assms(1) by simp_all
  have "sweep_time now w1" using sweep_time_frame[OF one(3)] assms(2) by simp
  then have "wheel_inv_with {} (fst (process_slots now now_utc due (rev re) (w1, ready)))"
    "sweeps now_utc due (w1, ready) (process_slots now now_utc due (rev re) (w1, ready))"
    using process_slots_sweeps[of "rev re" w1] one(1) by simp_all
  then show ?thesis
    using True c sweeps_trans[OF sweeps_quiet[OF one(2,3)]] by (simp add: cascade_tick_def)
qed (simp add: cascade_tick_def assms sweeps_quiet)

lemma first_wheel_tick_sweeps:
  assumes "wheel_inv_with {} w" "sweep_time now w"
  shows "wheel_inv_with {} (fst (first_wheel_tick now now_utc due idx (w, ready)))
    \<and> sweeps now_utc due (w, ready) (first_wheel_tick now now_utc due idx (w, ready))"
proof -
  define k where "k = idx mod wheel_size"
  define w1 where "w1 = set_list 0 k [] w"
  have "wheel_inv_with (set (rev (tw_lists w 0 k))) w1"
    using take_list_inv[OF assms(1), of 0 k] assms(2) by (simp add: k_def w1_def sweep_time_def)
  moreover have same: "held w1 = held w" "same_frame w w1" by (simp_all add: w1_def)
  moreover have "sweep_time now w1" using sweep_time_frame[OF same(2)] assms(2) by simp
  ultimately show ?thesis
    using process_slots_sweeps[of "rev (tw_lists w 0 k)" w1 now now_utc due ready] sweeps_trans[OF sweeps_quiet[OF same]]
    by (simp add: first_wheel_tick_def Let_def k_def w1_def)
qed

text \<open>Both kinds of tick, over a range of ticks.\<close>

lemma fold_sweeps:
  assumes step: "\<And>idx w ready. wheel_inv_with {} w \<Longrightarrow> sweep_time now w \<Longrightarrow>
      wheel_inv_with {} (fst (f idx (w, ready))) \<and> sweeps now_utc due (w, ready) (f idx (w, ready))"
  shows "wheel_inv_with {} (fst st) \<Longrightarrow> sweep_time now (fst st)
    \<Longrightarrow> wheel_inv_with {} (fst (fold f xs st)) \<and> sweeps now_utc due st (fold f xs st)"
proof (induction xs arbitrary: st)
  case Nil
  then show ?case by (cases st) (simp add: sweeps_quiet)
next
  case (Cons x xs)
  have one: "wheel_inv_with {} (fst (f x st))" "sweeps now_utc due st (f x st)"
    using step[OF Cons.prems(1,2), of x "snd st"] by simp_all
  have "sweep_time now (fst (f x st))" using sweep_time_frame[OF sweeps_frame[OF one(2)]] Cons.prems(2) by simp
  from Cons.IH[OF one(1) this] sweeps_trans[OF one(2)] show ?case by auto
qed

lemma pop_impl_sweeps:
  assumes inv: "wheel_inv w"
  shows "\<exists>w' ready. pop_impl now now_utc due w = Some (w', ready) \<and> wheel_inv w' \<and> distinct ready
    \<and> held w = held w' \<union> set ready \<and> held w' \<inter> set ready = {} \<and> list_all (ripe now_utc due) ready"
proof (cases "now < tw_next_run w")
  case True
  then show ?thesis using inv by (simp add: pop_impl_def)
next
  case False
  have t: "wheel_times w" "wheel_inv_with {} w" using inv by (simp_all add: wheel_inv_def)
  then have time: "tw_last_dispatched w \<le> now" using False by (simp add: wheel_times_def)
  from t have sweep: "sweep_time now w" using False by (simp add: sweep_time_def wheel_times_def)
  obtain a b where ticks: "compute_abs_tick w (tw_last_dispatched w) Down = Some a" "compute_abs_tick w now Down = Some b"
    using t(1) time by (auto simp: compute_abs_tick_def wheel_times_def Let_def)
  define st1 where "st1 = fold (cascade_tick now now_utc due) [a + 1..<b + 1] (w, [])"
  obtain w2 ready where st2: "fold (first_wheel_tick now now_utc due) [a + 1..<a + min (b - a) wheel_size + 1] st1 = (w2, ready)"
    by fastforce
  have one: "wheel_inv_with {} (fst st1)" "sweeps now_utc due (w, []) st1"
    using fold_sweeps[of now "cascade_tick now now_utc due" now_utc due "(w, [])"] cascade_tick_sweeps t(2) sweep
    unfolding st1_def by auto
  have "sweep_time now (fst st1)" using sweep_time_frame[OF sweeps_frame[OF one(2)]] sweep by simp
  with one(1) have two: "wheel_inv_with {} w2" "sweeps now_utc due st1 (w2, ready)"
    using fold_sweeps[of now "first_wheel_tick now now_utc due" now_utc due st1 "[a + 1..<a + min (b - a) wheel_size + 1]"]
      first_wheel_tick_sweeps st2 by auto
  have all: "releases w ready w2" "list_all (ripe now_utc due) ready"
    using sweeps_trans[OF one(2) two(2)] by (auto simp: sweeps_def)
  define w3 where "w3 = w2\<lparr>tw_last_dispatched := now, tw_next_run := now + tw_resolution w2\<rparr>"
  have "pop_impl now now_utc due w = Some (w3, ready)"
    using False ticks st2 unfolding w3_def st1_def by (simp add: pop_impl_def Let_def)
  moreover have "wheel_inv w3"
    using two(1) t(1) all(1) time
    by (auto simp: wheel_inv_def wheel_inv_with_def w3_def listed_def wheel_times_def releases_def same_frame_def)
  moreover have "held w3 = held w2" by (simp add: w3_def held_def)
  ultimately show ?thesis using all by (auto simp: releases_def)
qed

section \<open>Draining, sweeping and cancelling\<close>

lemma drain_slot_sweeps:
  assumes inv: "wheel_inv_with (insert s W) w"
  shows "wheel_inv_with W (fst (drain_slot s (w, out))) \<and> sweeps 0 (\<lambda>_. None) (w, out) (drain_slot s (w, out))"
proof -
  consider (none) "tw_slot_to_id w s = None"
    | (stale) msg where "tw_slot_to_id w s = Some msg" "tw_entry_by_id w msg \<noteq> Some s"
    | (live) msg where "tw_slot_to_id w s = Some msg" "tw_entry_by_id w msg = Some s" by fastforce
  then show ?thesis
  proof cases
    case none
    have "tw_entry_by_id w m \<noteq> Some s" for m using inv none unfolding wheel_inv_with_def by force
    then show ?thesis using forget_slot_inv(2)[OF inv] none by (auto simp: drain_slot_def intro!: sweeps_quiet)
  next
    case (stale msg)
    have "tw_entry_by_id w m \<noteq> Some s" for m using inv stale unfolding wheel_inv_with_def by force
    then show ?thesis
      using forget_slot_inv(1)[OF inv] stale
      by (auto simp: drain_slot_def Let_def held_def same_frame_def intro!: sweeps_quiet)
  next
    case (live msg)
    let ?w = "w\<lparr>tw_slot_to_id := (tw_slot_to_id w)(s := None), tw_entry_by_id := (tw_entry_by_id w)(msg := None)\<rparr>"
    have "releases w [msg] ?w" using live(2) by (auto simp: releases_def held_def same_frame_def)
    then show ?thesis
      using forget_entry_inv[OF inv live(2)] live by (simp add: drain_slot_def Let_def sweeps_def ripe_def)
  qed
qed

lemma fold_drain_sweeps:
  "wheel_inv_with (set slots) w \<Longrightarrow>
     wheel_inv_with {} (fst (fold drain_slot slots (w, out))) \<and> sweeps 0 (\<lambda>_. None) (w, out) (fold drain_slot slots (w, out))"
proof (induction slots arbitrary: w out)
  case (Cons s slots)
  obtain w1 o1 where st: "drain_slot s (w, out) = (w1, o1)" by fastforce
  have one: "wheel_inv_with (set slots) w1" "sweeps 0 (\<lambda>_. None) (w, out) (w1, o1)"
    using drain_slot_sweeps[of s "set slots" w out] Cons.prems st by simp_all
  from Cons.IH[OF one(1), of o1] sweeps_trans[OF one(2)] st show ?case by auto
qed (simp add: sweeps_quiet)

lemma drain_slot_lists: "tw_lists (fst (drain_slot s st)) = tw_lists (fst st)"
  by (simp add: drain_slot_def Let_def split: prod.split option.split)

lemma fold_drain_lists: "tw_lists (fst (fold drain_slot slots st)) = tw_lists (fst st)"
  by (induction slots arbitrary: st) (simp_all add: drain_slot_lists)

lemma drain_list_lists:
  "tw_lists (fst (drain_list p st)) t k = (if (t, k) = p then [] else tw_lists (fst st) t k)"
  by (cases st; cases p) (auto simp: drain_list_def fold_drain_lists)

lemma fold_drain_list_lists:
  "tw_lists (fst (fold drain_list ps st)) t k = (if (t, k) \<in> set ps then [] else tw_lists (fst st) t k)"
  by (induction ps arbitrary: st) (auto simp: drain_list_lists)

lemma fold_drain_list_sweeps:
  "wheel_inv_with {} (fst st) \<Longrightarrow> set ps \<subseteq> {..<tw_slots (fst st)} \<times> {..<wheel_size} \<Longrightarrow>
     wheel_inv_with {} (fst (fold drain_list ps st)) \<and> sweeps 0 (\<lambda>_. None) st (fold drain_list ps st)"
proof (induction ps arbitrary: st)
  case Nil
  then show ?case by (cases st) (simp add: sweeps_quiet)
next
  case (Cons p ps)
  obtain w out where st: "st = (w, out)" by fastforce
  obtain t k where p: "p = (t, k)" by fastforce
  let ?w1 = "set_list t k [] w"
  have "wheel_inv_with (set (tw_lists w t k)) ?w1" using take_list_inv[of "{}" w t k] Cons.prems st p by simp
  from fold_drain_sweeps[OF this, of out]
  have one: "wheel_inv_with {} (fst (drain_list p st))" "sweeps 0 (\<lambda>_. None) (?w1, out) (drain_list p st)"
    by (simp_all add: drain_list_def st p)
  have two: "sweeps 0 (\<lambda>_. None) st (drain_list p st)"
    using sweeps_trans[OF sweeps_quiet one(2), of w] st by simp
  have "set ps \<subseteq> {..<tw_slots (fst (drain_list p st))} \<times> {..<wheel_size}"
    using Cons.prems(2) sweeps_frame[OF two] by (simp add: same_frame_def)
  from Cons.IH[OF one(1) this] sweeps_trans[OF two] show ?case by auto
qed

lemma set_all_positions: "set (all_positions n) = {..<n} \<times> {..<wheel_size}"
  by (auto simp: all_positions_def)

lemma wheel_drain_all:
  assumes "wheel_inv w"
  shows "wheel_inv (fst (wheel_drain w))" "held (fst (wheel_drain w)) = {}" "set (snd (wheel_drain w)) = held w"
    "distinct (snd (wheel_drain w))"
proof -
  note ps = set_all_positions[of "tw_slots w"]
  have d: "wheel_inv_with {} (fst (wheel_drain w))" "sweeps 0 (\<lambda>_. None) (w, []) (wheel_drain w)"
    using fold_drain_list_sweeps[of "(w, [])" "all_positions (tw_slots w)"] assms ps
    by (simp_all add: wheel_drain_def wheel_inv_def)
  have r: "releases w (snd (wheel_drain w)) (fst (wheel_drain w))" using d(2) by (auto simp: sweeps_def)
  have "tw_slots (fst (wheel_drain w)) = tw_slots w" using r by (simp add: releases_def same_frame_def)
  then have "listed (fst (wheel_drain w)) = {}"
    using fold_drain_list_lists[of "all_positions (tw_slots w)" "(w, [])"] ps by (auto simp: listed_def wheel_drain_def)
  then show empty: "held (fst (wheel_drain w)) = {}" using d(1) unfolding wheel_inv_with_def held_def by fastforce
  show "wheel_inv (fst (wheel_drain w))"
    using d(1) assms r wheel_times_frame by (auto simp: wheel_inv_def releases_def)
  show "set (snd (wheel_drain w)) = held w" "distinct (snd (wheel_drain w))" using r empty by (simp_all add: releases_def)
qed

text \<open>Sweeping with a predicate: what it keeps, and the lists that hold nothing else any more.\<close>

definition retains :: "(nat \<Rightarrow> bool) \<Rightarrow> timer_wheel \<Rightarrow> timer_wheel \<Rightarrow> bool" where
  "retains keeper w w' \<longleftrightarrow>
     same_frame w w' \<and> (\<forall>m s. tw_entry_by_id w' m = Some s \<longrightarrow> tw_entry_by_id w m = Some s)
     \<and> (\<forall>m s. tw_entry_by_id w m = Some s \<and> keeper m \<longrightarrow> tw_entry_by_id w' m = Some s)"

definition kept :: "(nat \<Rightarrow> bool) \<Rightarrow> timer_wheel \<Rightarrow> nat \<Rightarrow> nat \<Rightarrow> bool" where
  "kept keeper w t k \<longleftrightarrow> (\<forall>s \<in> set (tw_lists w t k). \<exists>m. tw_entry_by_id w m = Some s \<and> keeper m)"

lemma retains_trans: "retains keeper a b \<Longrightarrow> retains keeper b c \<Longrightarrow> retains keeper a c"
  unfolding retains_def using same_frame_trans by blast

lemma retains_kept: "retains keeper w w' \<Longrightarrow> tw_lists w' t k = tw_lists w t k \<Longrightarrow> kept keeper w t k \<Longrightarrow> kept keeper w' t k"
  unfolding retains_def kept_def by metis

lemma retain_slot_step:
  assumes inv: "wheel_inv_with (insert s W) w" and p: "t < tw_slots w" "k < wheel_size" and kept: "kept keeper w t k"
  defines "w' \<equiv> retain_slot keeper (t, k) s w"
  shows "wheel_inv_with W w' \<and> retains keeper w w' \<and> kept keeper w' t k
    \<and> (\<forall>t' k'. (t', k') \<noteq> (t, k) \<longrightarrow> tw_lists w' t' k' = tw_lists w t' k')"
proof -
  consider (none) "tw_slot_to_id w s = None"
    | (stale) msg where "tw_slot_to_id w s = Some msg" "tw_entry_by_id w msg \<noteq> Some s"
    | (keep) msg where "tw_slot_to_id w s = Some msg" "tw_entry_by_id w msg = Some s" "keeper msg"
    | (drop) msg where "tw_slot_to_id w s = Some msg" "tw_entry_by_id w msg = Some s" "\<not> keeper msg" by fastforce
  then show ?thesis
  proof cases
    case none
    have "tw_entry_by_id w m \<noteq> Some s" for m using inv none unfolding wheel_inv_with_def by force
    then show ?thesis using forget_slot_inv(2)[OF inv] none kept by (simp add: w'_def retain_slot_def retains_def)
  next
    case (stale msg)
    have "tw_entry_by_id w m \<noteq> Some s" for m using inv stale unfolding wheel_inv_with_def by force
    then show ?thesis
      using forget_slot_inv(1)[OF inv] stale kept by (simp add: w'_def retain_slot_def retains_def same_frame_def kept_def)
  next
    case (keep msg)
    have w': "w' = set_list t k (tw_lists w t k @ [s]) w" using keep by (simp add: w'_def retain_slot_def)
    have "listed w \<union> set (tw_lists w t k @ [s]) \<subseteq> listed w'"
      using listed_set_list(2)[OF p, of "tw_lists w t k @ [s]"] by (auto simp: w')
    then have "wheel_inv_with W w'" by (intro wheel_inv_shrink[OF inv]) (auto simp: w')
    then show ?thesis using keep kept by (auto simp: w' retains_def kept_def)
  next
    case (drop msg)
    have uniq: "m = msg" if "tw_entry_by_id w m = Some s" for m
      using inv that drop(1) unfolding wheel_inv_with_def by force
    have w': "w' = w\<lparr>tw_slot_to_id := (tw_slot_to_id w)(s := None), tw_entry_by_id := (tw_entry_by_id w)(msg := None)\<rparr>"
      using drop by (simp add: w'_def retain_slot_def)
    have "retains keeper w w'" using drop by (auto simp: w' retains_def same_frame_def)
    moreover have "kept keeper w' t k" using retains_kept[OF calculation _ kept] by (simp add: w')
    ultimately show ?thesis using forget_entry_inv[OF inv drop(2)] by (simp add: w')
  qed
qed

lemma fold_retain_slot:
  "\<lbrakk>wheel_inv_with (set slots) w; t < tw_slots w; k < wheel_size; kept keeper w t k\<rbrakk>
     \<Longrightarrow> let w' = fold (retain_slot keeper (t, k)) slots w in
        wheel_inv_with {} w' \<and> retains keeper w w' \<and> kept keeper w' t k
        \<and> (\<forall>t' k'. (t', k') \<noteq> (t, k) \<longrightarrow> tw_lists w' t' k' = tw_lists w t' k')"
proof (induction slots arbitrary: w)
  case Nil
  then show ?case by (simp add: retains_def)
next
  case (Cons s slots)
  define w1 where "w1 = retain_slot keeper (t, k) s w"
  have one: "wheel_inv_with (set slots) w1" "retains keeper w w1" "kept keeper w1 t k"
    "\<forall>t' k'. (t', k') \<noteq> (t, k) \<longrightarrow> tw_lists w1 t' k' = tw_lists w t' k'"
    using retain_slot_step[of s "set slots" w t k keeper] Cons.prems by (simp_all add: w1_def)
  have "t < tw_slots w1" using one(2) Cons.prems(2) by (simp add: retains_def same_frame_def)
  from Cons.IH[OF one(1) this Cons.prems(3) one(3)] retains_trans[OF one(2)] one(4)
  show ?case by (simp add: Let_def w1_def)
qed

lemma retain_list_step:
  fixes keeper :: "nat \<Rightarrow> bool"
  assumes "wheel_inv_with {} w" "t < tw_slots w" "k < wheel_size"
  defines "w' \<equiv> retain_list keeper (t, k) w"
  shows "wheel_inv_with {} w' \<and> retains keeper w w' \<and> kept keeper w' t k
    \<and> (\<forall>t' k'. (t', k') \<noteq> (t, k) \<longrightarrow> tw_lists w' t' k' = tw_lists w t' k')"
proof -
  let ?w1 = "set_list t k [] w"
  have "wheel_inv_with (set (tw_lists w t k)) ?w1" using take_list_inv[OF assms(1-3)] by simp
  moreover have "kept keeper ?w1 t k" by (simp add: kept_def)
  moreover have "retains keeper w ?w1" by (simp add: retains_def)
  ultimately show ?thesis
    using fold_retain_slot[of "tw_lists w t k" ?w1 t k keeper] assms(2,3) retains_trans[of keeper w ?w1]
    by (auto simp: w'_def retain_list_def Let_def)
qed

lemma fold_retain_list:
  "wheel_inv_with {} w \<Longrightarrow> set ps \<subseteq> {..<tw_slots w} \<times> {..<wheel_size} \<Longrightarrow>
     let w' = fold (retain_list keeper) ps w in
       wheel_inv_with {} w' \<and> retains keeper w w' \<and> (\<forall>t k. (t, k) \<in> set ps \<or> kept keeper w t k \<longrightarrow> kept keeper w' t k)"
proof (induction ps arbitrary: w)
  case Nil
  then show ?case by (simp add: retains_def)
next
  case (Cons p ps)
  obtain t k where p: "p = (t, k)" by fastforce
  define w1 where "w1 = retain_list keeper p w"
  have one: "wheel_inv_with {} w1" "retains keeper w w1" "kept keeper w1 t k"
    "\<forall>t' k'. (t', k') \<noteq> (t, k) \<longrightarrow> tw_lists w1 t' k' = tw_lists w t' k'"
    using retain_list_step[of w t k keeper] Cons.prems p by (simp_all add: w1_def)
  have kept1: "kept keeper w1 t' k'" if "(t', k') = p \<or> kept keeper w t' k'" for t' k'
    using that one(3) retains_kept[OF one(2)] one(4) p by (cases "(t', k') = (t, k)") auto
  have sub: "set ps \<subseteq> {..<tw_slots w1} \<times> {..<wheel_size}"
    using Cons.prems(2) one(2) by (simp add: retains_def same_frame_def)
  from Cons.IH[OF one(1) sub] retains_trans[OF one(2)] kept1 show ?case by (auto simp: Let_def w1_def)
qed

lemma wheel_retain_exact:
  assumes "wheel_inv w"
  shows "wheel_inv (wheel_retain keeper w)" "held (wheel_retain keeper w) = {m \<in> held w. keeper m}"
proof -
  define w' where "w' = wheel_retain keeper w"
  have inv: "wheel_inv_with {} w'" and ret: "retains keeper w w'"
    and kept: "\<And>t k. t < tw_slots w \<Longrightarrow> k < wheel_size \<Longrightarrow> kept keeper w' t k"
    using fold_retain_list[of w "all_positions (tw_slots w)" keeper] assms
    unfolding w'_def wheel_retain_def wheel_inv_def Let_def set_all_positions by blast+
  have frame: "same_frame w w'" using ret by (simp add: retains_def)
  show "wheel_inv (wheel_retain keeper w)"
    using inv wheel_times_frame[OF frame] assms by (simp add: wheel_inv_def w'_def)
  have "keeper m" if e: "tw_entry_by_id w' m = Some s" for m s
  proof -
    have s: "tw_slot_to_id w' s = Some m" "s \<in> listed w'" using inv e unfolding wheel_inv_with_def by blast+
    then obtain t k where "t < tw_slots w" "k < wheel_size" "s \<in> set (tw_lists w' t k)"
      using frame by (auto simp: listed_def same_frame_def)
    with kept obtain m' where m': "tw_entry_by_id w' m' = Some s" "keeper m'" by (fastforce simp: kept_def)
    then have "tw_slot_to_id w' s = Some m'" using inv unfolding wheel_inv_with_def by blast
    then show ?thesis using s(1) m'(2) by simp
  qed
  then show "held (wheel_retain keeper w) = {m \<in> held w. keeper m}"
    using ret unfolding held_def retains_def w'_def[symmetric] by fast
qed

lemma wheel_cancel_exact:
  assumes "wheel_inv w"
  shows "wheel_inv (snd (wheel_cancel msg w))" "held (snd (wheel_cancel msg w)) = held w - {msg}"
    "fst (wheel_cancel msg w) \<longleftrightarrow> msg \<in> held w"
proof -
  have inv: "wheel_inv_with {} w" "wheel_times w" using assms by (simp_all add: wheel_inv_def)
  show "fst (wheel_cancel msg w) \<longleftrightarrow> msg \<in> held w" "held (snd (wheel_cancel msg w)) = held w - {msg}"
    by (auto simp: wheel_cancel_def held_def split: option.split)
  show "wheel_inv (snd (wheel_cancel msg w))"
  proof (cases "tw_entry_by_id w msg")
    case (Some s)
    have "wheel_inv_with {s} w" by (rule wheel_inv_shrink[OF inv(1)]) auto
    from forget_entry_inv[OF this Some] inv(2) Some show ?thesis
      by (simp add: wheel_cancel_def wheel_inv_def wheel_times_def)
  qed (simp add: wheel_cancel_def assms)
qed

text \<open>The operations of the queue as steps; a step that does not return leaves the queue as it was.\<close>

datatype wheel_op =
    WInsert nat int "int option" nat
  | WPop nat int "nat \<Rightarrow> int option"
  | WCancel nat
  | WRetain "nat \<Rightarrow> bool"
  | WDrain
  | WClear

fun wheel_step :: "wheel_op \<Rightarrow> timer_wheel \<Rightarrow> timer_wheel" where
  "wheel_step (WInsert now now_utc due msg) w = snd (wheel_insert now now_utc due msg w)"
| "wheel_step (WPop now now_utc due) w = (case pop_impl now now_utc due w of Some (w', _) \<Rightarrow> w' | None \<Rightarrow> w)"
| "wheel_step (WCancel msg) w = snd (wheel_cancel msg w)"
| "wheel_step (WRetain keeper) w = wheel_retain keeper w"
| "wheel_step WDrain w = fst (wheel_drain w)"
| "wheel_step WClear w = wheel_clear w"

lemma wheel_step_inv: "wheel_inv w \<Longrightarrow> wheel_inv (wheel_step opn w)"
proof (cases opn)
  case (WInsert now now_utc due msg)
  assume inv: "wheel_inv w"
  obtain ok w' where i: "insert_impl now now_utc due msg Up w = (ok, w')" by fastforce
  have "wheel_inv_with {} w'" "same_frame w w'"
    using insert_impl_inv(1,2)[OF _ _ i] inv by (auto simp: wheel_inv_def wheel_times_def)
  then show ?thesis
    using WInsert i wheel_times_frame inv by (simp add: wheel_insert_def wheel_inv_def)
next
  case (WPop now now_utc due)
  assume "wheel_inv w"
  from pop_impl_sweeps[OF this, of now now_utc due] WPop show ?thesis by auto
next
  case WClear
  assume "wheel_inv w"
  then show ?thesis using WClear by (simp add: wheel_clear_def wheel_inv_def wheel_inv_with_def wheel_times_def)
qed (simp_all add: wheel_cancel_exact wheel_retain_exact wheel_drain_all)

interpretation wheel_system: invariant_system wheel_step wheel_inv
  by unfold_locales (rule wheel_step_inv)

lemma wheel_new_inv: "0 < slots \<Longrightarrow> 1000000 \<le> resolution \<Longrightarrow> wheel_inv (timer_wheel_new slots now resolution)"
  by (simp add: timer_wheel_new_def wheel_inv_def wheel_inv_with_def wheel_times_def)

lemma timer_wheel_run:
  assumes "0 < slots" "1000000 \<le> resolution" "w = fold wheel_step opns (timer_wheel_new slots start resolution)"
  shows "wheel_contains w msg \<longleftrightarrow> msg \<in> held w"
    and "held (fst (wheel_drain w)) = {} \<and> set (snd (wheel_drain w)) = held w \<and> distinct (snd (wheel_drain w))"
    and "\<exists>w' ready. pop_impl now now_utc due w = Some (w', ready) \<and> distinct ready
      \<and> held w = held w' \<union> set ready \<and> held w' \<inter> set ready = {} \<and> list_all (ripe now_utc due) ready"
    and "held (snd (wheel_insert now now_utc d msg w)) = (if fst (wheel_insert now now_utc d msg w) then insert msg (held w) else held w)"
    and "held (snd (wheel_cancel msg w)) = held w - {msg}"
    and "held (wheel_retain keeper w) = {m \<in> held w. keeper m}"
proof -
  have inv: "wheel_inv w" unfolding assms(3) by (rule wheel_system.run_inv[OF wheel_new_inv[OF assms(1,2)]])
  then have inv_with: "wheel_inv_with {} w" "0 < tw_slots w" by (simp_all add: wheel_inv_def wheel_times_def)
  show "wheel_contains w msg \<longleftrightarrow> msg \<in> held w"
  proof (cases "tw_entry_by_id w msg")
    case (Some s)
    then have "tw_slot_to_id w s = Some msg" using inv_with(1) unfolding wheel_inv_with_def by blast
    then show ?thesis using Some by (auto simp: wheel_contains_def held_def)
  qed (auto simp: wheel_contains_def held_def)
  show "held (fst (wheel_drain w)) = {} \<and> set (snd (wheel_drain w)) = held w \<and> distinct (snd (wheel_drain w))"
    using wheel_drain_all[OF inv] by simp
  show "\<exists>w' ready. pop_impl now now_utc due w = Some (w', ready) \<and> distinct ready
      \<and> held w = held w' \<union> set ready \<and> held w' \<inter> set ready = {} \<and> list_all (ripe now_utc due) ready"
    using pop_impl_sweeps[OF inv] by blast
  show "held (snd (wheel_insert now now_utc d msg w)) = (if fst (wheel_insert now now_utc d msg w) then insert msg (held w) else held w)"
    using insert_impl_inv(3)[OF inv_with] by (metis wheel_insert_def prod.collapse)
  show "held (snd (wheel_cancel msg w)) = held w - {msg}" by (rule wheel_cancel_exact(2)[OF inv])
  show "held (wheel_retain keeper w) = {m \<in> held w. keeper m}" by (rule wheel_retain_exact(2)[OF inv])
qed

text \<open>C5: the timer wheel loses no message and gives none out twice or too early.  After any sequence of operations on a
  new queue, \<^verbatim>\<open>contains\<close> tells which messages it holds; a drain returns each of these once and leaves none; a
  pop always returns, splits the messages it holds into those it returns, each once, and those it keeps, and
  returns only messages that are due; an insertion that is accepted adds the message; a cancelled message
  is removed; and \<^verbatim>\<open>retain\<close> keeps just the messages its predicate accepts.\<close>

theorem timer_wheel_keeps_messages:
  assumes "0 < slots" "1000000 \<le> resolution" "w = fold wheel_step opns (timer_wheel_new slots start resolution)"
  shows "(wheel_contains w msg \<longleftrightarrow> msg \<in> held w)
    \<and> held (fst (wheel_drain w)) = {} \<and> set (snd (wheel_drain w)) = held w \<and> distinct (snd (wheel_drain w))
    \<and> (\<exists>w' ready. pop_impl now now_utc due w = Some (w', ready) \<and> distinct ready
         \<and> held w = held w' \<union> set ready \<and> held w' \<inter> set ready = {} \<and> list_all (ripe now_utc due) ready)
    \<and> held (snd (wheel_insert now now_utc d msg w)) =
        (if fst (wheel_insert now now_utc d msg w) then insert msg (held w) else held w)
    \<and> held (snd (wheel_cancel msg w)) = held w - {msg}
    \<and> held (wheel_retain keeper w) = {m \<in> held w. keeper m}"
  using timer_wheel_run[OF assms] by blast

lemma accepts_example: "fst (wheel_insert 0 0 (Some 10000000000) 7 (timer_wheel_new 3 0 3000000000))"
  by (simp add: wheel_insert_def insert_impl_alt compute_list_def compute_abs_tick_def timer_wheel_new_def
      as_millis_round_up_def div_ceil_def)

theorem timer_wheel_keeps_messages_witness:
  "(0::nat) < 3 \<and> (1000000::nat) \<le> 3000000000
   \<and> (let w = fold wheel_step [WInsert 0 0 (Some 10000000000) 7] (timer_wheel_new 3 0 3000000000) in
        held w = {7} \<and> wheel_contains w 7 \<and> set (snd (wheel_drain w)) = {7}
        \<and> held (wheel_retain (\<lambda>m. m \<noteq> 7) w) = {})"
proof -
  define w where "w = fold wheel_step [WInsert 0 0 (Some 10000000000) 7] (timer_wheel_new 3 0 3000000000)"
  have "held (timer_wheel_new 3 0 3000000000) = {}" by (simp add: held_def timer_wheel_new_def)
  then have h: "held w = {7}"
    using timer_wheel_keeps_messages[of 3 3000000000 "timer_wheel_new 3 0 3000000000" "[]" 0 7 0 0 "\<lambda>_. None" "Some 10000000000" "\<lambda>_. True"]
      accepts_example by (simp add: w_def)
  show ?thesis
    using timer_wheel_keeps_messages[of 3 3000000000 w "[WInsert 0 0 (Some 10000000000) 7]" 0 7 0 0 "\<lambda>_. None" None "\<lambda>m. m \<noteq> 7"] h
    unfolding w_def[symmetric] Let_def by auto
qed

section \<open>A message that misses its turn\<close>

text \<open>Ticks at which there is nothing to do.\<close>

lemma set_list_same: "tw_lists w t k = xs \<Longrightarrow> set_list t k xs w = w"
  by (simp add: set_list_def fun_upd_idem)

lemma first_wheel_quiet:
  "\<forall>x \<in> set xs. tw_lists w 0 (x mod wheel_size) = [] \<Longrightarrow> fold (first_wheel_tick now now_utc due) xs (w, ready) = (w, ready)"
  by (induction xs) (simp_all add: first_wheel_tick_def Let_def process_slots_def set_list_same)

lemma cascade_quiet:
  "\<forall>t \<in> set tiers. tw_lists w t ((idx div 2 ^ (t * 8)) mod wheel_size) = [] \<Longrightarrow> cascade tiers idx (w, re) = (w, re)"
proof (induction tiers)
  case (Cons t tiers)
  define k where "k = (idx div 2 ^ (t * 8)) mod wheel_size"
  have e: "tw_lists w t k = []" using Cons.prems by (simp add: k_def)
  have "cascade tiers idx (w, re) = (w, re)" using Cons by simp
  then show ?case unfolding cascade.simps Let_def k_def[symmetric] set_list_same[OF e] e by simp
qed simp

lemma cascade_ticks_quiet:
  "\<forall>x \<in> set xs. \<forall>t \<in> {1..<tw_slots w}. x mod wheel_size = 0 \<longrightarrow> tw_lists w t ((x div 2 ^ (t * 8)) mod wheel_size) = []
     \<Longrightarrow> fold (cascade_tick now now_utc due) xs (w, ready) = (w, ready)"
  by (induction xs) (simp_all add: cascade_tick_def cascade_quiet process_slots_def)

text \<open>A queue of three wheels with a tick of three seconds that holds one message, in a known list.\<close>

definition lone_wheel :: "nat \<Rightarrow> nat \<Rightarrow> nat \<Rightarrow> nat \<Rightarrow> timer_wheel" where
  "lone_wheel prev tier k slot =
     \<lparr>tw_resolution = 3000000000, tw_created = 0, tw_next_run = prev + 3000000000, tw_last_dispatched = prev,
      tw_slots = 3, tw_lists = (\<lambda>t j. if t = tier \<and> j = k then [slot] else []), tw_entry_by_id = [7 \<mapsto> slot],
      tw_slot_to_id = [slot \<mapsto> 7], tw_next_slot = slot + 1\<rparr>"

lemma lone_wheel_tick: "compute_abs_tick (lone_wheel prev tier k slot) t Down = Some (t div 1000000 div 3000)"
  by (simp add: lone_wheel_def compute_abs_tick_def)

lemma lone_wheel_pop_quiet:
  assumes "prev + 3000000000 \<le> now" "a = prev div 1000000 div 3000" "b = now div 1000000 div 3000"
    and first: "\<And>x. a < x \<Longrightarrow> x \<le> a + min (b - a) wheel_size \<Longrightarrow> tier = 0 \<Longrightarrow> x mod wheel_size \<noteq> k"
    and higher: "\<And>x. a < x \<Longrightarrow> x \<le> b \<Longrightarrow> tier \<noteq> 0 \<Longrightarrow> x mod wheel_size = 0 \<Longrightarrow> (x div 2 ^ (tier * 8)) mod wheel_size \<noteq> k"
  shows "pop_impl now now_utc due (lone_wheel prev tier k slot) = Some (lone_wheel now tier k slot, [])"
proof -
  define w where "w = lone_wheel prev tier k slot"
  have l: "tw_lists w t j = (if t = tier \<and> j = k then [slot] else [])" "tw_slots w = 3" for t j
    by (simp_all add: w_def lone_wheel_def)
  have c: "fold (cascade_tick now now_utc due) [a + 1..<b + 1] (w, []) = (w, [])"
  proof (rule cascade_ticks_quiet, intro ballI impI)
    fix x t
    assume "x \<in> set [a + 1..<b + 1]" "t \<in> {1..<tw_slots w}" "x mod wheel_size = 0"
    then show "tw_lists w t ((x div 2 ^ (t * 8)) mod wheel_size) = []" using higher[of x] by (auto simp: l simp del: upt_Suc)
  qed
  have f: "fold (first_wheel_tick now now_utc due) [a + 1..<a + min (b - a) wheel_size + 1] (w, []) = (w, [])"
  proof (rule first_wheel_quiet, intro ballI)
    fix x
    assume "x \<in> set [a + 1..<a + min (b - a) wheel_size + 1]"
    then show "tw_lists w 0 (x mod wheel_size) = []" using first[of x] by (auto simp: l simp del: upt_Suc)
  qed
  have t: "compute_abs_tick w (tw_last_dispatched w) Down = Some a" "compute_abs_tick w now Down = Some b"
    "\<not> now < tw_next_run w"
    using assms(1-3) by (simp_all add: w_def lone_wheel_tick) (simp_all add: lone_wheel_def)
  have "pop_impl now now_utc due w = Some (w\<lparr>tw_last_dispatched := now, tw_next_run := now + tw_resolution w\<rparr>, [])"
    unfolding pop_impl_def t option.case prod.case Let_def c f using t(3) by simp
  then show ?thesis by (simp add: w_def lone_wheel_def)
qed

lemma compute_list_frame: "same_frame w w' \<Longrightarrow> compute_list w' d dir = compute_list w d dir"
proof -
  assume f: "same_frame w w'"
  then have "compute_abs_tick w' t dir = compute_abs_tick w t dir" for t
    by (cases dir) (simp_all add: compute_abs_tick_def same_frame_def)
  then show ?thesis using f by (simp add: compute_list_def same_frame_def split: option.split)
qed

text \<open>The message is met, is not due yet and goes to another list.\<close>

lemma lone_wheel_moves:
  assumes "due 7 = Some d" "now_utc < d" "compute_list (lone_wheel prev tier k slot) (now + nat (d - now_utc)) Down = Some (t', k')"
  shows "process_slots now now_utc due [slot] (set_list tier k [] (lone_wheel prev tier k slot), ready) = (lone_wheel prev t' k' (slot + 1), ready)"
proof -
  define w0 where "w0 = (lone_wheel prev tier k slot)\<lparr>tw_lists := (\<lambda>_ _. []), tw_slot_to_id := Map.empty, tw_entry_by_id := Map.empty\<rparr>"
  let ?w = "set_list tier k [] (lone_wheel prev tier k slot)"
  have cleared: "?w = (lone_wheel prev tier k slot)\<lparr>tw_lists := (\<lambda>_ _. [])\<rparr>"
    by (simp add: set_list_def lone_wheel_def fun_eq_iff)
  have live: "tw_slot_to_id ?w slot = Some 7" "tw_entry_by_id ?w 7 = Some slot" by (simp_all add: lone_wheel_def)
  have w0: "?w\<lparr>tw_slot_to_id := (tw_slot_to_id ?w)(slot := None), tw_entry_by_id := (tw_entry_by_id ?w)(7 := None)\<rparr> = w0"
    unfolding cleared w0_def by (simp add: lone_wheel_def)
  have "compute_list w0 (now + nat (d - now_utc)) Down = Some (t', k')"
    using assms(3) compute_list_frame[of "lone_wheel prev tier k slot" w0] by (simp add: w0_def same_frame_def)
  then have "insert_impl now now_utc (due 7) 7 Down w0 = (True, place_in 7 (t', k') w0)"
    using assms(1,2) by (simp add: insert_impl_alt)
  moreover have "place_in 7 (t', k') w0 = lone_wheel prev t' k' (slot + 1)"
    by (auto simp: place_in_def w0_def lone_wheel_def set_list_def fun_eq_iff)
  ultimately show ?thesis
    using process_slot_live[OF live, of now now_utc due ready] w0 by (simp add: process_slots_def)
qed

lemma lone_wheel_list:
  "compute_list (lone_wheel prev tier k slot) t Down =
     (if t div 1000000 div 3000 < (prev + 3000000000) div 1000000 div 3000 then None
      else Some (list_position 3 ((prev + 3000000000) div 1000000 div 3000) (t div 1000000 div 3000)))"
proof -
  have "tw_next_run (lone_wheel prev tier k slot) = prev + 3000000000" "tw_slots (lone_wheel prev tier k slot) = 3"
    by (simp_all add: lone_wheel_def)
  then show ?thesis by (simp add: compute_list_def lone_wheel_tick)
qed

text \<open>Pops one after the other, with the two clocks in step, and what each returns.\<close>

fun pop_at :: "(nat \<Rightarrow> int option) \<Rightarrow> nat list \<Rightarrow> timer_wheel \<Rightarrow> nat list list option" where
  "pop_at due [] w = Some []"
| "pop_at due (t # ts) w =
     (case pop_impl t (int t) due w of
        None \<Rightarrow> None
      | Some (w', ready) \<Rightarrow> map_option ((#) ready) (pop_at due ts w'))"

definition due_899 :: "nat \<Rightarrow> int option" where
  "due_899 _ = Some 899000000000"

lemma lone_wheel_inserted: "wheel_insert 0 0 (due_899 7) 7 (timer_wheel_new 3 0 3000000000) = (True, lone_wheel 0 1 1 0)"
proof -
  have "compute_list (timer_wheel_new 3 0 3000000000) 899000000000 Up = Some (1, 1)"
    by (simp add: compute_list_def compute_abs_tick_def timer_wheel_new_def as_millis_round_up_def div_ceil_def
        list_position_def upt_rec)
  then show ?thesis
    by (auto simp: wheel_insert_def insert_impl_alt due_899_def place_in_def set_list_def timer_wheel_new_def lone_wheel_def
        fun_eq_iff)
qed

lemma lone_wheel_cascades:
  "pop_impl 768000000000 (int 768000000000) due_899 (lone_wheel 765000000000 1 1 0) = Some (lone_wheel 768000000000 0 43 1, [])"
proof -
  define w where "w = lone_wheel 765000000000 1 1 0"
  have t: "compute_abs_tick w (tw_last_dispatched w) Down = Some 255" "compute_abs_tick w 768000000000 Down = Some 256"
    "tw_next_run w = 768000000000" "tw_slots w = 3" "tw_lists w 1 1 = [0]"
    by (simp_all add: w_def lone_wheel_tick) (simp_all add: lone_wheel_def)
  have "compute_list w (768000000000 + nat (899000000000 - int 768000000000)) Down = Some (0, 43)"
    by (simp add: w_def lone_wheel_list list_position_def upt_rec)
  then have moves: "process_slots 768000000000 (int 768000000000) due_899 [0] (set_list 1 1 [] w, []) = (lone_wheel 765000000000 0 43 1, [])"
    using lone_wheel_moves[of due_899 899000000000 "int 768000000000" 765000000000 1 1 0 768000000000 0 43]
    by (simp add: w_def due_899_def)
  have "cascade [1..<3] 256 (w, []) = (set_list 1 1 [] w, [0])"
    using t(5) by (simp add: upt_rec Let_def)
  then have c: "fold (cascade_tick 768000000000 (int 768000000000) due_899) [255 + 1..<256 + 1] (w, []) = (lone_wheel 765000000000 0 43 1, [])"
    using moves t(4) by (simp add: cascade_tick_def upt_rec)
  have f: "fold (first_wheel_tick 768000000000 (int 768000000000) due_899) [255 + 1..<255 + min (256 - 255) wheel_size + 1]
      (lone_wheel 765000000000 0 43 1, []) = (lone_wheel 765000000000 0 43 1, [])"
    by (rule first_wheel_quiet) (simp add: lone_wheel_def upt_rec)
  show ?thesis
    unfolding w_def[symmetric] pop_impl_def t option.case prod.case Let_def c f by (simp add: lone_wheel_def)
qed

lemma lone_wheel_too_early:
  "pop_impl 897500000000 (int 897500000000) due_899 (lone_wheel 894000000000 0 43 1) = Some (lone_wheel 897500000000 0 43 2, [])"
proof -
  define w where "w = lone_wheel 894000000000 0 43 1"
  have t: "compute_abs_tick w (tw_last_dispatched w) Down = Some 298" "compute_abs_tick w 897500000000 Down = Some 299"
    "tw_next_run w = 897000000000" "tw_lists w 0 43 = [1]"
    by (simp_all add: w_def lone_wheel_tick) (simp_all add: lone_wheel_def)
  have "compute_list w (897500000000 + nat (899000000000 - int 897500000000)) Down = Some (0, 43)"
    by (simp add: w_def lone_wheel_list list_position_def upt_rec)
  then have moves: "process_slots 897500000000 (int 897500000000) due_899 [1] (set_list 0 43 [] w, []) = (lone_wheel 894000000000 0 43 2, [])"
    using lone_wheel_moves[of due_899 899000000000 "int 897500000000" 894000000000 0 43 1 897500000000 0 43]
    by (simp add: w_def due_899_def numeral_2_eq_2)
  have c: "fold (cascade_tick 897500000000 (int 897500000000) due_899) [298 + 1..<299 + 1] (w, []) = (w, [])"
    by (simp add: cascade_tick_def upt_rec)
  have f: "fold (first_wheel_tick 897500000000 (int 897500000000) due_899) [298 + 1..<298 + min (299 - 298) wheel_size + 1] (w, [])
      = (lone_wheel 894000000000 0 43 2, [])"
    using moves t(4) by (simp add: first_wheel_tick_def upt_rec Let_def)
  show ?thesis
    unfolding w_def[symmetric] pop_impl_def t option.case prod.case Let_def c f by (simp add: lone_wheel_def)
qed

lemma turn_ticks: "(x::nat) mod 256 = 43 \<Longrightarrow> 256 < x \<Longrightarrow> 299 \<le> x" "(x::nat) mod 256 = 43 \<Longrightarrow> 299 < x \<Longrightarrow> 555 \<le> x"
proof -
  define q where "q = x div 256"
  have *: "x = q * 256 + x mod 256" by (simp add: q_def)
  show "x mod 256 = 43 \<Longrightarrow> 256 < x \<Longrightarrow> 299 \<le> x" "x mod 256 = 43 \<Longrightarrow> 299 < x \<Longrightarrow> 555 \<le> x"
    using * by (cases q; cases "q - 1"; simp)+
qed

lemma lone_wheel_turn_quiet:
  assumes "prev + 3000000000 \<le> now" "\<And>x. prev div 1000000 div 3000 < x \<Longrightarrow> x \<le> now div 1000000 div 3000 \<Longrightarrow> x mod 256 \<noteq> k"
  shows "pop_impl now now_utc due (lone_wheel prev 0 k slot) = Some (lone_wheel now 0 k slot, [])"
  using assms(1) refl refl
proof (rule lone_wheel_pop_quiet)
  define a b where "a = prev div 1000000 div 3000" and "b = now div 1000000 div 3000"
  have "a \<le> b" using assms(1) by (simp add: a_def b_def div_le_mono)
  then show "x mod 256 \<noteq> k" if "prev div 1000000 div 3000 < x"
    "x \<le> prev div 1000000 div 3000 + min (now div 1000000 div 3000 - prev div 1000000 div 3000) wheel_size" for x
    using that assms(2)[of x] unfolding a_def[symmetric] b_def[symmetric] by linarith
qed simp

lemma lone_wheel_pops:
  "pop_impl 765000000000 (int 765000000000) due_899 (lone_wheel 0 1 1 0) = Some (lone_wheel 765000000000 1 1 0, [])"
  "pop_impl 894000000000 (int 894000000000) due_899 (lone_wheel 768000000000 0 43 1) = Some (lone_wheel 894000000000 0 43 1, [])"
  "pop_impl 900500000000 (int 900500000000) due_899 (lone_wheel 897500000000 0 43 2) = Some (lone_wheel 900500000000 0 43 2, [])"
  "pop_impl 1664500000000 (int 1664500000000) due_899 (lone_wheel 900500000000 0 43 2) = Some (lone_wheel 1664500000000 0 43 2, [])"
  subgoal by (rule lone_wheel_pop_quiet[of _ _ 0 255]) simp_all
  subgoal by (rule lone_wheel_turn_quiet) (use turn_ticks(1) in force)+
  subgoal by (rule lone_wheel_turn_quiet) (use turn_ticks(2) in force)+
  subgoal by (rule lone_wheel_turn_quiet) (use turn_ticks(2) in force)+
  done


section \<open>The wheel as a queue of timers\<close>

text \<open>What the users of a timer queue rely on: it holds a set of messages, to which an accepted insertion adds, from which
  a cancellation takes, telling whether the message was there, and which a pop splits.\<close>

locale timer_queue =
  fixes inv :: "'w \<Rightarrow> bool"
    and holds :: "'w \<Rightarrow> nat set"
    and ins :: "nat \<Rightarrow> int \<Rightarrow> int option \<Rightarrow> nat \<Rightarrow> 'w \<Rightarrow> bool \<times> 'w"
    and cancel :: "nat \<Rightarrow> 'w \<Rightarrow> bool \<times> 'w"
    and pop :: "nat \<Rightarrow> int \<Rightarrow> (nat \<Rightarrow> int option) \<Rightarrow> 'w \<Rightarrow> ('w \<times> nat list) option"
  assumes ins_law: "inv w \<Longrightarrow> ins now now_utc d m w = (ok, w') \<Longrightarrow> inv w' \<and> holds w' = (if ok then insert m (holds w) else holds w)"
    and cancel_law: "inv w \<Longrightarrow> cancel m w = (ok, w') \<Longrightarrow> inv w' \<and> (ok \<longleftrightarrow> m \<in> holds w) \<and> holds w' = holds w - {m}"
    and pop_law: "inv w \<Longrightarrow> \<exists>w' ready. pop now now_utc due w = Some (w', ready) \<and> inv w' \<and> distinct ready
      \<and> holds w = holds w' \<union> set ready \<and> holds w' \<inter> set ready = {} \<and> list_all (ripe now_utc due) ready"
begin

text \<open>Cancelling the messages of a list one after the other keeps the ones that were there apart from the others.\<close>

lemma cancel_each:
  assumes "inv w" "distinct (q @ ms)"
    and found: "\<And>m w w' q msgs. cancel m w = (True, w') \<Longrightarrow> step m (w, q, msgs) = (w', q, msgs @ [m])"
    and missing: "\<And>m w w' q msgs. cancel m w = (False, w') \<Longrightarrow> m \<notin> set q \<Longrightarrow> step m (w, q, msgs) = (w', q @ [m], msgs)"
  shows "\<exists>w'. inv w' \<and> holds w' = holds w - set ms
    \<and> fold step ms (w, q, msgs) = (w', q @ filter (\<lambda>m. m \<notin> holds w) ms, msgs @ filter (\<lambda>m. m \<in> holds w) ms)"
  using assms(1,2)
proof (induction ms arbitrary: w q msgs)
  case (Cons m ms)
  obtain ok w1 where c: "cancel m w = (ok, w1)" by fastforce
  have w1: "inv w1" "ok \<longleftrightarrow> m \<in> holds w" "holds w1 = holds w - {m}" using cancel_law[OF Cons.prems(1) c] by blast+
  have d: "distinct (q @ ms)" "distinct ((q @ [m]) @ ms)" using Cons.prems(2) by auto
  have fresh: "m \<notin> set q" "m \<notin> set ms" using Cons.prems(2) by auto
  then have same: "filter (\<lambda>x. x \<notin> holds w1) ms = filter (\<lambda>x. x \<notin> holds w) ms" "filter (\<lambda>x. x \<in> holds w1) ms = filter (\<lambda>x. x \<in> holds w) ms"
    unfolding w1(3) by (auto intro!: filter_cong)
  have rest: "holds w1 - set ms = holds w - insert m (set ms)" using w1(3) by auto
  show ?case
  proof (cases "m \<in> holds w")
    case True
    then have "cancel m w = (True, w1)" using c w1(2) by simp
    moreover obtain w' where "inv w'" "holds w' = holds w1 - set ms"
      "fold step ms (w1, q, msgs @ [m]) = (w', q @ filter (\<lambda>m. m \<notin> holds w1) ms, (msgs @ [m]) @ filter (\<lambda>m. m \<in> holds w1) ms)"
      using Cons.IH[OF w1(1) d(1), of "msgs @ [m]"] by (elim exE conjE)
    ultimately show ?thesis using True by (intro exI[of _ w']) (simp add: found same rest)
  next
    case False
    then have "cancel m w = (False, w1)" using c w1(2) by simp
    moreover obtain w' where "inv w'" "holds w' = holds w1 - set ms"
      "fold step ms (w1, q @ [m], msgs) = (w', (q @ [m]) @ filter (\<lambda>m. m \<notin> holds w1) ms, msgs @ filter (\<lambda>m. m \<in> holds w1) ms)"
      using Cons.IH[OF w1(1) d(2), of msgs] by (elim exE conjE)
    ultimately show ?thesis using False fresh by (intro exI[of _ w']) (simp add: missing same rest)
  qed
qed simp

end

lemma wheel_cancel_law:
  "wheel_inv w \<Longrightarrow> wheel_cancel m w = (ok, w') \<Longrightarrow> wheel_inv w' \<and> (ok \<longleftrightarrow> m \<in> held w) \<and> held w' = held w - {m}"
  using wheel_cancel_exact[of w m] by (auto simp: wheel_cancel_def held_def split: option.splits)

lemma wheel_insert_law:
  assumes "wheel_inv w" "wheel_insert now now_utc d m w = (ok, w')"
  shows "wheel_inv w' \<and> held w' = (if ok then insert m (held w) else held w)"
  using wheel_step_inv[OF assms(1), of "WInsert now now_utc d m"] assms insert_impl_inv(3)[of "{}" w now now_utc d m Up ok w']
  by (simp add: wheel_insert_def wheel_inv_def wheel_times_def)

interpretation wheel: timer_queue wheel_inv held wheel_insert wheel_cancel pop_impl
proof
  show "\<exists>w' ready. pop_impl now now_utc due w = Some (w', ready) \<and> wheel_inv w' \<and> distinct ready
      \<and> held w = held w' \<union> set ready \<and> held w' \<inter> set ready = {} \<and> list_all (ripe now_utc due) ready"
    if "wheel_inv w" for now now_utc due w
    using pop_impl_sweeps[OF that, of now now_utc due] by blast
qed (fact wheel_insert_law wheel_cancel_law)+

end
