(* ===== verification/Queue_Structure.thy ===== *)
theory Queue_Structure
  imports Timer_Wheel Queue_Config "HOL-Library.Multiset"
begin

text \<open>
  The structures that hold the delayed messages of a scheduled queue,
  \<^verbatim>\<open>crates/kumod/src/queue/strategy.rs\<close>, and the wrapper around the third party timer wheel,
  \<^verbatim>\<open>crates/timeq/src/lib.rs\<close>.  The third party wheel and the third party skip list are records of their operations; what
  is documented of them is stated as \<open>quad_wheel_ok\<close> and \<open>skip_set_ok\<close>.  A hash set is a list without
  repetitions: the order in which it is iterated is not promised, and no theorem depends on it.
\<close>

section \<open>The wrapper around the third party wheel\<close>

datatype skip = SkipEmpty | SkipNone | SkipMillis nat

text \<open>\<^verbatim>\<open>QuadWheelWithOverflow\<close>: an insertion with a delay, \<^const>\<open>None\<close> when it is refused as expired, how long nothing
  will happen, one tick with the entries it sets free, and skipping some ticks.\<close>

record ('e, 'w) quad_wheel =
  qw_new :: 'w
  qw_insert :: "nat \<Rightarrow> 'e \<Rightarrow> 'w \<Rightarrow> 'w option"
  qw_can_skip :: "'w \<Rightarrow> skip"
  qw_tick :: "'w \<Rightarrow> 'w \<times> 'e list"
  qw_skip :: "nat \<Rightarrow> 'w \<Rightarrow> 'w"

record 'w timeq =
  tq_wheel :: 'w
  tq_last_check :: nat
  tq_len :: nat

datatype 'e pop_result = Items "'e list" | Sleep nat | PopEmpty

definition timeq_new :: "('e, 'w) quad_wheel \<Rightarrow> nat \<Rightarrow> 'w timeq" where
  "timeq_new L now = \<lparr>tq_wheel = qw_new L, tq_last_check = now, tq_len = 0\<rparr>"

definition timeq_is_empty :: "('e, 'w) quad_wheel \<Rightarrow> 'w timeq \<Rightarrow> bool" where
  "timeq_is_empty L q = (qw_can_skip L (tq_wheel q) = SkipEmpty)"

definition timeq_add :: "('e, 'w) quad_wheel \<Rightarrow> nat \<Rightarrow> 'e \<Rightarrow> 'w timeq \<Rightarrow> 'w timeq option" where
  "timeq_add L delay e q =
     map_option (\<lambda>w. q\<lparr>tq_wheel := w, tq_len := tq_len q + 1\<rparr>) (qw_insert L delay e (tq_wheel q))"

text \<open>The loop of \<^verbatim>\<open>pop\<close>.  Every turn uses up some of the elapsed time, so that time itself is enough fuel, unless
  the wheel asks for a skip of no length.\<close>

fun timeq_pop_loop :: "('e, 'w) quad_wheel \<Rightarrow> nat \<Rightarrow> nat \<Rightarrow> 'w \<Rightarrow> 'e list \<Rightarrow> ('w \<times> 'e list) option" where
  "timeq_pop_loop L fuel 0 w items = Some (w, items)"
| "timeq_pop_loop L 0 (Suc ms) w items = None"
| "timeq_pop_loop L (Suc fuel) (Suc ms) w items =
     (case qw_can_skip L w of
        SkipEmpty \<Rightarrow> Some (w, items)
      | SkipNone \<Rightarrow> (case qw_tick L w of (w', new) \<Rightarrow> timeq_pop_loop L fuel ms w' (items @ new))
      | SkipMillis m \<Rightarrow>
          (let amount = min m (Suc ms) in timeq_pop_loop L fuel (Suc ms - amount) (qw_skip L amount w) items))"

text \<open>The elapsed milliseconds are cut to 32 bits.\<close>

definition timeq_pop :: "('e, 'w) quad_wheel \<Rightarrow> nat \<Rightarrow> 'w timeq \<Rightarrow> ('e pop_result \<times> 'w timeq) option" where
  "timeq_pop L now q =
     (let elapsed_ms = ((now - tq_last_check q) div 1000000) mod 2 ^ 32 in
      map_option
        (\<lambda>(w, items).
           let q' = q\<lparr>tq_wheel := w, tq_last_check := now\<rparr> in
           if items \<noteq> [] then (Items items, q'\<lparr>tq_len := tq_len q - length items\<rparr>)
           else
             ((case qw_can_skip L w of
                 SkipNone \<Rightarrow> Sleep 1
               | SkipEmpty \<Rightarrow> PopEmpty
               | SkipMillis ms \<Rightarrow> Sleep ms), q'))
        (timeq_pop_loop L elapsed_ms elapsed_ms (tq_wheel q) []))"

text \<open>The loop of \<^verbatim>\<open>drain\<close>, with fuel.\<close>

fun timeq_drain_loop :: "('e, 'w) quad_wheel \<Rightarrow> nat \<Rightarrow> 'w \<Rightarrow> 'e list \<Rightarrow> ('w \<times> 'e list) option" where
  "timeq_drain_loop L 0 w items = None"
| "timeq_drain_loop L (Suc fuel) w items =
     (case qw_can_skip L w of
        SkipEmpty \<Rightarrow> Some (w, items)
      | SkipNone \<Rightarrow> (case qw_tick L w of (w', new) \<Rightarrow> timeq_drain_loop L fuel w' (items @ new))
      | SkipMillis m \<Rightarrow> timeq_drain_loop L fuel (qw_skip L m w) items)"

definition timeq_drain :: "('e, 'w) quad_wheel \<Rightarrow> nat \<Rightarrow> nat \<Rightarrow> 'w timeq \<Rightarrow> ('e list \<times> 'w timeq) option" where
  "timeq_drain L fuel now q =
     map_option (\<lambda>(w, items). (items, q\<lparr>tq_wheel := w, tq_last_check := now, tq_len := 0\<rparr>))
       (timeq_drain_loop L fuel (tq_wheel q) [])"

text \<open>What is documented of the wheel: an accepted entry is held, a tick lets go of just the entries it returns,
  a skip of the allowed length lets go of none, it is empty when it says so, and the time to the last
  entry, \<^term>\<open>horizon\<close>, shrinks with every tick and skip.\<close>

definition quad_wheel_ok ::
  "('e, 'w) quad_wheel \<Rightarrow> ('w \<Rightarrow> 'e multiset) \<Rightarrow> ('w \<Rightarrow> nat) \<Rightarrow> bool" where
  "quad_wheel_ok L content horizon \<longleftrightarrow>
     content (qw_new L) = {#}
     \<and> (\<forall>delay e w w'. qw_insert L delay e w = Some w' \<longrightarrow> content w' = add_mset e (content w))
     \<and> (\<forall>w. qw_can_skip L w = SkipEmpty \<longleftrightarrow> content w = {#})
     \<and> (\<forall>w w' es. qw_can_skip L w = SkipNone \<longrightarrow> qw_tick L w = (w', es) \<longrightarrow>
          content w = content w' + mset es \<and> horizon w' < horizon w)
     \<and> (\<forall>w m n. qw_can_skip L w = SkipMillis m \<longrightarrow> 0 < m
          \<and> (0 < n \<and> n \<le> m \<longrightarrow> content (qw_skip L n w) = content w \<and> horizon (qw_skip L n w) < horizon w))"

lemma timeq_pop_loop_accounts:
  assumes "quad_wheel_ok L content horizon" "ms \<le> fuel"
  shows "\<exists>w' new. timeq_pop_loop L fuel ms w items = Some (w', items @ new) \<and> content w = content w' + mset new"
  using assms(2)
proof (induction fuel arbitrary: ms w items)
  case 0
  then show ?case by simp
next
  case (Suc fuel)
  show ?case
  proof (cases ms)
    case (Suc n)
    note ms = this
    show ?thesis
    proof (cases "qw_can_skip L w")
      case SkipNone
      obtain w' es where t: "qw_tick L w = (w', es)" by fastforce
      then have "content w = content w' + mset es" using assms(1) SkipNone unfolding quad_wheel_ok_def by blast
      then show ?thesis using Suc.IH[of n w' "items @ es"] Suc.prems ms SkipNone t by (auto simp: ac_simps)
    next
      case (SkipMillis m)
      define k where "k = min m (Suc n)"
      have m: "0 < m" using assms(1) SkipMillis unfolding quad_wheel_ok_def by blast
      then have k: "0 < k" "k \<le> m" "k \<le> Suc n" by (auto simp: k_def)
      then have c: "content (qw_skip L k w) = content w" using assms(1) SkipMillis unfolding quad_wheel_ok_def by blast
      have "\<exists>w' new. timeq_pop_loop L fuel (Suc n - k) (qw_skip L k w) items = Some (w', items @ new)
          \<and> content (qw_skip L k w) = content w' + mset new"
        using Suc.prems ms k by (intro Suc.IH) simp
      then show ?thesis using SkipMillis ms c by (simp add: k_def Let_def)
    qed (use ms in simp)
  qed simp
qed

lemma timeq_drain_loop_accounts:
  assumes "quad_wheel_ok L content horizon" "horizon w < fuel"
  shows "\<exists>w' new. timeq_drain_loop L fuel w items = Some (w', items @ new) \<and> content w = mset new \<and> content w' = {#}"
  using assms(2)
proof (induction fuel arbitrary: w items)
  case (Suc fuel)
  note law = assms(1)[unfolded quad_wheel_ok_def]
  show ?case
  proof (cases "qw_can_skip L w")
    case SkipEmpty
    then have "content w = {#}" using law by blast
    then show ?thesis using SkipEmpty by simp
  next
    case SkipNone
    obtain w' es where t: "qw_tick L w = (w', es)" by fastforce
    then have "content w = content w' + mset es" "horizon w' < horizon w" using law SkipNone by blast+
    then show ?thesis using Suc.IH[of w' "items @ es"] Suc.prems SkipNone t by (auto simp: ac_simps)
  next
    case (SkipMillis m)
    then have "0 < m" using law by blast
    then have "content (qw_skip L m w) = content w" "horizon (qw_skip L m w) < horizon w" using law SkipMillis by blast+
    then show ?thesis using Suc.IH[of "qw_skip L m w" items] Suc.prems SkipMillis by auto
  qed
qed simp

section \<open>The structures\<close>

text \<open>\<^verbatim>\<open>SkipSet\<close> of the third party, ordered by the key of its entries.\<close>

record 's skip_set =
  ss_new :: 's
  ss_front :: "'s \<Rightarrow> nat option"
  ss_insert :: "nat \<Rightarrow> 's \<Rightarrow> 's"
  ss_remove :: "nat \<Rightarrow> 's \<Rightarrow> 's"
  ss_pop_front :: "'s \<Rightarrow> (nat \<times> 's) option"
  ss_len :: "'s \<Rightarrow> nat"

text \<open>What is documented of it: its entries are in ascending order, and an insertion removes an entry that compares
  equal to the new one.\<close>

definition skip_set_ok :: "(nat \<Rightarrow> int) \<Rightarrow> 's skip_set \<Rightarrow> ('s \<Rightarrow> nat list) \<Rightarrow> bool" where
  "skip_set_ok key S entries \<longleftrightarrow>
     entries (ss_new S) = []
     \<and> (\<forall>s. ss_front S s = (case entries s of [] \<Rightarrow> None | m # _ \<Rightarrow> Some m))
     \<and> (\<forall>m s. entries (ss_insert S m s) = insort_key key m (filter (\<lambda>x. key x \<noteq> key m) (entries s)))
     \<and> (\<forall>m s. entries (ss_remove S m s) = remove1 m (entries s))
     \<and> (\<forall>s. map_option (map_prod id entries) (ss_pop_front S s) = (case entries s of [] \<Rightarrow> None | m # ms \<Rightarrow> Some (m, ms)))
     \<and> (\<forall>s. ss_len S s = length (entries s))"

text \<open>A hash set.\<close>

definition hs_insert :: "nat \<Rightarrow> nat list \<Rightarrow> nat list" where
  "hs_insert m q = (if m \<in> set q then q else q @ [m])"

definition hs_remove :: "nat \<Rightarrow> nat list \<Rightarrow> bool \<times> nat list" where
  "hs_remove m q = (m \<in> set q, removeAll m q)"

datatype ('w, 's) queue_structure =
    TimerWheelQ "'w timeq"
  | SkipListQ 's
  | SingletonQ "nat list"
  | SingletonV2Q "nat list"

text \<open>\<^verbatim>\<open>Inserted\<close> says whether the maintainer has to be notified, \<^verbatim>\<open>Full\<close> that the message is due.\<close>

datatype queue_insert_result = StructInserted bool | StructFull nat

text \<open>The wheels that the queues share.  An entry of the first is a message with its queue.\<close>

record 'v wheels =
  wh_v1 :: "'v timeq"
  wh_v2 :: timer_wheel

text \<open>The libraries.\<close>

record ('w, 'v, 's) libs =
  lib_wheel :: "(nat, 'w) quad_wheel"
  lib_wheel_v1 :: "(nat \<times> string, 'v) quad_wheel"
  lib_skip :: "'s skip_set"

text \<open>The time now, as an \<^verbatim>\<open>Instant\<close> and as a \<^verbatim>\<open>DateTime\<close>, and the due times of the messages.\<close>

record qclock =
  ck_now :: nat
  ck_utc :: int
  ck_due :: "nat \<Rightarrow> int option"

definition message_delay :: "qclock \<Rightarrow> nat \<Rightarrow> nat" where
  "message_delay ck m = (case ck_due ck m of Some time \<Rightarrow> nat (time - ck_utc ck) | None \<Rightarrow> 0)"

definition timestamp :: "int \<Rightarrow> int" where
  "timestamp t = t div 1000000000"

definition get_bucketed_due :: "qclock \<Rightarrow> nat \<Rightarrow> int" where
  "get_bucketed_due ck m = (case ck_due ck m of Some due \<Rightarrow> timestamp due | None \<Rightarrow> 0)"

text \<open>In seconds.\<close>

definition compute_delay :: "qclock \<Rightarrow> nat \<Rightarrow> nat" where
  "compute_delay ck m = nat (max (get_bucketed_due ck m - timestamp (ck_utc ck)) 0)"

definition structure_new :: "('w, 'v, 's) libs \<Rightarrow> nat \<Rightarrow> queue_strategy \<Rightarrow> ('w, 's) queue_structure" where
  "structure_new L now kind =
     (case kind of
        TimerWheel \<Rightarrow> TimerWheelQ (timeq_new (lib_wheel L) now)
      | SkipList \<Rightarrow> SkipListQ (ss_new (lib_skip L))
      | SingletonTimerWheel \<Rightarrow> SingletonQ []
      | SingletonTimerWheelV2 \<Rightarrow> SingletonV2Q [])"

fun structure_strategy :: "('w, 's) queue_structure \<Rightarrow> queue_strategy" where
  "structure_strategy (TimerWheelQ _) = TimerWheel"
| "structure_strategy (SkipListQ _) = SkipList"
| "structure_strategy (SingletonQ _) = SingletonTimerWheel"
| "structure_strategy (SingletonV2Q _) = SingletonTimerWheelV2"

text \<open>The loop of \<^verbatim>\<open>pop\<close> on a skip list; every turn removes an entry, so its length is enough fuel.\<close>

fun skip_pop_loop :: "'s skip_set \<Rightarrow> qclock \<Rightarrow> nat \<Rightarrow> 's \<Rightarrow> nat list \<Rightarrow> (nat list \<times> nat option) \<times> 's" where
  "skip_pop_loop S ck 0 s messages = ((messages, None), s)"
| "skip_pop_loop S ck (Suc fuel) s messages =
     (case ss_front S s of
        None \<Rightarrow> ((messages, None), s)
      | Some m \<Rightarrow>
          if compute_delay ck m = 0 then skip_pop_loop S ck fuel (ss_remove S m s) (messages @ [m])
          else ((messages, Some (compute_delay ck m)), s))"

fun structure_pop ::
  "('w, 'v, 's) libs \<Rightarrow> qclock \<Rightarrow> ('w, 's) queue_structure \<Rightarrow> ((nat list \<times> nat option) \<times> ('w, 's) queue_structure) option" where
  "structure_pop L ck (TimerWheelQ q) =
     (case timeq_pop (lib_wheel L) (ck_now ck) q of
        None \<Rightarrow> None
      | Some (r, q') \<Rightarrow> Some ((case r of Items ms \<Rightarrow> ms | _ \<Rightarrow> [], None), TimerWheelQ q'))"
| "structure_pop L ck (SkipListQ s) =
     (case skip_pop_loop (lib_skip L) ck (Suc (ss_len (lib_skip L) s)) s [] of (r, s') \<Rightarrow> Some (r, SkipListQ s'))"
| "structure_pop L ck (SingletonQ q) = Some (([], None), SingletonQ q)"
| "structure_pop L ck (SingletonV2Q q) = Some (([], None), SingletonV2Q q)"

fun skip_drain_loop :: "'s skip_set \<Rightarrow> nat \<Rightarrow> 's \<Rightarrow> nat list \<Rightarrow> nat list \<times> 's" where
  "skip_drain_loop S 0 s msgs = (msgs, s)"
| "skip_drain_loop S (Suc fuel) s msgs =
     (case ss_pop_front S s of
        None \<Rightarrow> (msgs, s)
      | Some (m, s') \<Rightarrow> skip_drain_loop S fuel s' (msgs @ [m]))"

text \<open>The message of a drained queue that the shared wheel no longer has is in the hands of the task that
  popped it: it is put back.\<close>

definition drain_one :: "nat \<Rightarrow> timer_wheel \<times> nat list \<times> nat list \<Rightarrow> timer_wheel \<times> nat list \<times> nat list" where
  "drain_one m st =
     (case st of (w, q, msgs) \<Rightarrow>
        (case wheel_cancel m w of
           (True, w') \<Rightarrow> (w', q, msgs @ [m])
         | (False, w') \<Rightarrow> (w', hs_insert m q, msgs)))"

definition drain_v2 :: "nat list \<Rightarrow> timer_wheel \<Rightarrow> timer_wheel \<times> nat list \<times> nat list" where
  "drain_v2 q w = fold drain_one q (w, [], [])"

fun structure_drain ::
  "('w, 'v, 's) libs \<Rightarrow> nat \<Rightarrow> qclock \<Rightarrow> ('w, 's) queue_structure \<Rightarrow> 'v wheels
   \<Rightarrow> (nat list \<times> ('w, 's) queue_structure \<times> 'v wheels) option" where
  "structure_drain L fuel ck (TimerWheelQ q) W =
     map_option (\<lambda>(msgs, q'). (msgs, TimerWheelQ q', W)) (timeq_drain (lib_wheel L) fuel (ck_now ck) q)"
| "structure_drain L fuel ck (SkipListQ s) W =
     (case skip_drain_loop (lib_skip L) (Suc (ss_len (lib_skip L) s)) s [] of
        (msgs, s') \<Rightarrow> Some (msgs, SkipListQ s', W))"
| "structure_drain L fuel ck (SingletonQ q) W = Some (q, SingletonQ [], W)"
| "structure_drain L fuel ck (SingletonV2Q q) W =
     (case drain_v2 q (wh_v2 W) of (w', q', msgs) \<Rightarrow> Some (msgs, SingletonV2Q q', W\<lparr>wh_v2 := w'\<rparr>))"

definition taken :: "nat option \<Rightarrow> nat list \<Rightarrow> nat list" where
  "taken n q = (case n of None \<Rightarrow> q | Some n \<Rightarrow> take n q)"

fun structure_iter :: "nat option \<Rightarrow> ('w, 's) queue_structure \<Rightarrow> 'v wheels \<Rightarrow> nat list" where
  "structure_iter n (TimerWheelQ q) W = []"
| "structure_iter n (SkipListQ s) W = []"
| "structure_iter n (SingletonQ q) W = taken n q"
| "structure_iter n (SingletonV2Q q) W = filter (wheel_contains (wh_v2 W)) (taken n q)"

text \<open>An insertion with the second shared wheel locked.\<close>

definition insert_v2 :: "qclock \<Rightarrow> nat \<Rightarrow> nat list \<Rightarrow> timer_wheel \<Rightarrow> queue_insert_result \<times> nat list \<times> timer_wheel" where
  "insert_v2 ck m q w =
     (case wheel_insert (ck_now ck) (ck_utc ck) (ck_due ck m) m w of
        (True, w') \<Rightarrow> (StructInserted False, hs_insert m q, w')
      | (False, w') \<Rightarrow> (StructFull m, q, w'))"

fun structure_insert ::
  "('w, 'v, 's) libs \<Rightarrow> qclock \<Rightarrow> nat \<Rightarrow> string \<Rightarrow> ('w, 's) queue_structure \<Rightarrow> 'v wheels
   \<Rightarrow> queue_insert_result \<times> ('w, 's) queue_structure \<times> 'v wheels" where
  "structure_insert L ck m name (TimerWheelQ q) W =
     (case timeq_add (lib_wheel L) (message_delay ck m) m q of
        Some q' \<Rightarrow> (StructInserted False, TimerWheelQ q', W)
      | None \<Rightarrow> (StructFull m, TimerWheelQ q, W))"
| "structure_insert L ck m name (SkipListQ s) W =
     (if get_bucketed_due ck m \<le> timestamp (ck_utc ck) then (StructFull m, SkipListQ s, W)
      else
        (let due = map_option (get_bucketed_due ck) (ss_front (lib_skip L) s);
             s' = ss_insert (lib_skip L) m s;
             now_due = map_option (get_bucketed_due ck) (ss_front (lib_skip L) s')
         in (StructInserted
               (case due of None \<Rightarrow> True | Some d \<Rightarrow> (case now_due of None \<Rightarrow> True | Some d' \<Rightarrow> d' < d)),
             SkipListQ s', W)))"
| "structure_insert L ck m name (SingletonQ q) W =
     (case timeq_add (lib_wheel_v1 L) (message_delay ck m) (m, name) (wh_v1 W) of
        Some v' \<Rightarrow> (StructInserted False, SingletonQ (hs_insert m q), W\<lparr>wh_v1 := v'\<rparr>)
      | None \<Rightarrow> (StructFull m, SingletonQ q, W))"
| "structure_insert L ck m name (SingletonV2Q q) W =
     (case insert_v2 ck m q (wh_v2 W) of (r, q', w') \<Rightarrow> (r, SingletonV2Q q', W\<lparr>wh_v2 := w'\<rparr>))"

fun structure_len :: "('w, 'v, 's) libs \<Rightarrow> ('w, 's) queue_structure \<Rightarrow> nat" where
  "structure_len L (TimerWheelQ q) = tq_len q"
| "structure_len L (SkipListQ s) = ss_len (lib_skip L) s"
| "structure_len L (SingletonQ q) = length q"
| "structure_len L (SingletonV2Q q) = length q"

fun structure_is_empty :: "('w, 'v, 's) libs \<Rightarrow> ('w, 's) queue_structure \<Rightarrow> bool" where
  "structure_is_empty L (TimerWheelQ q) = timeq_is_empty (lib_wheel L) q"
| "structure_is_empty L (SkipListQ s) = (ss_len (lib_skip L) s = 0)"
| "structure_is_empty L (SingletonQ q) = (q = [])"
| "structure_is_empty L (SingletonV2Q q) = (q = [])"

section \<open>What the structures account for\<close>

lemma drain_v2_exact:
  assumes "wheel_inv w" "distinct q"
  shows "\<exists>w'. wheel_inv w' \<and> held w' = held w - set q
    \<and> drain_v2 q w = (w', filter (\<lambda>m. m \<notin> held w) q, filter (\<lambda>m. m \<in> held w) q)"
  using wheel.cancel_each[OF assms(1), of "[]" q drain_one "[]"] assms(2)
  by (simp add: drain_v2_def drain_one_def hs_insert_def)

lemma skip_pop_loop_accounts:
  assumes "skip_set_ok key S entries" "length (entries s) \<le> fuel"
  shows "\<exists>new s' sleep. skip_pop_loop S ck fuel s msgs = ((msgs @ new, sleep), s') \<and> entries s = new @ entries s'
    \<and> list_all (\<lambda>m. compute_delay ck m = 0) new"
  using assms(2)
proof (induction fuel arbitrary: s msgs)
  case (Suc fuel)
  note law = assms(1)[unfolded skip_set_ok_def]
  show ?case
  proof (cases "entries s")
    case Nil
    then have "ss_front S s = None" using law by simp
    then show ?thesis by simp
  next
    case (Cons m ms)
    then have f: "ss_front S s = Some m" and r: "entries (ss_remove S m s) = ms" using law by simp_all
    show ?thesis
    proof (cases "compute_delay ck m = 0")
      case True
      obtain new s' sleep where "skip_pop_loop S ck fuel (ss_remove S m s) (msgs @ [m]) = (((msgs @ [m]) @ new, sleep), s')"
        "entries (ss_remove S m s) = new @ entries s'" "list_all (\<lambda>m. compute_delay ck m = 0) new"
        using Suc.IH[of "ss_remove S m s" "msgs @ [m]"] Suc.prems Cons r by auto
      then show ?thesis using f r Cons True by (intro exI[of _ "m # new"] exI[of _ s'] exI[of _ sleep]) simp
    qed (simp add: f)
  qed
qed simp

lemma skip_drain_loop_accounts:
  assumes "skip_set_ok key S entries" "length (entries s) < fuel"
  shows "\<exists>s'. skip_drain_loop S fuel s msgs = (msgs @ entries s, s') \<and> entries s' = []"
  using assms(2)
proof (induction fuel arbitrary: s msgs)
  case (Suc fuel)
  have law: "map_option (map_prod id entries) (ss_pop_front S s) = (case entries s of [] \<Rightarrow> None | m # ms \<Rightarrow> Some (m, ms))"
    using assms(1) unfolding skip_set_ok_def by blast
  show ?case
  proof (cases "entries s")
    case Nil
    then show ?thesis using law by simp
  next
    case (Cons m ms)
    then obtain s' where "ss_pop_front S s = Some (m, s')" "entries s' = ms"
      using law by (cases "ss_pop_front S s") auto
    then show ?thesis using Suc.IH[of s' "msgs @ [m]"] Suc.prems Cons by simp
  qed
qed simp

text \<open>The messages that a structure holds, given what its library holds.\<close>

fun structure_holds ::
  "('w \<Rightarrow> nat multiset) \<Rightarrow> ('s \<Rightarrow> nat list) \<Rightarrow> ('w, 's) queue_structure \<Rightarrow> nat multiset" where
  "structure_holds content entries (TimerWheelQ q) = content (tq_wheel q)"
| "structure_holds content entries (SkipListQ s) = mset (entries s)"
| "structure_holds content entries (SingletonQ q) = mset q"
| "structure_holds content entries (SingletonV2Q q) = mset q"

fun structure_inv :: "('w \<Rightarrow> nat multiset) \<Rightarrow> ('w, 's) queue_structure \<Rightarrow> bool" where
  "structure_inv content (TimerWheelQ q) \<longleftrightarrow> tq_len q = size (content (tq_wheel q))"
| "structure_inv content (SkipListQ s) \<longleftrightarrow> True"
| "structure_inv content (SingletonQ q) \<longleftrightarrow> distinct q"
| "structure_inv content (SingletonV2Q q) \<longleftrightarrow> distinct q"

definition libs_ok ::
  "qclock \<Rightarrow> ('w, 'v, 's) libs \<Rightarrow> ('w \<Rightarrow> nat multiset) \<Rightarrow> ('w \<Rightarrow> nat) \<Rightarrow> ('s \<Rightarrow> nat list) \<Rightarrow> bool" where
  "libs_ok ck L content horizon entries \<longleftrightarrow>
     quad_wheel_ok (lib_wheel L) content horizon \<and> skip_set_ok (get_bucketed_due ck) (lib_skip L) entries"

lemma structure_new_holds:
  assumes "libs_ok ck L content horizon entries"
  shows "structure_holds content entries (structure_new L now kind) = {#}" "structure_inv content (structure_new L now kind)"
  using assms by (auto simp: libs_ok_def quad_wheel_ok_def skip_set_ok_def structure_new_def timeq_new_def split: queue_strategy.split)

lemma structure_len_size:
  assumes "libs_ok ck L content horizon entries" "structure_inv content qs"
  shows "structure_len L qs = size (structure_holds content entries qs)"
    "structure_is_empty L qs \<longleftrightarrow> structure_holds content entries qs = {#}"
  using assms by (cases qs; auto simp: libs_ok_def quad_wheel_ok_def skip_set_ok_def timeq_is_empty_def)+

text \<open>A structure takes a message that it does not hold; the skip list also has none that is due in the same second.\<close>

fun takes :: "qclock \<Rightarrow> ('s \<Rightarrow> nat list) \<Rightarrow> nat \<Rightarrow> ('w, 's) queue_structure \<Rightarrow> bool" where
  "takes ck entries m (TimerWheelQ q) \<longleftrightarrow> True"
| "takes ck entries m (SkipListQ s) \<longleftrightarrow> get_bucketed_due ck m \<notin> get_bucketed_due ck ` set (entries s)"
| "takes ck entries m (SingletonQ q) \<longleftrightarrow> m \<notin> set q"
| "takes ck entries m (SingletonV2Q q) \<longleftrightarrow> m \<notin> set q"

lemma structure_insert_exact:
  assumes "libs_ok ck L content horizon entries" "structure_inv content qs" "takes ck entries m qs"
    "structure_insert L ck m name qs W = (r, qs', W')"
  shows "structure_inv content qs'"
    "structure_holds content entries qs' = (case r of StructInserted _ \<Rightarrow> add_mset m (structure_holds content entries qs)
       | StructFull m' \<Rightarrow> structure_holds content entries qs)"
    "r = StructFull m' \<Longrightarrow> m' = m"
proof -
  have "structure_inv content qs' \<and> structure_holds content entries qs' =
      (case r of StructInserted _ \<Rightarrow> add_mset m (structure_holds content entries qs) | StructFull m' \<Rightarrow> structure_holds content entries qs)
      \<and> (r = StructFull m' \<longrightarrow> m' = m)"
  proof (cases qs)
    case (TimerWheelQ q)
    have add: "content w' = add_mset m (content w)" if "qw_insert (lib_wheel L) d m w = Some w'" for d w w'
      using assms(1) that unfolding libs_ok_def quad_wheel_ok_def by blast
    then show ?thesis using assms(2,4) TimerWheelQ by (auto simp: timeq_add_def split: option.splits)
  next
    case (SkipListQ s)
    have "entries (ss_insert (lib_skip L) m s) = insort_key (get_bucketed_due ck) m (filter (\<lambda>x. get_bucketed_due ck x \<noteq> get_bucketed_due ck m) (entries s))"
      using assms(1) unfolding libs_ok_def skip_set_ok_def by blast
    moreover have "filter (\<lambda>x. get_bucketed_due ck x \<noteq> get_bucketed_due ck m) (entries s) = entries s"
      using assms(3) unfolding SkipListQ takes.simps by (intro filter_True) (metis imageI)
    ultimately show ?thesis using assms(4) SkipListQ by (auto simp: Let_def split: if_splits)
  next
    case (SingletonQ q)
    then show ?thesis using assms(2-4) by (auto simp: hs_insert_def split: option.splits)
  next
    case (SingletonV2Q q)
    then show ?thesis using assms(2-4) by (auto simp: insert_v2_def hs_insert_def split: prod.splits bool.splits)
  qed
  then show "structure_inv content qs'"
    "structure_holds content entries qs' = (case r of StructInserted _ \<Rightarrow> add_mset m (structure_holds content entries qs)
       | StructFull m' \<Rightarrow> structure_holds content entries qs)"
    "r = StructFull m' \<Longrightarrow> m' = m" by blast+
qed

lemma timeq_pop_exact:
  assumes "quad_wheel_ok L content horizon" "tq_len q = size (content (tq_wheel q))"
  shows "\<exists>r q'. timeq_pop L now q = Some (r, q') \<and> tq_len q' = size (content (tq_wheel q'))
    \<and> content (tq_wheel q) = mset (case r of Items ms \<Rightarrow> ms | _ \<Rightarrow> []) + content (tq_wheel q')"
proof -
  let ?ms = "((now - tq_last_check q) div 1000000) mod 2 ^ 32"
  obtain w' new where "timeq_pop_loop L ?ms ?ms (tq_wheel q) [] = Some (w', new)" "content (tq_wheel q) = content w' + mset new"
    using timeq_pop_loop_accounts[OF assms(1) order_refl, of ?ms "tq_wheel q" "[]"] by auto
  then show ?thesis using assms(2) by (auto simp: timeq_pop_def Let_def split: skip.split)
qed

lemma structure_pop_exact:
  assumes "libs_ok ck L content horizon entries" "structure_inv content qs"
  shows "\<exists>msgs sleep qs'. structure_pop L ck qs = Some ((msgs, sleep), qs') \<and> structure_inv content qs'
    \<and> structure_holds content entries qs = mset msgs + structure_holds content entries qs'"
proof (cases qs)
  case (TimerWheelQ q)
  then show ?thesis
    using timeq_pop_exact[of "lib_wheel L" content horizon q "ck_now ck"] assms by (auto simp: libs_ok_def)
next
  case (SkipListQ s)
  have len: "ss_len (lib_skip L) s = length (entries s)"
    using assms(1) unfolding libs_ok_def skip_set_ok_def by blast
  have ok: "skip_set_ok (get_bucketed_due ck) (lib_skip L) entries" using assms(1) by (simp add: libs_ok_def)
  obtain new s' sleep where
    "skip_pop_loop (lib_skip L) ck (Suc (length (entries s))) s [] = ((new, sleep), s')" "entries s = new @ entries s'"
    using skip_pop_loop_accounts[OF ok le_SucI[OF order_refl], of ck s "[]"] unfolding append_Nil by blast
  then show ?thesis using SkipListQ len by (simp del: skip_pop_loop.simps)
qed (use assms(2) in auto)

lemma structure_drain_exact:
  assumes "libs_ok ck L content horizon entries" "structure_inv content qs" "wheel_inv (wh_v2 W)"
    "\<And>q. qs = TimerWheelQ q \<Longrightarrow> horizon (tq_wheel q) < fuel"
  shows "\<exists>msgs qs' W'. structure_drain L fuel ck qs W = Some (msgs, qs', W') \<and> structure_inv content qs'
    \<and> structure_holds content entries qs = mset msgs + structure_holds content entries qs'
    \<and> structure_holds content entries qs' =
        (case qs of SingletonV2Q q \<Rightarrow> mset (filter (\<lambda>m. m \<notin> held (wh_v2 W)) q) | _ \<Rightarrow> {#})"
proof (cases qs)
  case (TimerWheelQ q)
  obtain w' new where "timeq_drain_loop (lib_wheel L) fuel (tq_wheel q) [] = Some (w', new)" "content (tq_wheel q) = mset new" "content w' = {#}"
    using timeq_drain_loop_accounts[of "lib_wheel L" content horizon "tq_wheel q" fuel "[]"] assms(1,4) TimerWheelQ
    unfolding libs_ok_def by auto
  then show ?thesis using TimerWheelQ by (simp add: timeq_drain_def)
next
  case (SkipListQ s)
  have len: "ss_len (lib_skip L) s = length (entries s)"
    using assms(1) unfolding libs_ok_def skip_set_ok_def by blast
  have ok: "skip_set_ok (get_bucketed_due ck) (lib_skip L) entries" using assms(1) by (simp add: libs_ok_def)
  obtain s' where "skip_drain_loop (lib_skip L) (Suc (length (entries s))) s [] = (entries s, s')" "entries s' = []"
    using skip_drain_loop_accounts[OF ok lessI, of s "[]"] unfolding append_Nil by blast
  then show ?thesis using SkipListQ len by (simp del: skip_drain_loop.simps)
next
  case (SingletonV2Q q)
  obtain w' where "drain_v2 q (wh_v2 W) = (w', filter (\<lambda>m. m \<notin> held (wh_v2 W)) q, filter (\<lambda>m. m \<in> held (wh_v2 W)) q)"
    using drain_v2_exact[OF assms(3)] assms(2) SingletonV2Q by auto
  moreover have "mset q = mset (filter (\<lambda>m. m \<in> held (wh_v2 W)) q) + mset (filter (\<lambda>m. m \<notin> held (wh_v2 W)) q)"
    unfolding mset_filter by (rule multiset_partition)
  ultimately show ?thesis using SingletonV2Q assms(2) by simp
qed simp

text \<open>Libraries on lists, as an instance of what is documented: every tick lets go of one entry.\<close>

definition list_wheel :: "('e, 'e list) quad_wheel" where
  "list_wheel =
     \<lparr>qw_new = [], qw_insert = (\<lambda>delay e w. if delay = 0 then None else Some (w @ [e])),
      qw_can_skip = (\<lambda>w. if w = [] then SkipEmpty else SkipNone), qw_tick = (\<lambda>w. (tl w, [hd w])), qw_skip = (\<lambda>_ w. w)\<rparr>"

definition list_skip_set :: "(nat \<Rightarrow> int) \<Rightarrow> nat list skip_set" where
  "list_skip_set key =
     \<lparr>ss_new = [], ss_front = (\<lambda>s. case s of [] \<Rightarrow> None | m # _ \<Rightarrow> Some m),
      ss_insert = (\<lambda>m s. insort_key key m (filter (\<lambda>x. key x \<noteq> key m) s)), ss_remove = remove1,
      ss_pop_front = (\<lambda>s. case s of [] \<Rightarrow> None | m # ms \<Rightarrow> Some (m, ms)), ss_len = length\<rparr>"

definition list_libs :: "qclock \<Rightarrow> (nat list, (nat \<times> string) list, nat list) libs" where
  "list_libs ck = \<lparr>lib_wheel = list_wheel, lib_wheel_v1 = list_wheel, lib_skip = list_skip_set (get_bucketed_due ck)\<rparr>"

lemma list_libs_ok: "libs_ok ck (list_libs ck) mset length id"
  by (auto simp: libs_ok_def list_libs_def quad_wheel_ok_def skip_set_ok_def list_wheel_def list_skip_set_def neq_Nil_conv split: if_splits list.split)



text \<open>C40: the skip list compares its entries by the second they are due, and an insertion removes an entry that compares
  equal: of two messages due in the same second, both of which it says it inserted, it holds the second only,
  and the first one is lost to the queue.\<close>

theorem skip_list_loses_message:
  assumes "skip_set_ok (get_bucketed_due ck) (lib_skip L) entries" "a \<noteq> b"
    "get_bucketed_due ck a = get_bucketed_due ck b" "timestamp (ck_utc ck) < get_bucketed_due ck b"
  shows "\<exists>qs1 qs2 n. structure_insert L ck a name (structure_new L now SkipList) W = (StructInserted True, qs1, W)
    \<and> structure_insert L ck b name qs1 W = (StructInserted n, qs2, W)
    \<and> (\<exists>qs3. structure_drain L 0 ck qs2 W = Some ([b], qs3, W)) \<and> structure_len L qs2 = 1"
proof -
  note law = assms(1)[unfolded skip_set_ok_def]
  define s1 where "s1 = ss_insert (lib_skip L) a (ss_new (lib_skip L))"
  define s2 where "s2 = ss_insert (lib_skip L) b s1"
  have e: "entries s1 = [a]" "entries s2 = [b]" using law assms(3) by (simp_all add: s1_def s2_def)
  then have len: "ss_len (lib_skip L) s2 = 1" using law by simp
  have front: "ss_front (lib_skip L) (ss_new (lib_skip L)) = None" using law by simp
  obtain s3 where "skip_drain_loop (lib_skip L) (Suc (length (entries s2))) s2 [] = (entries s2, s3)"
    using skip_drain_loop_accounts[OF assms(1) lessI, of s2 "[]"] unfolding append_Nil by blast
  then have d: "skip_drain_loop (lib_skip L) (Suc (ss_len (lib_skip L) s2)) s2 [] = ([b], s3)" using e len by simp
  have "structure_insert L ck a name (structure_new L now SkipList) W = (StructInserted True, SkipListQ s1, W)"
    using assms(3,4) front by (simp add: structure_new_def s1_def Let_def)
  moreover have "\<exists>n. structure_insert L ck b name (SkipListQ s1) W = (StructInserted n, SkipListQ s2, W)"
    using assms(4) by (simp add: s2_def Let_def)
  moreover have "structure_drain L 0 ck (SkipListQ s2) W = Some ([b], SkipListQ s3, W)" using d by (simp del: skip_drain_loop.simps)
  ultimately show ?thesis using len by (auto simp del: structure_insert.simps structure_drain.simps)
qed

theorem skip_list_loses_message_witness:
  "let ck = \<lparr>ck_now = 0, ck_utc = 0, ck_due = (\<lambda>m. Some (5000000000 + int m))\<rparr>; L = list_libs ck;
       W = \<lparr>wh_v1 = timeq_new list_wheel 0 :: (nat \<times> string) list timeq, wh_v2 = timer_wheel_new 3 0 3000000000\<rparr>
   in \<exists>qs1 qs2 n. structure_insert L ck 1 [] (structure_new L 0 SkipList) W = (StructInserted True, qs1, W)
      \<and> structure_insert L ck 2 [] qs1 W = (StructInserted n, qs2, W) \<and> structure_len L qs2 = 1"
proof -
  define ck where "ck = \<lparr>ck_now = 0, ck_utc = 0, ck_due = (\<lambda>m. Some (5000000000 + int m))\<rparr>"
  have "skip_set_ok (get_bucketed_due ck) (lib_skip (list_libs ck)) id" using list_libs_ok[of ck] by (simp add: libs_ok_def)
  from skip_list_loses_message[OF this, of 1 2 "[]" 0] show ?thesis
    unfolding ck_def[symmetric] Let_def by (fastforce simp: ck_def get_bucketed_due_def timestamp_def)
qed

end
