(* ===== verification/Queue_Maintainer.thy ===== *)
theory Queue_Maintainer
  imports Queue_Structure Queue_Manager
begin

text \<open>
  The tasks that move the messages that have become due, \<^verbatim>\<open>crates/kumod/src/queue/maintainer.rs\<close>: the tickers of the
  two shared wheels with the reinsertion of what they pop, and the pass of the task that maintains a queue with a
  structure of its own.  The second shared wheel is used by many threads: its lock makes an insertion, a drain and a pop atomic, but
  a popped message is taken out of its queue later, and the protocol of these steps is a transition system here.
\<close>

section \<open>Reinsertion of popped messages\<close>

datatype reinsert_error = LoadMetaFailed | QueueNameFailed | NoScheduledQueue | ImpossibleStrategy

text \<open>\<^verbatim>\<open>reinsert_ready\<close> for the first wheel: whether the message was still in the queue; \<^const>\<open>None\<close> for a
  structure it cannot be in.\<close>

fun reinsert_ready :: "nat \<Rightarrow> ('w, 's) queue_structure \<Rightarrow> (bool \<times> ('w, 's) queue_structure) option" where
  "reinsert_ready m (SingletonQ q) = (case hs_remove m q of (r, q') \<Rightarrow> Some (r, SingletonQ q'))"
| "reinsert_ready m (SingletonV2Q q) = (case hs_remove m q of (r, q') \<Rightarrow> Some (r, SingletonV2Q q'))"
| "reinsert_ready m _ = None"

text \<open>The loop of \<^verbatim>\<open>reinsert_batch\<close>: the messages that were still in their queues, grouped by the queue.\<close>

fun push_by_queue :: "string \<Rightarrow> nat \<Rightarrow> (string \<times> nat list) list \<Rightarrow> (string \<times> nat list) list" where
  "push_by_queue name m [] = [(name, [m])]"
| "push_by_queue name m ((n, ms) # rest) = (if n = name then (n, ms @ [m]) # rest else (n, ms) # push_by_queue name m rest)"

fun reinsert_batch ::
  "(nat \<times> string) list \<Rightarrow> (string \<Rightarrow> ('w, 's) queue_structure) \<Rightarrow> (string \<times> nat list) list
   \<Rightarrow> ((string \<Rightarrow> ('w, 's) queue_structure) \<times> (string \<times> nat list) list) option" where
  "reinsert_batch [] queues by_queue = Some (queues, by_queue)"
| "reinsert_batch ((m, name) # messages) queues by_queue =
     (case reinsert_ready m (queues name) of
        None \<Rightarrow> None
      | Some (r, qs) \<Rightarrow>
          reinsert_batch messages (queues(name := qs)) (if r then push_by_queue name m by_queue else by_queue))"

text \<open>\<^verbatim>\<open>reinsert_ready_v2\<close> up to the insertion into the ready queue.  The metadata is loaded, the name of the queue is
  asked of the message, and the queue is looked up.\<close>

definition reinsert_ready_v2 ::
  "bool \<Rightarrow> string option \<Rightarrow> (string \<rightharpoonup> ('w, 's) queue_structure) \<Rightarrow> nat
   \<Rightarrow> (reinsert_error, bool) result \<times> (string \<rightharpoonup> ('w, 's) queue_structure)" where
  "reinsert_ready_v2 loaded name queues m =
     (if \<not> loaded then (Inl LoadMetaFailed, queues)
      else case name of
        None \<Rightarrow> (Inl QueueNameFailed, queues)
      | Some name \<Rightarrow>
          (case queues name of
             None \<Rightarrow> (Inl NoScheduledQueue, queues)
           | Some qs \<Rightarrow>
               (case reinsert_ready m qs of
                  None \<Rightarrow> (Inl ImpossibleStrategy, queues)
                | Some (r, qs') \<Rightarrow> (Inr r, queues(name \<mapsto> qs')))))"

section \<open>The protocol of the second shared wheel\<close>

text \<open>The state: the wheel, the sets of the queues, the messages that a ticker has popped and not yet looked at, and the
  messages in the hands of the tasks that insert and drain or that have made them ready.\<close>

record v2_state =
  v2_wheel :: timer_wheel
  v2_queue :: "string \<Rightarrow> nat list"
  v2_flying :: "nat list"
  v2_hands :: "nat list"

datatype v2_label =
    V2Insert qclock nat string
  | V2Drain string
  | V2Pop qclock
  | V2Reinsert bool "string \<Rightarrow> bool" "string option" nat

text \<open>The queues as the manager sees them: it finds the ones that it tracks at the moment.\<close>

definition v2_structures :: "(string \<Rightarrow> bool) \<Rightarrow> v2_state \<Rightarrow> (string \<rightharpoonup> (unit, unit) queue_structure)" where
  "v2_structures tracked s = (\<lambda>name. if tracked name then Some (SingletonV2Q (v2_queue s name)) else None)"

inductive v2_step :: "v2_label \<Rightarrow> v2_state \<Rightarrow> v2_state \<Rightarrow> bool" where
  inserted: "m \<in> set (v2_hands s) \<Longrightarrow> insert_v2 ck m (v2_queue s name) (v2_wheel s) = (StructInserted b, q, w)
    \<Longrightarrow> v2_step (V2Insert ck m name) s
          (s\<lparr>v2_wheel := w, v2_queue := (v2_queue s)(name := q), v2_hands := removeAll m (v2_hands s)\<rparr>)"
| full: "m \<in> set (v2_hands s) \<Longrightarrow> insert_v2 ck m (v2_queue s name) (v2_wheel s) = (StructFull m', q, w)
    \<Longrightarrow> v2_step (V2Insert ck m name) s (s\<lparr>v2_wheel := w, v2_queue := (v2_queue s)(name := q)\<rparr>)"
| drain: "drain_v2 (v2_queue s name) (v2_wheel s) = (w, q, msgs)
    \<Longrightarrow> v2_step (V2Drain name) s
          (s\<lparr>v2_wheel := w, v2_queue := (v2_queue s)(name := q), v2_hands := v2_hands s @ msgs\<rparr>)"
| popped: "pop_impl (ck_now ck) (ck_utc ck) (ck_due ck) (v2_wheel s) = Some (w, ready)
    \<Longrightarrow> v2_step (V2Pop ck) s (s\<lparr>v2_wheel := w, v2_flying := v2_flying s @ ready\<rparr>)"
| reinsert: "m \<in> set (v2_flying s) \<Longrightarrow> reinsert_ready_v2 loaded name (v2_structures tracked s) m = (r, qs)
    \<Longrightarrow> v2_step (V2Reinsert loaded tracked name m) s
          (s\<lparr>v2_flying := removeAll m (v2_flying s),
             v2_queue := (\<lambda>n. case qs n of Some (SingletonV2Q q) \<Rightarrow> q | _ \<Rightarrow> v2_queue s n),
             v2_hands := (if r = Inr True then v2_hands s @ [m] else v2_hands s)\<rparr>)"


text \<open>Runs of which every step is allowed.\<close>

inductive v2_run :: "(v2_label \<Rightarrow> v2_state \<Rightarrow> bool) \<Rightarrow> v2_state \<Rightarrow> v2_state \<Rightarrow> bool" for ok s0 where
  start: "v2_run ok s0 s0"
| more: "v2_run ok s0 s \<Longrightarrow> ok l s \<Longrightarrow> v2_step l s s' \<Longrightarrow> v2_run ok s0 s'"

definition v2_initial :: "nat list \<Rightarrow> v2_state" where
  "v2_initial ms =
     \<lparr>v2_wheel = timer_wheel_new 3 0 3000000000, v2_queue = (\<lambda>_. []), v2_flying = [], v2_hands = ms\<rparr>"

definition queued :: "v2_state \<Rightarrow> nat set" where
  "queued s = (\<Union>name. set (v2_queue s name))"

text \<open>The invariant: the hands and the queues share no message and no queue shares one with another; whatever the
  wheel holds or a ticker has popped is in a queue, and not in both.\<close>

definition v2_inv :: "v2_state \<Rightarrow> bool" where
  "v2_inv s \<longleftrightarrow>
     wheel_inv (v2_wheel s) \<and> distinct (v2_hands s) \<and> distinct (v2_flying s) \<and> (\<forall>name. distinct (v2_queue s name))
     \<and> (\<forall>n n' m. m \<in> set (v2_queue s n) \<longrightarrow> m \<in> set (v2_queue s n') \<longrightarrow> n = n')
     \<and> set (v2_hands s) \<inter> queued s = {}
     \<and> held (v2_wheel s) \<subseteq> queued s \<and> set (v2_flying s) \<subseteq> queued s \<and> held (v2_wheel s) \<inter> set (v2_flying s) = {}"

lemma in_queued: "m \<in> queued s \<longleftrightarrow> (\<exists>name. m \<in> set (v2_queue s name))"
  by (simp add: queued_def)

lemma insert_v2_outcome:
  assumes "wheel_inv w" "insert_v2 ck m q w = (r, q', w')"
  shows "wheel_inv w'"
    "r = StructInserted b \<Longrightarrow> q' = hs_insert m q \<and> held w' = insert m (held w)"
    "r = StructFull m' \<Longrightarrow> q' = q \<and> held w' = held w"
proof -
  obtain ok w1 where i: "wheel_insert (ck_now ck) (ck_utc ck) (ck_due ck m) m w = (ok, w1)" by fastforce
  note wheel.ins_law[OF assms(1) i]
  then show "wheel_inv w'" "r = StructInserted b \<Longrightarrow> q' = hs_insert m q \<and> held w' = insert m (held w)"
    "r = StructFull m' \<Longrightarrow> q' = q \<and> held w' = held w"
    using assms(2) i by (cases ok; simp add: insert_v2_def)+
qed

lemma reinsert_v2_outcome:
  assumes "reinsert_ready_v2 loaded name (v2_structures tracked s) m = (r, qs)"
    "s' = s\<lparr>v2_queue := (\<lambda>n. case qs n of Some (SingletonV2Q q) \<Rightarrow> q | _ \<Rightarrow> v2_queue s n)\<rparr>"
  obtains (taken) n where "loaded" "name = Some n" "tracked n" "r = Inr True" "m \<in> set (v2_queue s n)"
      "v2_queue s' = (v2_queue s)(n := removeAll m (v2_queue s n))"
    | (missed) "r \<noteq> Inr True" "v2_queue s' = v2_queue s"
      "\<And>n. loaded \<Longrightarrow> name = Some n \<Longrightarrow> tracked n \<Longrightarrow> m \<notin> set (v2_queue s n)"
proof (cases "\<exists>n. loaded \<and> name = Some n \<and> tracked n \<and> m \<in> set (v2_queue s n)")
  case True
  then obtain n where n: "loaded" "name = Some n" "tracked n" "m \<in> set (v2_queue s n)" by blast
  then have "r = Inr True" "qs = (v2_structures tracked s)(n \<mapsto> SingletonV2Q (removeAll m (v2_queue s n)))"
    using assms(1) by (auto simp: reinsert_ready_v2_def v2_structures_def hs_remove_def)
  moreover from this(2) have "v2_queue s' = (v2_queue s)(n := removeAll m (v2_queue s n))"
    unfolding assms(2) by (auto simp: v2_structures_def)
  ultimately show ?thesis using n taken by blast
next
  case False
  have "r \<noteq> Inr True \<and> qs = v2_structures tracked s"
  proof (cases "\<exists>n. loaded \<and> name = Some n \<and> tracked n")
    case True
    then obtain n where n: "loaded" "name = Some n" "tracked n" "m \<notin> set (v2_queue s n)" using False by blast
    then have "r = Inr False" "qs = (v2_structures tracked s)(n \<mapsto> SingletonV2Q (v2_queue s n))"
      using assms(1) by (auto simp: reinsert_ready_v2_def v2_structures_def hs_remove_def)
    moreover have "(v2_structures tracked s)(n \<mapsto> SingletonV2Q (v2_queue s n)) = v2_structures tracked s"
      using n(3) by (auto simp: v2_structures_def)
    ultimately show ?thesis by simp
  qed (use assms(1) in \<open>auto simp: reinsert_ready_v2_def v2_structures_def split: if_splits option.splits\<close>)
  then have "r \<noteq> Inr True" "v2_queue s' = v2_queue s" unfolding assms(2) by (auto simp: v2_structures_def)
  then show ?thesis using False missed by blast
qed

text \<open>Where a message is: the invariant and the set of all messages, as one property of a step.\<close>

definition everyone :: "v2_state \<Rightarrow> nat set" where
  "everyone s = set (v2_hands s) \<union> queued s"

lemma queued_update:
  "queued (s\<lparr>v2_wheel := w, v2_queue := (v2_queue s)(name := q), v2_hands := h\<rparr>)
     = set q \<union> (\<Union>n \<in> - {name}. set (v2_queue s n))"
  "queued (s\<lparr>v2_queue := (v2_queue s)(name := q)\<rparr>) = set q \<union> (\<Union>n \<in> - {name}. set (v2_queue s n))"
  by (auto simp: queued_def split: if_splits)

lemma queued_split: "queued s = set (v2_queue s name) \<union> (\<Union>n \<in> - {name}. set (v2_queue s n))"
  by (auto simp: queued_def)

lemma queued_apart:
  assumes "\<forall>n n' m. m \<in> set (v2_queue s n) \<longrightarrow> m \<in> set (v2_queue s n') \<longrightarrow> n = n'"
  shows "set (v2_queue s name) \<inter> (\<Union>n \<in> - {name}. set (v2_queue s n)) = {}"
  using assms by blast

lemma v2_inserted_inv:
  assumes "v2_inv s" "m \<in> set (v2_hands s)" "insert_v2 ck m (v2_queue s name) (v2_wheel s) = (StructInserted b, q, w)"
    "s' = s\<lparr>v2_wheel := w, v2_queue := (v2_queue s)(name := q), v2_hands := removeAll m (v2_hands s)\<rparr>"
  shows "v2_inv s' \<and> everyone s' = everyone s"
proof -
  have inv: "wheel_inv (v2_wheel s)" using assms(1) by (simp add: v2_inv_def)
  have fresh: "m \<notin> set (v2_queue s n)" for n using assms(1,2) unfolding v2_inv_def queued_def by blast
  have w: "wheel_inv w" "q = v2_queue s name @ [m]" "held w = insert m (held (v2_wheel s))"
    using insert_v2_outcome[OF inv assms(3)] fresh by (auto simp: hs_insert_def)
  have q: "queued s' = insert m (queued s)"
    unfolding assms(4) queued_update w(2) queued_split[of s name] by auto
  have "m \<notin> queued s" using fresh by (simp add: in_queued)
  moreover from this have "m \<notin> set (v2_flying s)" using assms(1) by (auto simp: v2_inv_def)
  ultimately show ?thesis
    using assms(1,2) w fresh q unfolding v2_inv_def everyone_def by (auto simp: assms(4) distinct_removeAll)
qed

lemma v2_drain_inv:
  assumes "v2_inv s" "drain_v2 (v2_queue s name) (v2_wheel s) = (w, q, msgs)"
    "s' = s\<lparr>v2_wheel := w, v2_queue := (v2_queue s)(name := q), v2_hands := v2_hands s @ msgs\<rparr>"
  shows "v2_inv s' \<and> everyone s' = everyone s"
proof -
  let ?q = "v2_queue s name"
  have inv: "wheel_inv (v2_wheel s)" "distinct ?q" using assms(1) by (simp_all add: v2_inv_def)
  have w: "wheel_inv w" "held w = held (v2_wheel s) - set ?q" "q = filter (\<lambda>m. m \<notin> held (v2_wheel s)) ?q"
    "msgs = filter (\<lambda>m. m \<in> held (v2_wheel s)) ?q"
    using drain_v2_exact[OF inv] assms(2) by auto
  define rest where "rest = (\<Union>n \<in> - {name}. set (v2_queue s n))"
  have q': "queued s' = set q \<union> rest" unfolding assms(3) queued_update rest_def ..
  have q0: "queued s = set ?q \<union> rest" unfolding rest_def by (rule queued_split)
  have apart: "set ?q \<inter> rest = {}" unfolding rest_def using assms(1) unfolding v2_inv_def by (intro queued_apart) blast
  have parts: "distinct (v2_hands s)" "distinct (v2_flying s)" "\<And>n. distinct (v2_queue s n)" "set (v2_hands s) \<inter> (set ?q \<union> rest) = {}"
    "held (v2_wheel s) \<subseteq> set ?q \<union> rest" "set (v2_flying s) \<subseteq> set ?q \<union> rest" "held (v2_wheel s) \<inter> set (v2_flying s) = {}"
    "\<And>n n' m. m \<in> set (v2_queue s n) \<Longrightarrow> m \<in> set (v2_queue s n') \<Longrightarrow> n = n'"
    using assms(1) unfolding v2_inv_def q0 by blast+
  have sub: "set q \<subseteq> set ?q" using w(3) by auto
  have "v2_inv s'"
    unfolding v2_inv_def q'
  proof (intro conjI allI impI)
    show "wheel_inv (v2_wheel s')" "distinct (v2_flying s')" using w(1) parts(2) assms(3) by simp_all
    show "distinct (v2_hands s')" using parts(1,4) inv(2) assms(3) w(4) by auto
    show "distinct (v2_queue s' n)" for n using parts(3) inv(2) assms(3) w(3) by simp
    show "n = n'" if "m \<in> set (v2_queue s' n)" "m \<in> set (v2_queue s' n')" for n n' m
      using that parts(8) sub assms(3) by (auto split: if_splits)
    show "set (v2_hands s') \<inter> (set q \<union> rest) = {}" using parts(4) apart assms(3) w(3,4) by auto
    show "held (v2_wheel s') \<subseteq> set q \<union> rest" using parts(5) assms(3) w(2) by auto
    show "set (v2_flying s') \<subseteq> set q \<union> rest" using parts(6,7) assms(3) w(3) by auto
    show "held (v2_wheel s') \<inter> set (v2_flying s') = {}" using parts(7) assms(3) w(2) by auto
  qed
  moreover have "everyone s' = everyone s"
    unfolding everyone_def q' q0 using assms(3) w(3,4) by auto
  ultimately show ?thesis by blast
qed

lemma v2_reinsert_inv:
  assumes "v2_inv s" "m \<in> set (v2_flying s)" "reinsert_ready_v2 loaded name (v2_structures tracked s) m = (r, qs)"
    "s' = s\<lparr>v2_flying := removeAll m (v2_flying s), v2_queue := (\<lambda>n. case qs n of Some (SingletonV2Q q) \<Rightarrow> q | _ \<Rightarrow> v2_queue s n),
           v2_hands := (if r = Inr True then v2_hands s @ [m] else v2_hands s)\<rparr>"
  shows "v2_inv s' \<and> everyone s' = everyone s"
  using assms(3) refl
proof (cases rule: reinsert_v2_outcome)
  case (taken n)
  define rest where "rest = (\<Union>k \<in> - {n}. set (v2_queue s k))"
  have s': "v2_queue s' = (v2_queue s)(n := removeAll m (v2_queue s n))" using taken(6) assms(4) by simp
  have q': "queued s' = (set (v2_queue s n) - {m}) \<union> rest"
    unfolding queued_split[of s' n] s' rest_def by auto
  have q0: "queued s = set (v2_queue s n) \<union> rest" unfolding rest_def by (rule queued_split)
  have apart: "set (v2_queue s n) \<inter> rest = {}" unfolding rest_def using assms(1) unfolding v2_inv_def by (intro queued_apart) blast
  have parts: "distinct (v2_hands s)" "distinct (v2_flying s)" "\<And>n. distinct (v2_queue s n)" "set (v2_hands s) \<inter> (set (v2_queue s n) \<union> rest) = {}"
    "held (v2_wheel s) \<subseteq> set (v2_queue s n) \<union> rest" "set (v2_flying s) \<subseteq> set (v2_queue s n) \<union> rest" "held (v2_wheel s) \<inter> set (v2_flying s) = {}"
    "\<And>n n' m. m \<in> set (v2_queue s n) \<Longrightarrow> m \<in> set (v2_queue s n') \<Longrightarrow> n = n'" "wheel_inv (v2_wheel s)"
    using assms(1) unfolding v2_inv_def q0 by blast+
  have "v2_inv s'"
    unfolding v2_inv_def q'
  proof (intro conjI allI impI)
    show "wheel_inv (v2_wheel s')" "distinct (v2_flying s')" "distinct (v2_queue s' k)" for k
      using parts(2,3,9) s' assms(4) by (simp_all add: distinct_removeAll)
    show "distinct (v2_hands s')" using parts(1,4) taken(5) assms(4) by auto
    show "k = k'" if "x \<in> set (v2_queue s' k)" "x \<in> set (v2_queue s' k')" for k k' x
      using that parts(8) s' by (auto split: if_splits)
    show "set (v2_hands s') \<inter> (set (v2_queue s n) - {m} \<union> rest) = {}" using parts(4) apart taken(5) assms(4) by auto
    show "held (v2_wheel s') \<subseteq> set (v2_queue s n) - {m} \<union> rest" using parts(5,7) assms(2,4) by auto
    show "set (v2_flying s') \<subseteq> set (v2_queue s n) - {m} \<union> rest" using parts(6) assms(4) by auto
    show "held (v2_wheel s') \<inter> set (v2_flying s') = {}" using parts(7) assms(4) by auto
  qed
  moreover have "everyone s' = everyone s"
    unfolding everyone_def q' q0 using assms(4) taken(4,5) by auto
  ultimately show ?thesis by blast
next
  case missed
  then have s': "v2_queue s' = v2_queue s" "v2_hands s' = v2_hands s" "v2_wheel s' = v2_wheel s" "v2_flying s' = removeAll m (v2_flying s)"
    unfolding assms(4) by simp_all
  then have "queued s' = queued s" by (simp add: queued_def)
  then show ?thesis using assms(1) s' unfolding v2_inv_def everyone_def by (auto simp: distinct_removeAll)
qed

lemma v2_step_inv:
  assumes "v2_step l s s'" "v2_inv s"
  shows "v2_inv s' \<and> everyone s' = everyone s"
  using assms(1)
proof cases
  case (inserted m ck name b q w)
  show ?thesis by (rule v2_inserted_inv[OF assms(2) inserted(3,4,2)])
next
  case (full m ck name m' q w)
  have inv: "wheel_inv (v2_wheel s)" using assms(2) by (simp add: v2_inv_def)
  have w: "wheel_inv w" "q = v2_queue s name" "held w = held (v2_wheel s)" using insert_v2_outcome[OF inv full(4)] by auto
  then have "queued s' = queued s" using full(2) by (simp add: queued_def)
  then show ?thesis using assms(2) full(2) w unfolding v2_inv_def everyone_def by simp
next
  case (drain name w q msgs)
  show ?thesis by (rule v2_drain_inv[OF assms(2) drain(3,2)])
next
  case (popped ck w ready)
  have inv: "wheel_inv (v2_wheel s)" using assms(2) by (simp add: v2_inv_def)
  have w: "wheel_inv w" "distinct ready" "held (v2_wheel s) = held w \<union> set ready" "held w \<inter> set ready = {}"
    using wheel.pop_law[OF inv, of "ck_now ck" "ck_utc ck" "ck_due ck"] popped(3) by auto
  have "queued s' = queued s" using popped(2) by (simp add: queued_def)
  then show ?thesis using assms(2) popped(2) w unfolding v2_inv_def everyone_def by auto
next
  case (reinsert m loaded tracked name r qs)
  show ?thesis by (rule v2_reinsert_inv[OF assms(2) reinsert(3,4,2)])
qed

lemma v2_initial_inv: "distinct ms \<Longrightarrow> v2_inv (v2_initial ms)" "everyone (v2_initial ms) = set ms"
proof -
  have "held (timer_wheel_new 3 0 3000000000) = {}" by (simp add: held_def timer_wheel_new_def)
  then show "distinct ms \<Longrightarrow> v2_inv (v2_initial ms)" "everyone (v2_initial ms) = set ms"
    by (simp_all add: v2_inv_def v2_initial_def wheel_new_inv queued_def everyone_def)
qed

lemma v2_run_inv:
  assumes "v2_run ok (v2_initial ms) s" "distinct ms"
  shows "v2_inv s \<and> everyone s = set ms"
  using assms(1) by induction (use v2_initial_inv assms(2) v2_step_inv in auto)

text \<open>A reinsertion that finds the queue of its message.\<close>

definition resolves :: "v2_label \<Rightarrow> v2_state \<Rightarrow> bool" where
  "resolves l s =
     (case l of V2Reinsert loaded tracked name m \<Rightarrow> loaded \<and> (case name of Some n \<Rightarrow> tracked n \<and> m \<in> set (v2_queue s n) | None \<Rightarrow> False) | _ \<Rightarrow> True)"

definition attended :: "v2_state \<Rightarrow> bool" where
  "attended s \<longleftrightarrow> queued s \<subseteq> held (v2_wheel s) \<union> set (v2_flying s)"

lemma attended_step:
  assumes "v2_step l s s'" "v2_inv s" "attended s" "resolves l s"
  shows "attended s'"
  using assms(1)
proof cases
  case (inserted m ck name b q w)
  have inv: "wheel_inv (v2_wheel s)" using assms(2) by (simp add: v2_inv_def)
  have "set q \<subseteq> insert m (set (v2_queue s name))" "held w = insert m (held (v2_wheel s))"
    using insert_v2_outcome(2)[OF inv inserted(4)] by (auto simp: hs_insert_def)
  then show ?thesis
    using assms(3) unfolding attended_def inserted(2) queued_update queued_split[of s name] by auto
next
  case (full m ck name m' q w)
  have inv: "wheel_inv (v2_wheel s)" using assms(2) by (simp add: v2_inv_def)
  have "q = v2_queue s name" "held w = held (v2_wheel s)" using insert_v2_outcome(3)[OF inv full(4)] by auto
  then show ?thesis using assms(3) full(2) by (simp add: attended_def queued_def)
next
  case (drain name w q msgs)
  have inv: "wheel_inv (v2_wheel s)" "distinct (v2_queue s name)" using assms(2) by (simp_all add: v2_inv_def)
  have w: "held w = held (v2_wheel s) - set (v2_queue s name)" "q = filter (\<lambda>m. m \<notin> held (v2_wheel s)) (v2_queue s name)"
    using drain_v2_exact[OF inv] drain(3) by auto
  have "set (v2_queue s name) \<inter> (\<Union>n \<in> - {name}. set (v2_queue s n)) = {}"
    using assms(2) unfolding v2_inv_def by (intro queued_apart) blast
  then show ?thesis
    using assms(3) w unfolding attended_def drain(2) queued_update queued_split[of s name] by auto
next
  case (popped ck w ready)
  have inv: "wheel_inv (v2_wheel s)" using assms(2) by (simp add: v2_inv_def)
  have "held (v2_wheel s) = held w \<union> set ready"
    using wheel.pop_law[OF inv, of "ck_now ck" "ck_utc ck" "ck_due ck"] popped(3) by auto
  then show ?thesis using assms(3) popped(2) by (auto simp: attended_def queued_def)
next
  case (reinsert m loaded tracked name r qs)
  from reinsert(4) refl show ?thesis
  proof (cases rule: reinsert_v2_outcome)
    case (taken n)
    then have "v2_queue s' = (v2_queue s)(n := removeAll m (v2_queue s n))" using reinsert(2) by simp
    moreover have "m \<notin> set (v2_queue s k)" if "k \<noteq> n" for k using assms(2) taken(5) that unfolding v2_inv_def by blast
    ultimately have "queued s' = queued s - {m}" by (fastforce simp: queued_def split: if_splits)
    then show ?thesis using assms(3) reinsert(2) by (auto simp: attended_def)
  next
    case missed
    then show ?thesis using assms(4) reinsert(1) by (auto simp: resolves_def split: option.splits)
  qed
qed

lemma v2_run_attended:
  assumes "v2_run resolves (v2_initial ms) s" "distinct ms"
  shows "attended s"
  using assms(1)
proof induction
  case start
  then show ?case by (simp add: attended_def v2_initial_def queued_def)
next
  case (more s l s')
  then show ?case using attended_step v2_run_inv[OF more(1) assms(2)] by blast
qed

text \<open>A message that is in a queue and that neither the wheel nor a ticker has.\<close>

definition stranded :: "nat \<Rightarrow> string \<Rightarrow> v2_state \<Rightarrow> bool" where
  "stranded m n s \<longleftrightarrow> v2_inv s \<and> m \<in> set (v2_queue s n) \<and> m \<notin> held (v2_wheel s) \<and> m \<notin> set (v2_flying s)"

lemma stranded_step:
  assumes "v2_step l s s'" "stranded m n s"
  shows "stranded m n s'"
proof -
  have s: "v2_inv s" "m \<in> set (v2_queue s n)" "m \<notin> held (v2_wheel s)" "m \<notin> set (v2_flying s)"
    using assms(2) by (simp_all add: stranded_def)
  have inv: "wheel_inv (v2_wheel s)" "distinct (v2_queue s k)" for k using s(1) by (simp_all add: v2_inv_def)
  have hands: "m \<notin> set (v2_hands s)" using s(1,2) unfolding v2_inv_def queued_def by blast
  have inv': "v2_inv s'" using v2_step_inv[OF assms(1) s(1)] by blast
  from assms(1) show ?thesis
  proof cases
    case (inserted x ck name b q w)
    then show ?thesis
      using insert_v2_outcome(2)[OF inv(1) inserted(4)] s hands inv' by (auto simp: stranded_def hs_insert_def)
  next
    case (full x ck name m' q w)
    then show ?thesis using insert_v2_outcome(3)[OF inv(1) full(4)] s inv' by (auto simp: stranded_def)
  next
    case (drain name w q msgs)
    then show ?thesis using drain_v2_exact[OF inv(1) inv(2)[of name]] s inv' by (auto simp: stranded_def)
  next
    case (popped ck w ready)
    then show ?thesis
      using wheel.pop_law[OF inv(1), of "ck_now ck" "ck_utc ck" "ck_due ck"] s inv' by (auto simp: stranded_def)
  next
    case (reinsert x loaded tracked name r qs)
    then have "x \<noteq> m" using s(4) by blast
    from reinsert(4) refl show ?thesis
      by (cases rule: reinsert_v2_outcome) (use reinsert(2) \<open>x \<noteq> m\<close> s inv' in \<open>auto simp: stranded_def\<close>)
  qed
qed

lemma stranded_run: "v2_run ok s s' \<Longrightarrow> stranded m n s \<Longrightarrow> stranded m n s'"
  by (induction rule: v2_run.induct) (use stranded_step in blast)+

lemma failed_reinsert_strands:
  assumes "v2_inv s" "m \<in> set (v2_queue s n)" "v2_step (V2Reinsert loaded tracked name m) s s'" "\<not> resolves (V2Reinsert loaded tracked name m) s"
  shows "stranded m n s'"
  using assms(3)
proof cases
  case (reinsert r qs)
  from reinsert(3) refl show ?thesis
  proof (cases rule: reinsert_v2_outcome)
    case (taken k)
    then show ?thesis using assms(4) by (simp add: resolves_def)
  next
    case missed
    moreover have "m \<notin> held (v2_wheel s)" using assms(1) reinsert(2) unfolding v2_inv_def by blast
    moreover have "v2_inv s'" using v2_step_inv[OF assms(3,1)] by blast
    ultimately show ?thesis using reinsert(1) assms(2) by (simp add: stranded_def)
  qed
qed

section \<open>Properties of the protocol\<close>

text \<open>C4: whatever the order in which the threads insert, drain, pop and reinsert, no message of the second shared wheel is
  lost or held twice: every message is either in the hands of one task, once, or in exactly one queue; a message that was drained or made
  ready is neither on the wheel nor among the popped ones; and as long as every reinsertion finds the
  queue of its message, a queued message is on the wheel or about to be reinserted, but never both.\<close>

theorem v2_messages_in_one_place:
  assumes "v2_run ok (v2_initial ms) s" "distinct ms"
  shows "distinct (v2_hands s) \<and> set ms = set (v2_hands s) \<union> queued s \<and> set (v2_hands s) \<inter> queued s = {}
    \<and> (\<forall>m \<in> queued s. \<exists>!name. m \<in> set (v2_queue s name)) \<and> (\<forall>name. distinct (v2_queue s name))
    \<and> set (v2_hands s) \<inter> (held (v2_wheel s) \<union> set (v2_flying s)) = {}
    \<and> held (v2_wheel s) \<inter> set (v2_flying s) = {}
    \<and> (ok = resolves \<longrightarrow> queued s = held (v2_wheel s) \<union> set (v2_flying s))"
proof -
  have inv: "v2_inv s" "everyone s = set ms" using v2_run_inv[OF assms] by blast+
  have "queued s = held (v2_wheel s) \<union> set (v2_flying s)" if "ok = resolves"
    using v2_run_attended[of ms s] assms that inv(1) unfolding attended_def v2_inv_def by blast
  moreover have "\<exists>!name. m \<in> set (v2_queue s name)" if "m \<in> queued s" for m
    using inv(1) that unfolding v2_inv_def queued_def by blast
  moreover have "set (v2_hands s) \<inter> (held (v2_wheel s) \<union> set (v2_flying s)) = {}"
    using inv(1) unfolding v2_inv_def by blast
  moreover have "distinct (v2_hands s)" "set (v2_hands s) \<inter> queued s = {}" "\<forall>name. distinct (v2_queue s name)"
    "held (v2_wheel s) \<inter> set (v2_flying s) = {}" using inv(1) by (simp_all add: v2_inv_def)
  ultimately show ?thesis using inv(2) unfolding everyone_def by (intro conjI ballI impI) simp_all
qed

text \<open>C39: a reinsertion that fails, because the metadata does not load or the manager does not find the queue of the message, leaves its message in the queue
  for good: it is no longer on the wheel, so no later pop or drain returns it, and the queue is never empty again.\<close>

theorem v2_failed_reinsertion_strands:
  assumes "v2_run ok (v2_initial ms) s" "distinct ms" "m \<in> set (v2_queue s n)"
    "v2_step (V2Reinsert loaded tracked name m) s s1" "\<not> resolves (V2Reinsert loaded tracked name m) s" "v2_run ok' s1 s2"
  shows "m \<in> set (v2_queue s2 n) \<and> m \<notin> set (v2_hands s2) \<and> m \<notin> held (v2_wheel s2) \<and> m \<notin> set (v2_flying s2)"
proof -
  have "v2_inv s" using v2_run_inv[OF assms(1,2)] by blast
  then have "stranded m n s2" using failed_reinsert_strands assms(3-5) stranded_run[OF assms(6)] by blast
  then show ?thesis unfolding stranded_def v2_inv_def queued_def by blast
qed

text \<open>A run: a message due after ten seconds is inserted and popped after twelve.\<close>

definition due_10 :: "nat \<Rightarrow> int option" where
  "due_10 _ = Some 10000000000"

definition demo_clock :: "nat \<Rightarrow> qclock" where
  "demo_clock t = \<lparr>ck_now = t, ck_utc = int t, ck_due = due_10\<rparr>"

definition demo_queued :: v2_state where
  "demo_queued = \<lparr>v2_wheel = lone_wheel 0 0 4 0, v2_queue = (\<lambda>_. [])([] := [7]), v2_flying = [], v2_hands = []\<rparr>"

lemma demo_insert: "v2_step (V2Insert (demo_clock 0) 7 []) (v2_initial [7]) demo_queued"
proof -
  have "compute_list (timer_wheel_new 3 0 3000000000) 10000000000 Up = Some (0, 4)"
    by (simp add: compute_list_def compute_abs_tick_def timer_wheel_new_def as_millis_round_up_def div_ceil_def
        list_position_def upt_rec)
  then have "wheel_insert 0 0 (due_10 7) 7 (timer_wheel_new 3 0 3000000000) = (True, lone_wheel 0 0 4 0)"
    by (auto simp: wheel_insert_def insert_impl_alt due_10_def place_in_def set_list_def timer_wheel_new_def lone_wheel_def fun_eq_iff)
  then have "insert_v2 (demo_clock 0) 7 (v2_queue (v2_initial [7]) []) (v2_wheel (v2_initial [7])) = (StructInserted False, [7], lone_wheel 0 0 4 0)"
    by (simp add: insert_v2_def demo_clock_def v2_initial_def hs_insert_def)
  from v2_step.inserted[OF _ this] show ?thesis by (simp add: v2_initial_def demo_queued_def)
qed

lemma demo_pop: "\<exists>s. v2_step (V2Pop (demo_clock 12000000000)) demo_queued s \<and> v2_flying s = [7] \<and> v2_queue s = v2_queue demo_queued"
proof -
  let ?w = "lone_wheel 0 0 4 0"
  have t: "compute_abs_tick ?w (tw_last_dispatched ?w) Down = Some 0" "compute_abs_tick ?w 12000000000 Down = Some 4"
    "tw_next_run ?w = 3000000000" "tw_slots ?w = 3"
    by (simp_all add: lone_wheel_tick) (simp_all add: lone_wheel_def)
  have c: "fold (cascade_tick 12000000000 12000000000 due_10) [0 + 1..<4 + 1] (?w, []) = (?w, [])"
    by (simp add: cascade_tick_def upt_rec)
  have "\<exists>w. fold (first_wheel_tick 12000000000 12000000000 due_10) [0 + 1..<0 + min (4 - 0) wheel_size + 1] (?w, []) = (w, [7])"
    by (simp add: first_wheel_tick_def upt_rec Let_def process_slots_def process_slot_def set_list_def lone_wheel_def insert_impl_def due_10_def)
  then have "\<exists>w. pop_impl 12000000000 12000000000 due_10 ?w = Some (w, [7])"
    unfolding pop_impl_def t option.case prod.case Let_def c by auto
  then obtain w where "pop_impl (ck_now (demo_clock 12000000000)) (ck_utc (demo_clock 12000000000)) (ck_due (demo_clock 12000000000)) (v2_wheel demo_queued) = Some (w, [7])"
    by (auto simp: demo_clock_def demo_queued_def)
  from v2_step.popped[OF this] show ?thesis by (intro exI conjI, assumption) (simp_all add: demo_queued_def)
qed

lemma demo_run: "v2_run ok (v2_initial [7]) demo_queued" if "\<And>ck m name s. ok (V2Insert ck m name) s"
  by (rule v2_run.more[OF v2_run.start _ demo_insert]) (rule that)

theorem v2_messages_in_one_place_witness:
  "v2_run resolves (v2_initial [7]) demo_queued \<and> queued demo_queued = {7}
   \<and> held (v2_wheel demo_queued) \<union> set (v2_flying demo_queued) = {7}"
proof -
  have run: "v2_run resolves (v2_initial [7]) demo_queued" by (rule demo_run) (simp add: resolves_def)
  have "queued demo_queued = {7}" by (auto simp: queued_def demo_queued_def split: if_splits)
  with run v2_messages_in_one_place[OF run] show ?thesis by simp
qed

theorem v2_failed_reinsertion_strands_witness:
  "\<exists>s s1. v2_run (\<lambda>_ _. True) (v2_initial [7]) s \<and> v2_step (V2Reinsert True (\<lambda>_. False) (Some []) 7) s s1 \<and> \<not> resolves (V2Reinsert True (\<lambda>_. False) (Some []) 7) s
     \<and> v2_run (\<lambda>_ _. True) s1 s1 \<and> 7 \<in> set (v2_queue s1 []) \<and> 7 \<notin> held (v2_wheel s1)"
proof -
  obtain s where s: "v2_step (V2Pop (demo_clock 12000000000)) demo_queued s" "v2_flying s = [7]" "v2_queue s = v2_queue demo_queued"
    using demo_pop by blast
  have run: "v2_run (\<lambda>_ _. True) (v2_initial [7]) s" by (rule v2_run.more[OF demo_run _ s(1)]) simp_all
  have r: "reinsert_ready_v2 True (Some []) (v2_structures (\<lambda>_. False) s) 7 = (Inl NoScheduledQueue, v2_structures (\<lambda>_. False) s)"
    by (simp add: reinsert_ready_v2_def v2_structures_def)
  obtain s1 where step: "v2_step (V2Reinsert True (\<lambda>_. False) (Some []) 7) s s1" using v2_step.reinsert[OF _ r] s(2) by auto
  have fails: "\<not> resolves (V2Reinsert True (\<lambda>_. False) (Some []) 7) s" by (simp add: resolves_def)
  have q: "7 \<in> set (v2_queue s [])" using s(3) by (simp add: demo_queued_def)
  have loop: "v2_run (\<lambda>_ _. True) s1 s1" by (rule v2_run.start)
  have "distinct [7::nat]" by simp
  from v2_failed_reinsertion_strands[OF run this q step fails loop] run step fails loop
  show ?thesis by (intro exI[of _ s] exI[of _ s1]) simp
qed

section \<open>Draining a queue of the world\<close>

text \<open>The protocol implements the timer queues of the world: the pairs of a queue and a message are the
  contents of the queues, and a message is in flight when the wheel no longer has it.\<close>

definition timeq_shows :: "v2_state \<Rightarrow> world \<Rightarrow> bool" where
  "timeq_shows s w \<longleftrightarrow> (\<forall>name. map snd (filter (\<lambda>e. fst e = name) (w_timeq w)) = v2_queue s name)"

lemma map_snd_filter: "map snd (filter (\<lambda>e. fst e = name \<and> P (snd e)) es) = filter P (map snd (filter (\<lambda>e. fst e = name) es))"
  by (induction es) auto

lemma map_snd_filter_other:
  "map snd (filter (\<lambda>e. fst e = name) (filter (\<lambda>e. \<not> (fst e = n \<and> P (snd e))) es))
     = (if name = n then filter (\<lambda>m. \<not> P m) (map snd (filter (\<lambda>e. fst e = n) es)) else map snd (filter (\<lambda>e. fst e = name) es))"
  by (induction es) auto

text \<open>C36: the drain of a queue on the second shared wheel refines the drain of the queue model: from a state of the
  protocol that shows the same timer queues, \<^verbatim>\<open>drain_timeq\<close> returns the messages that the protocol takes off the wheel, and
  the timer queues agree afterwards; so does an accepted insertion.\<close>

theorem v2_refines_timeq:
  assumes "v2_inv s" "timeq_shows s w" "\<And>m. timeq_in_flight env (w_tick w) m \<longleftrightarrow> m \<notin> held (v2_wheel s)"
  shows "(v2_step (V2Drain (sq_name q)) s s' \<longrightarrow>
       (\<exists>msgs w'. drain_timeq env q w = Ret msgs w' \<and> v2_hands s' = v2_hands s @ msgs \<and> timeq_shows s' w'))
    \<and> (m \<in> set (v2_hands s) \<longrightarrow>
        timeq_accepts env (w_tick w) (sq_name q) (w_msg w m) =
          (\<exists>b q' wh. insert_v2 ck m (v2_queue s (sq_name q)) (v2_wheel s) = (StructInserted b, q', wh)) \<longrightarrow>
        v2_step (V2Insert ck m (sq_name q)) s s' \<longrightarrow>
          (\<exists>b w'. timeq_insert env q m w = Ret b w' \<and> (b \<longleftrightarrow> m \<notin> set (v2_hands s')) \<and> timeq_shows s' w'))"
proof (intro conjI impI)
  let ?q = "v2_queue s (sq_name q)"
  have inv: "wheel_inv (v2_wheel s)" "distinct ?q" using assms(1) by (simp_all add: v2_inv_def)
  assume "v2_step (V2Drain (sq_name q)) s s'"
  then show "\<exists>msgs w'. drain_timeq env q w = Ret msgs w' \<and> v2_hands s' = v2_hands s @ msgs \<and> timeq_shows s' w'"
  proof cases
    case (drain wh qs msgs)
    have d: "qs = filter (\<lambda>m. m \<notin> held (v2_wheel s)) ?q" "msgs = filter (\<lambda>m. m \<in> held (v2_wheel s)) ?q"
      using drain_v2_exact[OF inv] drain(2) by auto
    have p: "drained env (w_tick w) (sq_name q) = (\<lambda>e. fst e = sq_name q \<and> snd e \<in> held (v2_wheel s))"
      using assms(3) by (auto simp: drained_def)
    let ?w = "w\<lparr>w_tick := Suc (w_tick w), w_timeq := filter (\<lambda>e. \<not> (fst e = sq_name q \<and> snd e \<in> held (v2_wheel s))) (w_timeq w)\<rparr>"
    have "drain_timeq env q w = Ret (map snd (filter (\<lambda>e. fst e = sq_name q \<and> snd e \<in> held (v2_wheel s)) (w_timeq w))) ?w"
      by (simp add: drain_timeq_def qbind_def qask_def qget_def qmod_def qret_def p)
    then have "drain_timeq env q w = Ret msgs ?w"
      using assms(2) d(2) unfolding timeq_shows_def by (simp add: map_snd_filter[where P = "\<lambda>m. m \<in> held (v2_wheel s)"])
    moreover have "map snd (filter (\<lambda>e. fst e = name) (w_timeq ?w)) = (if name = sq_name q then qs else v2_queue s name)" for name
      using map_snd_filter_other[of name "sq_name q" "\<lambda>m. m \<in> held (v2_wheel s)" "w_timeq w"] assms(2) d(1)
      unfolding timeq_shows_def by simp
    then have "timeq_shows s' ?w" using drain(1) by (simp add: timeq_shows_def)
    ultimately show ?thesis using drain(1) by auto
  qed
next
  assume m: "m \<in> set (v2_hands s)"
    and acc: "timeq_accepts env (w_tick w) (sq_name q) (w_msg w m) =
      (\<exists>b q' wh. insert_v2 ck m (v2_queue s (sq_name q)) (v2_wheel s) = (StructInserted b, q', wh))"
    and step: "v2_step (V2Insert ck m (sq_name q)) s s'"
  have inv: "wheel_inv (v2_wheel s)" using assms(1) by (simp add: v2_inv_def)
  have fresh: "m \<notin> set (v2_queue s n)" for n using assms(1) m unfolding v2_inv_def queued_def by blast
  from step show "\<exists>b w'. timeq_insert env q m w = Ret b w' \<and> (b \<longleftrightarrow> m \<notin> set (v2_hands s')) \<and> timeq_shows s' w'"
  proof cases
    case (inserted b qs wh)
    then have "qs = v2_queue s (sq_name q) @ [m]" using insert_v2_outcome(2)[OF inv inserted(3)] fresh by (auto simp: hs_insert_def)
    then show ?thesis
      using inserted acc assms(2) by (auto simp: timeq_insert_def get_msg_def qbind_def qask_def qget_def qmod_def qret_def timeq_shows_def)
  next
    case (full m' qs wh)
    then have "qs = v2_queue s (sq_name q)" using insert_v2_outcome(3)[OF inv full(3)] by simp
    then show ?thesis
      using full acc m assms(2) by (auto simp: timeq_insert_def get_msg_def qbind_def qask_def qget_def qmod_def qret_def timeq_shows_def)
  qed
qed

theorem v2_refines_timeq_witness:
  "let env = quiet_env; w = example_world\<lparr>w_timeq := [([], 7)]\<rparr>; q = \<lparr>sq_name = [], sq_config = default_queue_config\<rparr> in
     timeq_shows demo_queued w \<and> v2_inv demo_queued \<and> (\<exists>s'. v2_step (V2Drain []) demo_queued s' \<and>
       (\<exists>msgs w'. drain_timeq (env\<lparr>timeq_in_flight := (\<lambda>_ m. m \<noteq> 7)\<rparr>) q w = Ret msgs w' \<and> v2_hands s' = msgs \<and> timeq_shows s' w'))"
proof -
  let ?w = "example_world\<lparr>w_timeq := [([], 7)]\<rparr>" and ?q = "\<lparr>sq_name = [], sq_config = default_queue_config\<rparr>"
  have same: "timeq_shows demo_queued ?w" by (simp add: timeq_shows_def demo_queued_def)
  have run: "v2_run (\<lambda>_ _. True) (v2_initial [7]) demo_queued" by (rule demo_run) simp
  have inv: "v2_inv demo_queued" using v2_run_inv[OF run] by simp
  have held: "held (v2_wheel demo_queued) = {7}" by (simp add: demo_queued_def lone_wheel_def held_def)
  obtain wh qs msgs where "drain_v2 (v2_queue demo_queued []) (v2_wheel demo_queued) = (wh, qs, msgs)" by (metis prod_cases3)
  from v2_step.drain[OF this] obtain s' where s': "v2_step (V2Drain []) demo_queued s'" by blast
  have "\<exists>msgs w'. drain_timeq (quiet_env\<lparr>timeq_in_flight := (\<lambda>_ m. m \<noteq> 7)\<rparr>) ?q ?w = Ret msgs w'
      \<and> v2_hands s' = v2_hands demo_queued @ msgs \<and> timeq_shows s' w'"
    using v2_refines_timeq[OF inv same, of "quiet_env\<lparr>timeq_in_flight := (\<lambda>_ m. m \<noteq> 7)\<rparr>" ?q s'] s' held by simp
  then show ?thesis using same inv s' by (auto simp: demo_queued_def)
qed

section \<open>The maintainer of a queue\<close>

text \<open>In nanoseconds: how long the maintainer of a timer wheel sleeps, from the configured tick or a twentieth of the retry
  interval between a second and a minute, and that of a skip list, until the first message is due or for a day.\<close>

definition next_wakeup :: "queue_config \<Rightarrow> queue_strategy \<Rightarrow> nat option \<Rightarrow> nat" where
  "next_wakeup cfg kind next_due_in =
     (if kind = TimerWheel
      then (case timerwheel_tick_interval cfg of
              Some t \<Rightarrow> t
            | None \<Rightarrow> min (max (retry_interval cfg div 20) (1 * nanos)) (60 * nanos))
      else (case next_due_in of Some secs \<Rightarrow> secs * nanos | None \<Rightarrow> 86400 * nanos))"

text \<open>The messages that the structure of the queue says are due.\<close>

definition pop_due :: "qenv \<Rightarrow> sched_queue \<Rightarrow> nat list qm" where
  "pop_due env q =
     qbind (qask (\<lambda>t e. fst e = sq_name q \<and> timeq_is_due env t (snd e))) (\<lambda>p.
     qbind (qget (\<lambda>w. map snd (filter p (w_timeq w)))) (\<lambda>ids.
     qbind (qmod (\<lambda>w. w\<lparr>w_timeq := filter (\<lambda>e. \<not> p e) (w_timeq w)\<rparr>)) (\<lambda>_.
     qret ids)))"

text \<open>A message that is saved and dropped on shutdown.\<close>

definition park :: "qenv \<Rightarrow> nat \<Rightarrow> unit qm" where
  "park env i =
     qbind (save_if_needed_and_log env i None) (\<lambda>_. qmod (\<lambda>w. w\<lparr>w_parked := w_parked w @ [i]\<rparr>))"

text \<open>One turn of \<^verbatim>\<open>maintain_named_queue\<close>: whether there is another one.\<close>

definition maintain_pass :: "qenv \<Rightarrow> requeue_fun \<Rightarrow> nat \<Rightarrow> sched_queue \<Rightarrow> bool qm" where
  "maintain_pass env requeue n q =
     qbind (qask (\<lambda>t. bounce_for_queue_name env t (sq_name q))) (\<lambda>b.
     qbind (case b of Some suppress \<Rightarrow> bounce_all env q suppress | None \<Rightarrow> qret True) (\<lambda>_.
     qbind (qask (is_shutting_down env)) (\<lambda>down.
     if down then
       qbind (drain_timeq env q) (\<lambda>ids.
       qbind (for_each (park env) ids) (\<lambda>_. qret False))
     else
       qbind (pop_due env q) (\<lambda>ids.
       qbind (for_each (\<lambda>i. insert_ready env requeue n q i (ctx_from DueTimeWasReached)) ids) (\<lambda>_. qret True)))))"

text \<open>A loop that stops at the first error has placed the messages before it, and the others are in no queue.\<close>

lemma places_for_each:
  assumes "\<And>i j. places j (\<lambda>_. here j i) (f i)"
  shows "case for_each f ids w of
      Ret _ w' \<Rightarrow> \<forall>j. placed w' j = placed w j + count_list ids j
    | Fail _ w' \<Rightarrow> \<exists>lost. lost \<noteq> [] \<and> suffix lost ids \<and> (\<forall>j. placed w' j + count_list lost j = placed w j + count_list ids j)
    | _ \<Rightarrow> True"
proof (induction ids arbitrary: w)
  case (Cons i ids)
  have step: "case f i w of Ret _ w' \<Rightarrow> placed w' j = placed w j + here j i | Fail _ w' \<Rightarrow> placed w' j = placed w j | _ \<Rightarrow> True" for j
    using assms[of j i] unfolding places_def by blast
  show ?case
  proof (cases "f i w")
    case (Ret x w1)
    then have w1: "placed w1 j = placed w j + here j i" for j using step[of j] by simp
    show ?thesis
    proof (cases "for_each f ids w1")
      case (Ret xs w2)
      then show ?thesis using \<open>f i w = Ret x w1\<close> w1 Cons[of w1] by (simp add: qbind_def qret_def here_def)
    next
      case (Fail e w2)
      then obtain lost where "lost \<noteq> []" "suffix lost ids" "\<forall>j. placed w2 j + count_list lost j = placed w1 j + count_list ids j"
        using Cons[of w1] by auto
      then show ?thesis
        using \<open>f i w = Ret x w1\<close> Fail w1 by (auto simp: qbind_def here_def suffix_ConsI intro!: exI[of _ lost])
    qed (use \<open>f i w = Ret x w1\<close> in \<open>simp_all add: qbind_def\<close>)
  next
    case (Fail e w1)
    then have "placed w1 j = placed w j" for j using step[of j] by simp
    then show ?thesis using Fail by (auto simp: qbind_def intro!: exI[of _ "i # ids"])
  qed (simp_all add: qbind_def)
qed (simp add: qret_def)

lemma places_park: "places j (\<lambda>_. here j i) (park env i)"
  unfolding park_def
proof (rule places_quiet_bind)
  show "places j (\<lambda>_. here j i) (qmod (\<lambda>w. w\<lparr>w_parked := w_parked w @ [i]\<rparr>))"
    by (simp add: places_def qmod_def placed_def here_def)
qed (intro keep_intros)

lemma park_returns: "for_each (park env) ids w \<noteq> Fail e w'"
proof (induction ids arbitrary: w)
  case (Cons i ids)
  have "park env i w \<noteq> Fail e w1" for w1
    by (auto simp: park_def save_if_needed_and_log_def qtry_def qbind_def qret_def qmod_def split: outcome.splits)
  then show ?case using Cons by (auto simp: qbind_def qret_def split: outcome.splits)
qed (simp add: qret_def)

lemma pop_due_placed:
  obtains ids w' where "pop_due env q w = Ret ids w'" "\<And>j. placed w j = placed w' j + count_list ids j"
    "ids = map snd (filter (\<lambda>e. fst e = sq_name q \<and> timeq_is_due env (w_tick w) (snd e)) (w_timeq w))"
proof -
  let ?p = "\<lambda>e. fst e = sq_name q \<and> timeq_is_due env (w_tick w) (snd e)"
  have "count_list (map snd es) j = count_list (map snd (filter p es)) j + count_list (map snd (filter (\<lambda>e. \<not> p e) es)) j"
    for p :: "string \<times> nat \<Rightarrow> bool" and es j
    by (induction es) auto
  from this[of "w_timeq w" _ ?p] show thesis
    by (intro that[of "map snd (filter ?p (w_timeq w))"
        "w\<lparr>w_tick := Suc (w_tick w), w_timeq := filter (\<lambda>e. \<not> ?p e) (w_timeq w)\<rparr>"])
      (simp_all add: pop_due_def qbind_def qask_def qget_def qmod_def qret_def placed_def)
qed

lemma bounce_step_places:
  assumes "\<And>t. spawn_error env t = None"
  shows "\<exists>b w'. (case c of Some suppress \<Rightarrow> bounce_all env q suppress | None \<Rightarrow> qret True) w = Ret b w' \<and> (\<forall>j. placed w' j = placed w j)"
proof (cases c)
  case (Some suppress)
  show ?thesis
  proof (cases "bounce_all env q suppress w")
    case (Ret b w')
    have "b" using Ret assms
      by (auto simp: bounce_all_def qbind_def qask_def qret_def split: outcome.splits if_splits)
    then show ?thesis using Some Ret bounce_all_places[where env = env and q = q and suppress = suppress and w = w] by auto
  qed (use bounce_all_places[where env = env and q = q and suppress = suppress and w = w] in simp_all)
qed (auto simp: qret_def)


text \<open>An event handler that raises an error ends the maintainer: neither message of the batch is in a queue.\<close>

definition raising_env :: qenv where
  "raising_env = quiet_env\<lparr>throttle_insert_ready_event := (\<lambda>_ _. Inl ''error'')\<rparr>"


end
