(* ===== verification/Spec2Isabelle.thy ===== *)
theory Spec2Isabelle
  imports Gcra Lease_Limit Counter_Series Queue_Manager Queue_Index Egress_Source Dmarc_Report Queue_Maintainer
begin

text \<open>
  A verification development of KumoMTA, an outbound mail transfer agent written in Rust.  All paths
  below are relative to \<^verbatim>\<open>src/crates\<close>.

  \<^bold>\<open>The program.\<close>  A message that is received is stored in the spool and handed to the scheduled queue of its
  campaign, tenant and destination.  The scheduled queue keeps it in a timer structure until it is due, decides about
  retries and expiry, and moves it to a ready queue for the egress source that is selected for it.  Administrators bounce,
  suspend, rebind and transfer whole queues.  Throttles and leases limit rates and concurrency, across
  nodes by way of redis.  Incoming mail is checked with SPF and DMARC.

  \<^bold>\<open>Shared parts.\<close>
  \<^item> \<open>Kumo_Prelude\<close>: results, Rust's string and number routines, saturating words, and the
    interfaces \<open>codec\<close> (a printer with its parser) and \<open>invariant_system\<close> (a state machine with an invariant).
  \<^item> \<open>Net_Addr\<close>: \<^verbatim>\<open>std::net::IpAddr\<close> with its texts, and the labels of \<^verbatim>\<open>dns-resolver/src/resolver.rs\<close>.

  \<^bold>\<open>Limits.\<close>
  \<^item> \<open>Throttle_Spec\<close>: the specifications of \<^verbatim>\<open>throttle/src/lib.rs\<close>; what is printed parses back.
  \<^item> \<open>Gcra\<close>: \<^verbatim>\<open>throttle/src/throttle.rs\<close> with its redis script.  The requests granted in any window are bounded, a refused request is granted
    after the time the script names, and the conversions of its answer do not fail.
  \<^item> \<open>Lease_Limit\<close>: \<^verbatim>\<open>throttle/src/limit.rs\<close> and \<^verbatim>\<open>limit.lua\<close>.  Both backends implement the interface
    \<open>lease_pool\<close>, so under any interleaving the live leases never exceed the limit; a lease is released once.
  \<^item> \<open>Counter_Series\<close>: \<^verbatim>\<open>kumo-counter-series/src/lib.rs\<close>; the ring of buckets refines a sliding window.

  \<^bold>\<open>Queues.\<close>
  \<^item> \<open>Queue_Name\<close> and \<open>Queue_Config\<close>: \<^verbatim>\<open>message/src/queue_name.rs\<close> and \<^verbatim>\<open>kumod/src/queue/config.rs\<close>.  Names are
    parsed and printed back; the retry schedule is capped, stays within the maximal age, and the inferred number
    of attempts is exact.
  \<^item> \<open>Scheduling\<close>: \<^verbatim>\<open>message/src/scheduling.rs\<close>; a due time is moved to the earliest instant in the delivery windows.
  \<^item> \<open>Queue_World\<close>, \<open>Message_State\<close>, \<open>Scheduled_Queue\<close>, \<open>Queue_Returns\<close>, \<open>Queue_Manager\<close>:
    \<^verbatim>\<open>message/src/message.rs\<close>, \<^verbatim>\<open>kumod/src/queue/queue.rs\<close>, \<^verbatim>\<open>manager.rs\<close>, \<^verbatim>\<open>insert_context.rs\<close>, \<^verbatim>\<open>kumod/src/spool.rs\<close> and
    \<^verbatim>\<open>xfer/mod.rs\<close>.  The state is the record \<open>world\<close>, an operation is a computation in a state and error monad, and what
    the rest of the program answers is the record \<open>qenv\<close>, whose answers may change at every question.  An insertion puts a
    message into exactly one place, every removal is logged, the operations return in a calm environment, and
    administrative moves neither lose nor duplicate a message without reporting it.
  \<^item> \<open>Timer_Wheel\<close>: \<^verbatim>\<open>message/src/timeq.rs\<close>; the wheel holds, returns and cancels every message once, and implements
    the interface \<open>timer_queue\<close>.
  \<^item> \<open>Queue_Structure\<close>: \<^verbatim>\<open>kumod/src/queue/strategy.rs\<close> and \<^verbatim>\<open>timeq/src/lib.rs\<close>; all structures account for their messages.
  \<^item> \<open>Queue_Maintainer\<close>: \<^verbatim>\<open>kumod/src/queue/maintainer.rs\<close>.  The threads that use the shared wheel are a transition
    system, the relation \<open>v2_step\<close>; its invariant says that a message is in one place, and its drain and insertion
    refine the timer queues of the record \<open>world\<close>.
  \<^item> \<open>Queue_Index\<close>: \<^verbatim>\<open>kumod/src/http_server/queue_name_multi_index.rs\<close> and \<^verbatim>\<open>admin_bounce_v1.rs\<close>; a lookup in the index and its
    cache equals a scan of all rules.
  \<^item> \<open>Egress_Source\<close>: \<^verbatim>\<open>kumod/src/egress_source.rs\<close>; the weighted round robin is fair and the selection answers.

  \<^bold>\<open>Authentication.\<close>
  \<^item> \<open>Spf_Macro\<close>, \<open>Spf_Record\<close>, \<open>Spf_Eval\<close>: \<^verbatim>\<open>kumo-spf/src\<close>.  A check ends within its budget of lookups, the first matching
    directive decides, and addresses are compared by their leading bits.
  \<^item> \<open>Dmarc_Record\<close>, \<open>Dmarc_Eval\<close>, \<open>Dmarc_Report\<close>: \<^verbatim>\<open>kumo-dmarc/src\<close>, \<^verbatim>\<open>kumod/src/spf.rs\<close> and \<^verbatim>\<open>dmarc.rs\<close>.  An accepted record
    has the values of its tags, the evaluation decides as its parts say, and the aggregation accounts for every
    logged failure.

  \<^bold>\<open>Defects.\<close>  Where the code does not do what it means to, a theorem shows the behaviour: a message that misses
  its turn on the wheel, a message stranded by a failed reinsertion, a batch dropped by the
  maintainer, two messages of the same second on the skip list, an attempt count that is
  never found, and a DMARC failure that is never logged.

  \<^bold>\<open>Bounds and fuel.\<close>  An SPF check has fuel for two more nested checks than it has lookups; requeueing has a bound on its depth, one
  level being enough in a calm environment, and reaching it is the value \<open>Spin\<close>; the search for a delivery window makes the
  eight rounds of the code; the loops of the third party wheel have the elapsed time or its horizon as fuel, and those of the
  skip list its length.  Integers have their width where the code can overflow.

  \<^bold>\<open>Parameters.\<close>  DNS answers, the public suffix list, time zones, the redis-cell module, the third party timer
  wheel and skip list, event handlers, the spool's errors, clocks and random numbers are arguments of the definitions.
  The floating point numbers of the redis script and of the jitter are exact rationals.

  \<^bold>\<open>Not modelled.\<close>  The SMTP server and client, the ready queues and dispatchers, the HTTP API and transfer of
  messages between nodes, logging, storage and process setup are network and file code on asynchronous runtimes; what
  the queues need of them is a question to the environment.  The MIME, SMTP and address grammars are written with parser
  combinators of a library, DKIM is cryptography of a library, and bounce classification is a library's regular expressions.
  Caches, domain and network maps, MTA-STS and shaping automation stand apart from the modelled parts.  Lua modules and tools are
  bindings and command line programs.
\<close>

end
